(* ===== verification/Prelude.thy ===== *)
theory Prelude
  imports Main "HOL-Library.Word" "HOL-Library.Char_ord" "HOL-Library.List_Lexorder"
    "HOL-Library.Product_Lexorder"
begin

text \<open>
  Shared vocabulary of the development: the error values that stand for the exceptions the
  C++ code throws, the return codes it hands back, the result type and its bind, and the
  generic facts on lists, options and folds that the component theories rely on.
\<close>

section \<open>Automation collections\<close>

named_theorems smap_simps \<open>lookup laws of the ordered containers\<close>
named_theorems step_defs \<open>definitions of operations unfolded together\<close>
named_theorems reader_intros \<open>operations that fail with a configuration error only\<close>
named_theorems inv_intros \<open>preservation of well-formedness\<close>

section \<open>Errors and return codes\<close>

text \<open>
  One constructor per exception class thrown under \<^verbatim>\<open>src/\<close>; \<open>YamlException\<close> stands for
  the exceptions of the YAML library, \<open>OutOfRangeException\<close> and \<open>InvalidArgumentException\<close> are those of
  \<^verbatim>\<open>std::stol\<close>. \<open>ShouldNotHappen\<close> is
  the abort of \<^verbatim>\<open>utils::tsnh\<close>, \<open>NullDereference\<close> the use of a null smart pointer that
  a default-constructed map entry holds, \<open>InvalidMemoryAccess\<close> the access through a raw pointer
  that does not point to a live block, \<open>SignedOverflow\<close> a product outside its signed type.
\<close>

datatype exn =
    ConfigurationException
  | InitializationException
  | InconsistencyException
  | DNSException
  | YamlException
  | OutOfRangeException
  | InvalidArgumentException
  | ShouldNotHappen
  | NullDereference
  | InvalidMemoryAccess
  | SignedOverflow

type_synonym 'a result = "exn + 'a"

datatype return_code =
    RETCODE_OK
  | RETCODE_ERROR
  | RETCODE_NO_DATA
  | RETCODE_NOT_ENABLED
  | RETCODE_PRECONDITION_NOT_MET

definition ret_ok :: "return_code \<Rightarrow> bool" where
  "ret_ok r \<longleftrightarrow> r = RETCODE_OK"

definition rbind :: "'a result \<Rightarrow> ('a \<Rightarrow> 'b result) \<Rightarrow> 'b result" where
  "rbind m f = (case m of Inl e \<Rightarrow> Inl e | Inr x \<Rightarrow> f x)"

text \<open>A \<^verbatim>\<open>for\<close> loop whose body may throw.\<close>

fun rfold :: "('x \<Rightarrow> 's \<Rightarrow> 's result) \<Rightarrow> 'x list \<Rightarrow> 's \<Rightarrow> 's result" where
  "rfold f [] s = Inr s"
| "rfold f (x # xs) s = rbind (f x s) (rfold f xs)"

definition is_error :: "'a result \<Rightarrow> bool" where
  "is_error m \<longleftrightarrow> (\<exists>e. m = Inl e)"

section \<open>Generic lemmas\<close>

lemma ret_ok_simps [simp]:
  "ret_ok RETCODE_OK" "\<not> ret_ok RETCODE_ERROR" "\<not> ret_ok RETCODE_NO_DATA"
  "\<not> ret_ok RETCODE_NOT_ENABLED" "\<not> ret_ok RETCODE_PRECONDITION_NOT_MET"
  by (simp_all add: ret_ok_def)

lemma rbind_simps [simp]:
  "rbind (Inl e) f = Inl e"
  "rbind (Inr x) f = f x"
  by (simp_all add: rbind_def)

lemma rbind_eq_Inr_iff: "rbind m f = Inr y \<longleftrightarrow> (\<exists>x. m = Inr x \<and> f x = Inr y)"
  by (cases m) auto

lemma is_error_simps [simp]: "is_error (Inl e)" "\<not> is_error (Inr x)"
  by (simp_all add: is_error_def)

text \<open>
  A loop over a list keeps whatever each iteration keeps, and what an iteration establishes for
  its own element survives if the other iterations keep it. These two facts carry the proofs
  about every \<^verbatim>\<open>for\<close> loop of the code that is a \<open>fold\<close> here.
\<close>

lemma fold_invariant_rule:
  assumes "P s" and "\<And>x s. x \<in> set xs \<Longrightarrow> P s \<Longrightarrow> P (f x s)"
  shows "P (fold f xs s)"
  using assms by (induction xs arbitrary: s) auto

lemma fold_establishes:
  assumes "x \<in> set xs"
    and "\<And>s. Q x (f x s)"
    and "\<And>y s. y \<in> set xs \<Longrightarrow> Q x s \<Longrightarrow> Q x (f y s)"
  shows "Q x (fold f xs s)"
  using assms
proof (induction xs arbitrary: s)
  case Nil
  then show ?case by simp
next
  case (Cons y ys)
  show ?case
  proof (cases "x \<in> set ys")
    case True
    with Cons show ?thesis by simp
  next
    case False
    with Cons.prems(1) have "x = y" by simp
    have "Q x (fold f ys (f y s))"
      by (rule fold_invariant_rule [where P = "Q x"]) (use Cons.prems \<open>x = y\<close> in auto)
    then show ?thesis by simp
  qed
qed

text \<open>
  The same for loops that may throw, with what the iteration of an element needs (\<open>P\<close>) and
  establishes (\<open>Q\<close>): both are kept by the iterations of elements with another key.
\<close>

lemma rfold_establishes:
  assumes "rfold f xs s = Inr s'" and "I s" and "distinct (map k xs)"
    and "\<And>x s s'. x \<in> set xs \<Longrightarrow> I s \<Longrightarrow> P x s \<Longrightarrow> f x s = Inr s' \<Longrightarrow>
      I s' \<and> Q x s' \<and> (\<forall>y\<in>set xs. k y \<noteq> k x \<longrightarrow> (P y s \<longrightarrow> P y s') \<and> (Q y s \<longrightarrow> Q y s'))"
    and "\<forall>x\<in>set xs. P x s"
  shows "I s' \<and> (\<forall>x\<in>set xs. Q x s')"
proof -
  have "I s' \<and> (\<forall>x\<in>set ys \<union> set zs. Q x s')"
    if "rfold f zs s = Inr s'" "I s" "distinct (map k (ys @ zs))" "set (ys @ zs) \<subseteq> set xs"
      "\<forall>x\<in>set zs. P x s" "\<forall>x\<in>set ys. Q x s" for ys zs s
    using that
  proof (induction zs arbitrary: ys s)
    case (Cons z zs)
    then obtain s1 where s1: "f z s = Inr s1" "rfold f zs s1 = Inr s'"
      by (auto simp: rbind_eq_Inr_iff)
    have "z \<in> set xs" "I s" "P z s" using Cons.prems by auto
    note step = assms(4) [OF this s1(1)]
    have "set (ys @ z # zs) \<subseteq> set xs" by (rule Cons.prems(4))
    then have sub: "\<forall>x\<in>set zs \<union> set ys. x \<in> set xs \<and> k x \<noteq> k z"
      using Cons.prems(3) by (auto simp: image_iff)
    have "\<forall>x\<in>set zs. P x s1" "\<forall>x\<in>set (ys @ [z]). Q x s1"
      using sub step Cons.prems(5,6) by auto
    with Cons.IH [OF s1(2), of "ys @ [z]"] step Cons.prems(3,4) show ?case by auto
  qed auto
  from this [of xs s "[]"] assms(1-3,5) show ?thesis by simp
qed

lemma fold_const_field:
  assumes "\<And>x s. g (f x s) = g s"
  shows "g (fold f xs s) = g s"
  using assms by (induction xs arbitrary: s) auto

lemma list_all_filter_id: "list_all P xs \<Longrightarrow> filter P xs = xs"
  by (induction xs) auto

end
