(* ===== verification/Std_Map.thy ===== *)
theory Std_Map
  imports Prelude
begin

text \<open>
  Executable models of the ordered containers of the standard library. A \<^verbatim>\<open>std::map\<close> is its
  sequence of entries in iteration order; two keys are the same key when the comparison
  \<^verbatim>\<open>operator<\<close> of the key class orders them neither way. That comparison is given by a
  function \<open>key\<close> into a linear order, so that classes whose \<^verbatim>\<open>operator<\<close> ignores some of
  their members (topics, services, addresses) are modelled with the identification the code
  really has. Assigning through \<^verbatim>\<open>operator[]\<close> keeps the stored key object and replaces the
  value only; \<^verbatim>\<open>emplace\<close> and \<^verbatim>\<open>insert\<close> leave an existing entry alone.
\<close>

section \<open>Operations\<close>

type_synonym ('k, 'v) smap = "('k \<times> 'v) list"

fun smap_find :: "('k \<Rightarrow> 'o) \<Rightarrow> 'k \<Rightarrow> ('k, 'v) smap \<Rightarrow> 'v option" where
  "smap_find key k [] = None"
| "smap_find key k ((k', v) # m) = (if key k = key k' then Some v else smap_find key k m)"

fun smap_set :: "('k \<Rightarrow> 'o::linorder) \<Rightarrow> 'k \<Rightarrow> 'v \<Rightarrow> ('k, 'v) smap \<Rightarrow> ('k, 'v) smap" where
  "smap_set key k v [] = [(k, v)]"
| "smap_set key k v ((k', w) # m) =
     (if key k < key k' then (k, v) # (k', w) # m
      else if key k = key k' then (k', v) # m
      else (k', w) # smap_set key k v m)"

definition smap_emplace :: "('k \<Rightarrow> 'o::linorder) \<Rightarrow> 'k \<Rightarrow> 'v \<Rightarrow> ('k, 'v) smap \<Rightarrow> ('k, 'v) smap" where
  "smap_emplace key k v m = (case smap_find key k m of None \<Rightarrow> smap_set key k v m | Some _ \<Rightarrow> m)"

definition smap_erase :: "('k \<Rightarrow> 'o) \<Rightarrow> 'k \<Rightarrow> ('k, 'v) smap \<Rightarrow> ('k, 'v) smap" where
  "smap_erase key k m = filter (\<lambda>e. key (fst e) \<noteq> key k) m"

definition smap_ok :: "('k \<Rightarrow> 'o::linorder) \<Rightarrow> ('k, 'v) smap \<Rightarrow> bool" where
  "smap_ok key m \<longleftrightarrow> sorted_wrt (<) (map (key \<circ> fst) m)"

definition smap_keys :: "('k, 'v) smap \<Rightarrow> 'k list" where
  "smap_keys m = map fst m"

definition smap_has :: "('k \<Rightarrow> 'o) \<Rightarrow> 'k \<Rightarrow> ('k, 'v) smap \<Rightarrow> bool" where
  "smap_has key k m \<longleftrightarrow> smap_find key k m \<noteq> None"

fun sset_insert :: "('a \<Rightarrow> 'o::linorder) \<Rightarrow> 'a \<Rightarrow> 'a list \<Rightarrow> 'a list" where
  "sset_insert key x [] = [x]"
| "sset_insert key x (y # ys) =
     (if key x < key y then x # y # ys
      else if key x = key y then y # ys
      else y # sset_insert key x ys)"

definition sset_erase :: "('a \<Rightarrow> 'o) \<Rightarrow> 'a \<Rightarrow> 'a list \<Rightarrow> 'a list" where
  "sset_erase key x s = filter (\<lambda>y. key y \<noteq> key x) s"

definition sset_of_list :: "('a \<Rightarrow> 'o::linorder) \<Rightarrow> 'a list \<Rightarrow> 'a list" where
  "sset_of_list key xs = fold (sset_insert key) xs []"

definition sset_ok :: "('a \<Rightarrow> 'o::linorder) \<Rightarrow> 'a list \<Rightarrow> bool" where
  "sset_ok key s \<longleftrightarrow> sorted_wrt (<) (map key s)"

section \<open>The interface of an associative container\<close>

text \<open>
  What the client components use of a map: lookups after an assignment and after an erase, and
  that every operation keeps the representation well-formed. The lemmas on loops that assign
  many keys are proved here once.
\<close>

locale kv_store =
  fixes empty :: "'m"
    and find :: "'k \<Rightarrow> 'm \<Rightarrow> 'v option"
    and assign :: "'k \<Rightarrow> 'v \<Rightarrow> 'm \<Rightarrow> 'm"
    and erase :: "'k \<Rightarrow> 'm \<Rightarrow> 'm"
    and ok :: "'m \<Rightarrow> bool"
    and same :: "'k \<Rightarrow> 'k \<Rightarrow> bool"
  assumes find_empty: "find k empty = None"
    and find_assign: "find j (assign k v m) = (if same j k then Some v else find j m)"
    and find_erase: "find j (erase k m) = (if same j k then None else find j m)"
    and ok_empty: "ok empty"
    and ok_assign: "ok m \<Longrightarrow> ok (assign k v m)"
    and ok_erase: "ok m \<Longrightarrow> ok (erase k m)"
    and same_refl: "same k k"
begin

lemma assign_then_find: "find k (assign k v m) = Some v"
  by (simp add: find_assign same_refl)

lemma assign_overwrites: "find j (assign k v (assign k w m)) = find j (assign k v m)"
  by (simp add: find_assign)

lemma erase_then_find: "find k (erase k m) = None"
  by (simp add: find_erase same_refl)

lemma erase_undoes_assign: "find k m = None \<Longrightarrow> find j (erase k (assign k v m)) = (if same j k then None else find j m)"
  by (simp add: find_assign find_erase)

lemma ok_assign_loop: "ok m \<Longrightarrow> ok (fold (\<lambda>k. assign k (g k)) ks m)"
  by (rule fold_invariant_rule [where P = ok]) (auto intro: ok_assign)

lemma find_assign_loop_other:
  "(\<And>k. k \<in> set ks \<Longrightarrow> \<not> same j k) \<Longrightarrow> find j (fold (\<lambda>k. assign k (g k)) ks m) = find j m"
  by (induction ks arbitrary: m) (auto simp: find_assign)

end

section \<open>Lemmas\<close>

lemma smap_id_key [simp]:
  "smap_find (\<lambda>a. a) = smap_find id" "smap_ok (\<lambda>a. a) = smap_ok id"
  "smap_set (\<lambda>a. a) = smap_set id" "smap_erase (\<lambda>a. a) = smap_erase id"
  "sset_insert (\<lambda>a. a) = sset_insert id" "sset_ok (\<lambda>a. a) = sset_ok id"
  by (simp_all add: id_def)

lemma smap_find_set [simp, smap_simps]:
  "smap_find key j (smap_set key k v m) = (if key j = key k then Some v else smap_find key j m)"
  by (induction m) auto

lemma smap_find_erase [simp, smap_simps]:
  "smap_find key j (smap_erase key k m) = (if key j = key k then None else smap_find key j m)"
  by (induction m) (auto simp: smap_erase_def)

lemma smap_find_emplace [simp, smap_simps]:
  "smap_find key j (smap_emplace key k v m) =
     (if smap_find key k m = None \<and> key j = key k then Some v else smap_find key j m)"
  by (auto simp: smap_emplace_def split: option.splits)

lemma smap_find_same_key: "key j = key k \<Longrightarrow> smap_find key j m = smap_find key k m"
  by (induction m) auto

lemma smap_find_None_iff: "smap_find key k m = None \<longleftrightarrow> (\<forall>e\<in>set m. key (fst e) \<noteq> key k)"
  by (induction m) (auto split: if_splits)

lemma smap_find_SomeD: "smap_find key k m = Some v \<Longrightarrow> \<exists>k'. key k' = key k \<and> (k', v) \<in> set m"
  by (induction m) (auto split: if_splits)

lemma set_smap_set_new:
  "smap_find key k m = None \<Longrightarrow> set (smap_set key k v m) = insert (k, v) (set m)"
  by (induction m) (auto split: if_splits)

lemma smap_ok_Nil [simp, inv_intros]: "smap_ok key []"
  by (simp add: smap_ok_def)

lemma smap_ok_Cons:
  "smap_ok key ((k, v) # m) \<longleftrightarrow> (\<forall>e\<in>set m. key k < key (fst e)) \<and> smap_ok key m"
  by (simp add: smap_ok_def)

lemma smap_find_in_ok: "smap_ok key m \<Longrightarrow> (k, v) \<in> set m \<Longrightarrow> smap_find key k m = Some v"
proof (induction m)
  case (Cons e m)
  obtain k' w where "e = (k', w)" by fastforce
  with Cons show ?case by (force simp: smap_ok_Cons)
qed simp

lemma smap_set_below:
  "\<forall>e\<in>set m. a < key (fst e) \<Longrightarrow> a < key k \<Longrightarrow> \<forall>e\<in>set (smap_set key k v m). a < key (fst e)"
  by (induction m) (fastforce split: if_splits)+

lemma smap_ok_set [simp, inv_intros]: "smap_ok key m \<Longrightarrow> smap_ok key (smap_set key k v m)"
proof (induction m)
  case Nil
  then show ?case by (simp add: smap_ok_def)
next
  case (Cons e m)
  obtain k' w where e: "e = (k', w)" by fastforce
  from Cons.prems e have low: "\<forall>e\<in>set m. key k' < key (fst e)" and ok: "smap_ok key m"
    by (auto simp: smap_ok_Cons)
  consider "key k < key k'" | "key k = key k'" | "key k' < key k" by fastforce
  then show ?case
  proof cases
    case 1
    with Cons.prems e show ?thesis by (auto simp: smap_ok_Cons)
  next
    case 2
    with Cons.prems e show ?thesis by (auto simp: smap_ok_Cons)
  next
    case 3
    with low have "\<forall>e\<in>set (smap_set key k v m). key k' < key (fst e)"
      by (intro smap_set_below)
    with 3 Cons.IH ok e show ?thesis by (auto simp: smap_ok_Cons)
  qed
qed

lemma smap_ok_erase [simp, inv_intros]: "smap_ok key m \<Longrightarrow> smap_ok key (smap_erase key k m)"
  by (induction m) (auto simp: smap_erase_def smap_ok_def)

lemma set_smap_erase: "set (smap_erase key k m) \<subseteq> set m"
  by (auto simp: smap_erase_def)

lemma smap_ok_emplace [simp, inv_intros]: "smap_ok key m \<Longrightarrow> smap_ok key (smap_emplace key k v m)"
  by (simp add: smap_emplace_def split: option.splits)

lemma length_smap_set:
  "smap_ok key m \<Longrightarrow>
   length (smap_set key k v m) = (if smap_find key k m = None then Suc (length m) else length m)"
proof (induction m)
  case (Cons e m)
  obtain k' w where e: "e = (k', w)" by fastforce
  with Cons show ?case
    by (cases "key k < key k'") (fastforce simp: smap_ok_Cons smap_find_None_iff)+
qed simp

lemma smap_keys_set_existing:
  "smap_ok key m \<Longrightarrow> smap_find key k m \<noteq> None \<Longrightarrow> map fst (smap_set key k v m) = map fst m"
proof (induction m)
  case (Cons e m)
  obtain k' w where e: "e = (k', w)" by fastforce
  show ?case
  proof (cases "key k < key k'")
    case True
    with Cons.prems(1) have "smap_find key k (e # m) = None"
      unfolding e by (fastforce simp: smap_ok_Cons smap_find_None_iff)
    with Cons.prems(2) show ?thesis by simp
  next
    case False
    with Cons e show ?thesis by (auto simp: smap_ok_Cons)
  qed
qed simp

lemma smap_ok_distinct: "smap_ok key m \<Longrightarrow> distinct (map (key \<circ> fst) m)"
  by (simp add: smap_ok_def strict_sorted_iff)

lemma smap_in_keys_find: "k \<in> set (smap_keys m) \<Longrightarrow> smap_find key k m \<noteq> None"
  unfolding smap_keys_def smap_find_None_iff by auto

lemma set_sset_insert_keys: "key ` set (sset_insert key x s) = insert (key x) (key ` set s)"
  by (induction s) auto

lemma set_sset_insert_subset: "set (sset_insert key x s) \<subseteq> insert x (set s)"
  by (induction s) auto

lemma sset_ok_insert [simp, inv_intros]: "sset_ok key s \<Longrightarrow> sset_ok key (sset_insert key x s)"
proof (induction s)
  case Nil
  then show ?case by (simp add: sset_ok_def)
next
  case (Cons y ys)
  have "key y < z" if "key y < key x" "z \<in> key ` set (sset_insert key x ys)" for z
    using that Cons.prems by (auto simp: set_sset_insert_keys sset_ok_def)
  with Cons show ?case by (fastforce simp: sset_ok_def)
qed

lemma sset_ok_of_list: "sset_ok key (sset_of_list key xs)"
  unfolding sset_of_list_def
  by (rule fold_invariant_rule [where P = "sset_ok key"]) (auto simp: sset_ok_def[of _ "[]"])

lemma sset_ok_erase [simp, inv_intros]: "sset_ok key s \<Longrightarrow> sset_ok key (sset_erase key x s)"
  by (induction s) (auto simp: sset_erase_def sset_ok_def)

interpretation smap: kv_store "[]" "smap_find key" "smap_set key" "smap_erase key" "smap_ok key"
    "\<lambda>j k. key j = key k" for key :: "'k \<Rightarrow> 'o::linorder"
  by unfold_locales auto

end
