(* ===== verification/Std_String.thy ===== *)
theory Std_String
  imports Prelude
begin

text \<open>
  The string functions of the standard library the sources use: \<^verbatim>\<open>find\<close>, \<^verbatim>\<open>rfind\<close>
  with their \<^verbatim>\<open>size_t\<close> results (\<^verbatim>\<open>npos\<close> is the all-ones value, and arithmetic on the
  result wraps), and \<^verbatim>\<open>std::regex_replace\<close> for the regular expressions that occur, which are
  alternations of literal words: matches are taken from left to right, do not overlap, and each is
  replaced by a literal.
\<close>

section \<open>Operations\<close>

type_synonym size_t = "64 word"

definition is_prefix :: "string \<Rightarrow> string \<Rightarrow> bool" where
  "is_prefix p s \<longleftrightarrow> take (length p) s = p"

fun str_find :: "string \<Rightarrow> string \<Rightarrow> nat option" where
  "str_find p [] = (if p = [] then Some 0 else None)"
| "str_find p (c # cs) =
     (if is_prefix p (c # cs) then Some 0 else map_option Suc (str_find p cs))"

fun str_rfind :: "string \<Rightarrow> string \<Rightarrow> nat option" where
  "str_rfind p [] = (if p = [] then Some 0 else None)"
| "str_rfind p (c # cs) =
     (case str_rfind p cs of
        Some i \<Rightarrow> Some (Suc i)
      | None \<Rightarrow> if is_prefix p (c # cs) then Some 0 else None)"

definition npos :: size_t where
  "npos = - 1"

definition pos_of :: "nat option \<Rightarrow> size_t" where
  "pos_of r = (case r of None \<Rightarrow> npos | Some i \<Rightarrow> of_nat i)"

definition string_find :: "string \<Rightarrow> string \<Rightarrow> size_t" where
  "string_find s p = pos_of (str_find p s)"

definition string_rfind :: "string \<Rightarrow> string \<Rightarrow> size_t" where
  "string_rfind s p = pos_of (str_rfind p s)"

definition string_length :: "string \<Rightarrow> size_t" where
  "string_length s = of_nat (length s)"

definition occurs :: "string \<Rightarrow> string \<Rightarrow> bool" where
  "occurs p s \<longleftrightarrow> str_find p s \<noteq> None"

definition match_alt :: "string list \<Rightarrow> string \<Rightarrow> string option" where
  "match_alt ps s = List.find (\<lambda>p. p \<noteq> [] \<and> is_prefix p s) ps"

function regex_replace :: "string \<Rightarrow> string list \<Rightarrow> string \<Rightarrow> string" where
  "regex_replace [] ps r = []"
| "regex_replace (c # cs) ps r =
     (case match_alt ps (c # cs) of
        Some p \<Rightarrow> r @ regex_replace (drop (length p - 1) cs) ps r
      | None \<Rightarrow> c # regex_replace cs ps r)"
  by pat_completeness auto
termination
  by (relation "measure (\<lambda>(s, ps, r). length s)") auto

section \<open>Lemmas\<close>

lemma is_prefix_append [simp]: "is_prefix p (p @ s)"
  by (simp add: is_prefix_def)

lemma is_prefix_Nil [simp]: "is_prefix [] s"
  by (simp add: is_prefix_def)

lemma is_prefix_Cons [simp]: "is_prefix (x # p) (y # s) \<longleftrightarrow> x = y \<and> is_prefix p s"
  by (auto simp: is_prefix_def)

lemma is_prefix_Cons_Nil [simp]: "\<not> is_prefix (x # p) []"
  by (simp add: is_prefix_def)

lemma is_prefix_length: "is_prefix p s \<Longrightarrow> length p \<le> length s"
  unfolding is_prefix_def by (metis length_take min.cobounded1)

lemma occurs_iff: "occurs p s \<longleftrightarrow> (\<exists>i\<le>length s. is_prefix p (drop i s))"
proof (induction s)
  case Nil
  then show ?case by (cases p) (auto simp: occurs_def)
next
  case (Cons c cs)
  have "(\<exists>i\<le>length (c # cs). is_prefix p (drop i (c # cs)))
      \<longleftrightarrow> is_prefix p (c # cs) \<or> (\<exists>i\<le>length cs. is_prefix p (drop i cs))"
    by (metis Suc_le_mono drop0 drop_Suc_Cons le0 length_Cons not0_implies_Suc)
  with Cons show ?case by (simp add: occurs_def)
qed

lemma occurs_simps [simp]:
  "occurs (x # p) [] \<longleftrightarrow> False"
  "occurs p (c # cs) \<longleftrightarrow> is_prefix p (c # cs) \<or> occurs p cs"
  by (auto simp: occurs_def)

lemma str_rfind_None_iff: "str_rfind p s = None \<longleftrightarrow> \<not> occurs p s"
  by (induction s) (auto simp: occurs_def split: option.splits)

lemma str_rfind_SomeD: "str_rfind p s = Some i \<Longrightarrow> is_prefix p (drop i s) \<and> i \<le> length s"
  by (induction s arbitrary: i) (auto split: option.splits if_splits)

lemma str_rfind_greatest: "is_prefix p (drop j s) \<Longrightarrow> j \<le> length s \<Longrightarrow> \<exists>i\<ge>j. str_rfind p s = Some i"
proof (induction s arbitrary: j)
  case Nil
  then show ?case by (cases p) auto
next
  case (Cons c cs)
  show ?case
  proof (cases j)
    case 0
    with Cons.prems show ?thesis by (auto split: option.splits)
  next
    case (Suc j')
    with Cons.prems Cons.IH [of j'] show ?thesis by auto
  qed
qed

lemma str_rfind_suffix: "str_rfind p (s @ p @ t) = Some i \<Longrightarrow> length s \<le> i"
  using str_rfind_greatest [of p "length s" "s @ p @ t"] by auto

lemma str_find_0_iff: "str_find p s = Some 0 \<longleftrightarrow> is_prefix p s"
  by (cases s; cases p) auto

lemma str_find_le: "str_find p s = Some i \<Longrightarrow> i \<le> length s"
  by (induction s arbitrary: i) (auto split: if_splits)

lemma is_prefix_straddle:
  assumes "is_prefix p (s @ y # ys)" and "y \<notin> set (tl p)" and "s \<noteq> []"
  shows "is_prefix p s"
  using assms
proof (induction p arbitrary: s)
  case (Cons a p)
  then obtain b s' where s: "s = b # s'" by (cases s) auto
  show ?case
  proof (cases "s' = []")
    case True
    with Cons.prems s show ?thesis by (cases p) auto
  next
    case False
    from Cons.prems s have "is_prefix p (s' @ y # ys)" by simp
    moreover from Cons.prems have "y \<notin> set (tl p)" by (cases p) auto
    ultimately have "is_prefix p s'"
      using Cons.IH False by blast
    with Cons.prems s show ?thesis by simp
  qed
qed simp

lemma regex_replace_skip:
  assumes "\<And>p. p \<in> set ps \<Longrightarrow> \<not> occurs p s \<and> y \<notin> set (tl p)"
  shows "regex_replace (s @ y # ys) ps r = s @ regex_replace (y # ys) ps r"
  using assms
proof (induction s)
  case (Cons c s)
  have "match_alt ps (c # s @ y # ys) = None"
    unfolding match_alt_def find_None_iff
  proof (clarify)
    fix p
    assume "p \<in> set ps" "p \<noteq> []" "is_prefix p (c # s @ y # ys)"
    then have "is_prefix p (c # s)"
      using is_prefix_straddle [of p "c # s" y ys] Cons.prems by simp
    with \<open>p \<in> set ps\<close> Cons.prems show False by auto
  qed
  with Cons show ?case by simp
qed simp

lemma regex_replace_skip_all:
  "list_all (\<lambda>p. \<not> occurs p s \<and> y \<notin> set (tl p)) ps \<Longrightarrow>
   regex_replace (s @ y # ys) ps r = s @ regex_replace (y # ys) ps r"
  by (rule regex_replace_skip) (auto simp: list_all_iff)

lemma regex_replace_none: "(\<And>p. p \<in> set ps \<Longrightarrow> \<not> occurs p s) \<Longrightarrow> regex_replace s ps r = s"
proof (induction s)
  case (Cons c s)
  then have "match_alt ps (c # s) = None"
    by (auto simp: match_alt_def find_None_iff)
  with Cons show ?case by simp
qed simp

lemma regex_replace_hit:
  "match_alt ps (p @ s) = Some p \<Longrightarrow> p \<noteq> [] \<Longrightarrow> regex_replace (p @ s) ps r = r @ regex_replace s ps r"
  by (cases p) auto

lemma pos_of_Some [simp]: "pos_of (Some i) = of_nat i"
  by (simp add: pos_of_def)

lemma pos_of_None [simp]: "pos_of None = npos"
  by (simp add: pos_of_def)

end
