(* ===== verification/Dds_Types.thy ===== *)
theory Dds_Types
  imports Std_Map Std_String
begin

text \<open>
  The value types of \<^verbatim>\<open>ddsrouter_core/types/participant\<close> and
  \<^verbatim>\<open>ddsrouter_core/types/dds\<close>: participant ids and kinds, domain ids, GUIDs, the quality of
  service of topics and endpoints, and the properties that travel with a sample. GUIDs, entity ids
  and instance handles are Fast DDS byte arrays compared byte by byte; the parsing of a textual GUID
  prefix is Fast DDS code and a parameter.
\<close>

section \<open>Participant identifiers\<close>

datatype participant_id = PId (id_name: string)

definition INVALID_ID :: string where
  "INVALID_ID = ''__invalid_ddsrouter_participant__''"

definition participant_id_is_valid_id :: "string \<Rightarrow> bool" where
  "participant_id_is_valid_id tag \<longleftrightarrow> tag \<noteq> [] \<and> tag \<noteq> INVALID_ID"

definition participant_id_of_string :: "string \<Rightarrow> participant_id" where
  "participant_id_of_string s = (if \<not> participant_id_is_valid_id s then PId INVALID_ID else PId s)"

definition participant_id_invalid :: participant_id where
  "participant_id_invalid = PId INVALID_ID"

definition participant_id_is_valid :: "participant_id \<Rightarrow> bool" where
  "participant_id_is_valid p = participant_id_is_valid_id (id_name p)"

definition participant_id_print :: "participant_id \<Rightarrow> string" where
  "participant_id_print p = ''ParticipantId{'' @ id_name p @ ''}''"

definition participant_id_less :: "participant_id \<Rightarrow> participant_id \<Rightarrow> bool" where
  [simp]: "participant_id_less p q \<longleftrightarrow> id_name p < id_name q"

instantiation participant_id :: linorder
begin

definition less_eq_participant_id :: "participant_id \<Rightarrow> participant_id \<Rightarrow> bool" where
  "less_eq_participant_id p q \<longleftrightarrow> \<not> participant_id_less q p"

definition less_participant_id :: "participant_id \<Rightarrow> participant_id \<Rightarrow> bool" where
  "less_participant_id p q \<longleftrightarrow> participant_id_less p q"

instance
  by standard (auto simp: less_eq_participant_id_def less_participant_id_def participant_id.expand)

end

section \<open>Participant kinds\<close>

datatype participant_kind =
    PK_invalid
  | PK_blank
  | PK_echo
  | PK_dummy
  | PK_simple_rtps
  | PK_local_discovery_server
  | PK_wan_discovery_server
  | PK_wan_initial_peers

definition ALL_PARTICIPANT_KINDS :: "participant_kind list" where
  "ALL_PARTICIPANT_KINDS =
     [PK_invalid, PK_blank, PK_echo, PK_dummy, PK_simple_rtps, PK_local_discovery_server,
      PK_wan_discovery_server, PK_wan_initial_peers]"

definition ALL_VALID_PARTICIPANT_KINDS :: "participant_kind list" where
  "ALL_VALID_PARTICIPANT_KINDS =
     [PK_blank, PK_echo, PK_dummy, PK_simple_rtps, PK_local_discovery_server,
      PK_wan_discovery_server, PK_wan_initial_peers]"

fun participant_kind_print :: "participant_kind \<Rightarrow> string" where
  "participant_kind_print PK_invalid = ''invalid''"
| "participant_kind_print PK_blank = ''blank''"
| "participant_kind_print PK_echo = ''echo''"
| "participant_kind_print PK_dummy = ''dummy''"
| "participant_kind_print PK_simple_rtps = ''simple-rtps''"
| "participant_kind_print PK_local_discovery_server = ''local-discovery-server''"
| "participant_kind_print PK_wan_discovery_server = ''wan-ds''"
| "participant_kind_print PK_wan_initial_peers = ''wan-initial-peers''"

definition PARTICIPANT_KIND_ALIASES :: "string list list" where
  "PARTICIPANT_KIND_ALIASES =
     [[''__invalid_participant_kind__'', '''', '''', ''''],
      [''blank'', ''void'', '''', ''''],
      [''echo'', '''', '''', ''''],
      [''dummy'', '''', '''', ''''],
      [''local'', ''simple'', '''', ''''],
      [''discovery-server'', ''ds'', ''local-ds'', ''local-discovery-server''],
      [''wan-ds'', ''wan-discovery-server'', '''', ''''],
      [''wan'', ''router'', ''initial-peers'', '''']]"

text \<open>
  The loop over the alias table: \<open>kinds\<close> is the rest of \<open>ALL_PARTICIPANT_KINDS\<close> from the
  index of the row looked at. \<open>to_lowercase\<close> is \<^verbatim>\<open>utils::to_lowercase\<close>.
\<close>

fun participant_kind_search ::
    "(string \<Rightarrow> string) \<Rightarrow> string \<Rightarrow> string list list \<Rightarrow> participant_kind list \<Rightarrow> participant_kind" where
  "participant_kind_search to_lowercase s (aliases # rows) (k # kinds) =
     (if list_ex (\<lambda>str. s = to_lowercase str) aliases then k
      else participant_kind_search to_lowercase s rows kinds)"
| "participant_kind_search to_lowercase s rows kinds = PK_invalid"

definition participant_kind_from_name :: "(string \<Rightarrow> string) \<Rightarrow> string \<Rightarrow> participant_kind" where
  "participant_kind_from_name to_lowercase kind_str =
     (if length kind_str = 0 then PK_invalid
      else participant_kind_search to_lowercase (to_lowercase kind_str)
             PARTICIPANT_KIND_ALIASES ALL_PARTICIPANT_KINDS)"

section \<open>Domains and GUIDs\<close>

datatype domain_id = DomainId (domain_id_value: "32 word")

definition DEFAULT_DOMAIN_ID :: "32 word" where
  "DEFAULT_DOMAIN_ID = 0"

definition DEFAULT_DISCOVERY_SERVER_DOMAIN_ID :: "32 word" where
  "DEFAULT_DISCOVERY_SERVER_DOMAIN_ID = 66"

definition MAX_DOMAIN_ID :: "32 word" where
  "MAX_DOMAIN_ID = 230"

definition domain_id_default :: "bool \<Rightarrow> domain_id" where
  "domain_id_default discovery_server =
     (if discovery_server then DomainId DEFAULT_DISCOVERY_SERVER_DOMAIN_ID
      else DomainId DEFAULT_DOMAIN_ID)"

definition domain_id_is_valid :: "domain_id \<Rightarrow> bool" where
  "domain_id_is_valid d \<longleftrightarrow> domain_id_value d \<le> MAX_DOMAIN_ID"

type_synonym octet = "8 word"
type_synonym guid_prefix = "octet list"
type_synonym entity_id = "octet list"

definition guid_prefix_unknown :: guid_prefix where
  "guid_prefix_unknown = replicate 12 0"

definition entity_id_unknown :: entity_id where
  "entity_id_unknown = replicate 4 0"

definition SERVER_DEFAULT_GUID_PREFIX_STR :: string where
  "SERVER_DEFAULT_GUID_PREFIX_STR = ''01.0f.00.00.00.00.00.00.00.00.ca.fe''"

text \<open>
  \<open>parse\<close> is the stream extraction of a \<^verbatim>\<open>GuidPrefix_t\<close> in Fast DDS and
  \<open>ros_prefix_str\<close> its constant \<^verbatim>\<open>DEFAULT_ROS2_SERVER_GUIDPREFIX\<close>.
\<close>

definition guid_prefix_of_string :: "(string \<Rightarrow> guid_prefix) \<Rightarrow> string \<Rightarrow> guid_prefix" where
  "guid_prefix_of_string parse str_prefix = parse str_prefix"

definition guid_prefix_of_seed ::
    "(string \<Rightarrow> guid_prefix) \<Rightarrow> string \<Rightarrow> bool \<Rightarrow> 32 word \<Rightarrow> guid_prefix" where
  "guid_prefix_of_seed parse ros_prefix_str ros seed =
     (parse (if ros then ros_prefix_str else SERVER_DEFAULT_GUID_PREFIX_STR))[2 := ucast seed]"

definition guid_prefix_of_id :: "(string \<Rightarrow> guid_prefix) \<Rightarrow> string \<Rightarrow> 32 word \<Rightarrow> guid_prefix" where
  "guid_prefix_of_id parse ros_prefix_str seed = guid_prefix_of_seed parse ros_prefix_str False seed"

definition guid_prefix_is_valid :: "guid_prefix \<Rightarrow> bool" where
  "guid_prefix_is_valid p \<longleftrightarrow> p \<noteq> guid_prefix_unknown"

record guid =
  guid_prefix_of :: guid_prefix
  guid_entity_id :: entity_id

definition guid_unknown :: guid where
  "guid_unknown = \<lparr>guid_prefix_of = guid_prefix_unknown, guid_entity_id = entity_id_unknown\<rparr>"

definition guid_is_valid :: "guid \<Rightarrow> bool" where
  "guid_is_valid g \<longleftrightarrow>
     guid_prefix_is_valid (guid_prefix_of g) \<and> guid_entity_id g \<noteq> entity_id_unknown"

definition guid_key :: "guid \<Rightarrow> guid_prefix \<times> entity_id" where
  "guid_key g = (guid_prefix_of g, guid_entity_id g)"

section \<open>Quality of service\<close>

datatype durability_kind = VOLATILE | TRANSIENT_LOCAL | TRANSIENT | PERSISTENT

datatype reliability_kind = RELIABLE | BEST_EFFORT

datatype ownership_kind = SHARED_OWNERSHIP_QOS | EXCLUSIVE_OWNERSHIP_QOS

record topic_qos =
  durability_qos :: durability_kind
  reliability_qos :: reliability_kind
  ownership_qos :: ownership_kind
  use_partitions :: bool
  history_depth :: "32 word"

text \<open>
  The constructor reads the global \<^verbatim>\<open>TopicQoS::default_history_depth\<close>, whose initial value
  is \<open>initial_default_history_depth\<close> and which the router overwrites with its configuration.
\<close>

definition initial_default_history_depth :: "32 word" where
  "initial_default_history_depth = 1000"

definition topic_qos_default :: "32 word \<Rightarrow> topic_qos" where
  "topic_qos_default default_history_depth =
     \<lparr>durability_qos = VOLATILE, reliability_qos = BEST_EFFORT,
      ownership_qos = SHARED_OWNERSHIP_QOS, use_partitions = False,
      history_depth = default_history_depth\<rparr>"

definition topic_qos_eq :: "topic_qos \<Rightarrow> topic_qos \<Rightarrow> bool" where
  "topic_qos_eq q other \<longleftrightarrow>
     reliability_qos q = reliability_qos other \<and>
     durability_qos q = durability_qos other \<and>
     history_depth q = history_depth other \<and>
     ownership_qos q = ownership_qos other \<and>
     use_partitions q = use_partitions other"

definition topic_qos_is_reliable :: "topic_qos \<Rightarrow> bool" where
  "topic_qos_is_reliable q \<longleftrightarrow> reliability_qos q = RELIABLE"

definition topic_qos_is_transient_local :: "topic_qos \<Rightarrow> bool" where
  "topic_qos_is_transient_local q \<longleftrightarrow> durability_qos q = TRANSIENT_LOCAL"

definition topic_qos_has_ownership :: "topic_qos \<Rightarrow> bool" where
  "topic_qos_has_ownership q \<longleftrightarrow> ownership_qos q = EXCLUSIVE_OWNERSHIP_QOS"

definition topic_qos_has_partitions :: "topic_qos \<Rightarrow> bool" where
  "topic_qos_has_partitions q = use_partitions q"

record specific_endpoint_qos =
  partitions :: "string list"
  ownership_strength :: "32 word"

definition specific_endpoint_qos_default :: specific_endpoint_qos where
  "specific_endpoint_qos_default = \<lparr>partitions = [], ownership_strength = 0\<rparr>"

text \<open>The loop over the partition names; both vectors have the same size when it is reached.\<close>

fun partition_names_less :: "string list \<Rightarrow> string list \<Rightarrow> bool" where
  "partition_names_less (a # as) (b # bs) =
     (if a < b then True else if a > b then False else partition_names_less as bs)"
| "partition_names_less _ _ = False"

definition specific_endpoint_qos_less :: "specific_endpoint_qos \<Rightarrow> specific_endpoint_qos \<Rightarrow> bool" where
  "specific_endpoint_qos_less q other =
     (if ownership_strength q < ownership_strength other then True
      else if ownership_strength q > ownership_strength other then False
      else if length (partitions q) < length (partitions other) then True
      else if length (partitions q) > length (partitions other) then False
      else partition_names_less (partitions q) (partitions other))"

definition specific_endpoint_qos_eq :: "specific_endpoint_qos \<Rightarrow> specific_endpoint_qos \<Rightarrow> bool" where
  "specific_endpoint_qos_eq q other \<longleftrightarrow>
     partitions q = partitions other \<and> ownership_strength q = ownership_strength other"

definition specific_qos_key :: "specific_endpoint_qos \<Rightarrow> 32 word \<times> nat \<times> string list" where
  "specific_qos_key q = (ownership_strength q, length (partitions q), partitions q)"

section \<open>Samples\<close>

datatype change_kind =
    ALIVE
  | NOT_ALIVE_DISPOSED
  | NOT_ALIVE_UNREGISTERED
  | NOT_ALIVE_DISPOSED_UNREGISTERED

type_synonym sequence_number = "64 word"
type_synonym instance_handle = "octet list"

record sample_identity =
  writer_guid :: guid
  sequence_no :: sequence_number

record write_params =
  wp_sample_identity :: sample_identity
  wp_related_sample_identity :: sample_identity
  wp_source_timestamp :: "64 word"

text \<open>The unknown sequence number of RTPS has the high half \<^verbatim>\<open>-1\<close> and the low half \<^verbatim>\<open>0\<close>.\<close>

definition sequence_number_unknown :: sequence_number where
  "sequence_number_unknown = 0xFFFFFFFF00000000"

definition sample_identity_unknown :: sample_identity where
  "sample_identity_unknown = \<lparr>writer_guid = guid_unknown, sequence_no = sequence_number_unknown\<rparr>"

definition write_params_default :: write_params where
  "write_params_default =
     \<lparr>wp_sample_identity = sample_identity_unknown,
      wp_related_sample_identity = sample_identity_unknown, wp_source_timestamp = - 1\<rparr>"

record data_properties =
  writer_qos :: specific_endpoint_qos
  instanceHandle :: instance_handle
  dp_kind :: change_kind
  source_timestamp :: "64 word"
  source_guid :: guid
  participant_receiver :: participant_id
  dp_write_params :: "write_params option"
  origin_sequence_number :: sequence_number

definition data_properties_less :: "data_properties \<Rightarrow> data_properties \<Rightarrow> bool" where
  "data_properties_less p other =
     (if specific_endpoint_qos_less (writer_qos p) (writer_qos other) then True
      else if specific_endpoint_qos_eq (writer_qos p) (writer_qos other)
      then instanceHandle p < instanceHandle other
      else False)"

definition data_properties_eq :: "data_properties \<Rightarrow> data_properties \<Rightarrow> bool" where
  "data_properties_eq p other \<longleftrightarrow>
     specific_endpoint_qos_eq (writer_qos p) (writer_qos other) \<and>
     instanceHandle p = instanceHandle other"

type_synonym addr = nat

record payload =
  payload_data :: "addr option"
  payload_length :: "32 word"
  payload_max_size :: "32 word"
  payload_pos :: "32 word"

record data_received =
  dr_payload :: payload
  dr_properties :: data_properties
  sent_sequence_number :: sequence_number

section \<open>Lemmas\<close>

lemma participant_id_key_inj [simp]: "id_name p = id_name q \<longleftrightarrow> p = q"
  by (auto intro: participant_id.expand)

lemma participant_id_of_string_is_valid [simp]:
  "participant_id_is_valid (participant_id_of_string s) = participant_id_is_valid_id s"
  by (simp add: participant_id_is_valid_def participant_id_of_string_def participant_id_is_valid_id_def)

lemma guid_key_inj [simp]: "guid_key g = guid_key h \<longleftrightarrow> g = h"
  by (auto simp: guid_key_def)

lemma partition_names_less_iff:
  "length as = length bs \<Longrightarrow> partition_names_less as bs \<longleftrightarrow> as < bs"
  by (induction as bs rule: list_induct2) auto

lemma specific_endpoint_qos_eq_iff [simp]: "specific_endpoint_qos_eq a b \<longleftrightarrow> a = b"
  by (auto simp: specific_endpoint_qos_eq_def)

lemma specific_endpoint_qos_less_iff:
  "specific_endpoint_qos_less a b \<longleftrightarrow> specific_qos_key a < specific_qos_key b"
  by (auto simp: specific_endpoint_qos_less_def specific_qos_key_def partition_names_less_iff
        less_prod_def)

lemma specific_qos_key_inj [simp]: "specific_qos_key a = specific_qos_key b \<longleftrightarrow> a = b"
  by (auto simp: specific_qos_key_def)

lemma participant_kind_search_range:
  "participant_kind_search lc s rows kinds \<in> insert PK_invalid (set kinds)"
  by (induction lc s rows kinds rule: participant_kind_search.induct) auto

section \<open>Properties\<close>

text \<open>
  The comparison of specific qualities of service, a cascade over strength, number of
  partitions and partition names, is a strict total order whose ties are exactly equal values, as
  the map of the multi-writer needs.
\<close>

lemma specific_qos_strict_total_order:
  "\<not> specific_endpoint_qos_less a a \<and>
   (specific_endpoint_qos_less a b \<and> specific_endpoint_qos_less b c \<longrightarrow> specific_endpoint_qos_less a c) \<and>
   (\<not> specific_endpoint_qos_less a b \<and> \<not> specific_endpoint_qos_less b a \<longleftrightarrow> a = b)"
proof -
  have "\<not> specific_qos_key a < specific_qos_key b \<and> \<not> specific_qos_key b < specific_qos_key a \<longleftrightarrow>
      specific_qos_key a = specific_qos_key b" by auto
  then show ?thesis unfolding specific_endpoint_qos_less_iff specific_qos_key_inj by force
qed

text \<open>
  Reading a participant kind by the name the code prints for it gives the kind back for all valid
  kinds but two: the printed names of the simple RTPS and the WAN initial peers kinds are not among
  the accepted aliases and read as invalid.
\<close>

lemma participant_kind_print_read:
  assumes "\<forall>s\<in>set (concat PARTICIPANT_KIND_ALIASES) \<union> participant_kind_print ` UNIV. lowercase s = s"
  shows "participant_kind_from_name lowercase (participant_kind_print k) =
    (if k \<in> {PK_invalid, PK_simple_rtps, PK_wan_initial_peers} then PK_invalid else k)"
proof -
  have lc: "lowercase s = s" if "s \<in> set (concat PARTICIPANT_KIND_ALIASES) \<or> s = participant_kind_print k" for s
    using assms that by auto
  show ?thesis
    using lc by (cases k)
      (simp_all add: participant_kind_from_name_def PARTICIPANT_KIND_ALIASES_def ALL_PARTICIPANT_KINDS_def)
qed

end
