(* ===== verification/Topics.thy ===== *)
theory Topics
  imports Dds_Types
begin

text \<open>
  Topics (\<^verbatim>\<open>types/topic\<close>): plain and DDS topics with their validity check, the wildcard
  filters of the allow and block lists, and RPC topics, which infer a service from the mangled name
  of one of its two topics. Pattern matching (\<^verbatim>\<open>utils::match_pattern\<close>) and the printing of a
  fuzzy string are library code and appear as parameters.
\<close>

section \<open>Topics\<close>

record dds_topic =
  topic_name :: string
  type_name :: string
  keyed :: bool
  topic_qos_of :: topic_qos

definition topic_is_valid :: "string \<Rightarrow> bool" where
  "topic_is_valid name = (if name = [] then False else True)"

definition dds_topic_of_names :: "32 word \<Rightarrow> string \<Rightarrow> string \<Rightarrow> dds_topic" where
  "dds_topic_of_names default_history_depth name type =
     \<lparr>topic_name = name, type_name = type, keyed = False,
      topic_qos_of = topic_qos_default default_history_depth\<rparr>"

definition dds_topic_of :: "string \<Rightarrow> string \<Rightarrow> bool \<Rightarrow> topic_qos \<Rightarrow> dds_topic" where
  "dds_topic_of name type k qos =
     \<lparr>topic_name = name, type_name = type, keyed = k, topic_qos_of = qos\<rparr>"

fun no_invalid_substring :: "string \<Rightarrow> string \<Rightarrow> string list \<Rightarrow> bool" where
  "no_invalid_substring name type [] = True"
| "no_invalid_substring name type (invalid_substring # rest) =
     (if string_find name invalid_substring \<noteq> npos then False
      else if string_find type invalid_substring \<noteq> npos then False
      else no_invalid_substring name type rest)"

definition dds_topic_is_valid :: "dds_topic \<Rightarrow> bool" where
  "dds_topic_is_valid t =
     (if \<not> topic_is_valid (topic_name t) then False
      else if type_name t = [] then False
      else no_invalid_substring (topic_name t) (type_name t) [''*''])"

definition is_valid_dds_topic :: "32 word \<Rightarrow> string \<Rightarrow> string \<Rightarrow> bool" where
  "is_valid_dds_topic default_history_depth name type =
     dds_topic_is_valid (dds_topic_of_names default_history_depth name type)"

definition dds_topic_less :: "dds_topic \<Rightarrow> dds_topic \<Rightarrow> bool" where
  "dds_topic_less t other =
     (if topic_name t = topic_name other then type_name t < type_name other
      else topic_name t < topic_name other)"

definition dds_topic_eq :: "dds_topic \<Rightarrow> dds_topic \<Rightarrow> bool" where
  "dds_topic_eq t other \<longleftrightarrow> topic_name t = topic_name other \<and> type_name t = type_name other"

definition dds_topic_key :: "dds_topic \<Rightarrow> string \<times> string" where
  "dds_topic_key t = (topic_name t, type_name t)"

section \<open>Filters\<close>

text \<open>The members \<^verbatim>\<open>type_name\<close> and \<^verbatim>\<open>keyed\<close> are fuzzy: \<open>None\<close> when not set.\<close>

record wildcard_filter =
  filter_topic_name :: string
  filter_type_name :: "string option"
  filter_keyed :: "bool option"

definition wildcard_filter_of :: "string \<Rightarrow> wildcard_filter" where
  "wildcard_filter_of name =
     \<lparr>filter_topic_name = name, filter_type_name = None, filter_keyed = None\<rparr>"

definition wildcard_contains :: "wildcard_filter \<Rightarrow> wildcard_filter \<Rightarrow> bool" where
  "wildcard_contains f other = False"

definition wildcard_matches ::
    "(string \<Rightarrow> string \<Rightarrow> bool) \<Rightarrow> wildcard_filter \<Rightarrow> dds_topic \<Rightarrow> bool" where
  "wildcard_matches match_pattern f other =
     (if (case filter_keyed f of None \<Rightarrow> False | Some k \<Rightarrow> k \<noteq> keyed other) then False
      else if (case filter_type_name f of None \<Rightarrow> False
               | Some ty \<Rightarrow> \<not> match_pattern ty (type_name other)) then False
      else match_pattern (filter_topic_name f) (topic_name other))"

definition wildcard_serialize :: "(string \<Rightarrow> string) \<Rightarrow> wildcard_filter \<Rightarrow> string" where
  "wildcard_serialize print_fuzzy f =
     ''WildcardDdsFilterTopic{'' @ filter_topic_name f @
     (case filter_type_name f of None \<Rightarrow> '''' | Some ty \<Rightarrow> '';'' @ print_fuzzy ty) @
     (case filter_keyed f of None \<Rightarrow> '''' | Some _ \<Rightarrow> '';keyed'') @ ''}''"

definition dds_filter_topic_less ::
    "(string \<Rightarrow> string) \<Rightarrow> wildcard_filter \<Rightarrow> wildcard_filter \<Rightarrow> bool" where
  "dds_filter_topic_less print_fuzzy f other \<longleftrightarrow>
     wildcard_serialize print_fuzzy other < wildcard_serialize print_fuzzy f"

definition dds_filter_topic_eq ::
    "(string \<Rightarrow> string) \<Rightarrow> wildcard_filter \<Rightarrow> wildcard_filter \<Rightarrow> bool" where
  "dds_filter_topic_eq print_fuzzy f other \<longleftrightarrow>
     wildcard_serialize print_fuzzy other = wildcard_serialize print_fuzzy f"

section \<open>RPC topics\<close>

definition REQUEST_PREFIX_STR :: string where "REQUEST_PREFIX_STR = ''rq/''"
definition REPLY_PREFIX_STR :: string where "REPLY_PREFIX_STR = ''rr/''"
definition REQUEST_STR :: string where "REQUEST_STR = ''Request''"
definition REPLY_STR :: string where "REPLY_STR = ''Reply''"
definition RESPONSE_STR :: string where "RESPONSE_STR = ''Response''"

record rpc_topic =
  service_name :: string
  request_topic :: dds_topic
  reply_topic :: dds_topic

definition is_request_topic :: "dds_topic \<Rightarrow> bool" where
  "is_request_topic t \<longleftrightarrow>
     string_find (topic_name t) REQUEST_PREFIX_STR = 0 \<and>
     string_rfind (topic_name t) REQUEST_STR + string_length REQUEST_STR
       = string_length (topic_name t) \<and>
     string_rfind (type_name t) REQUEST_STR + string_length REQUEST_STR + 1
       = string_length (type_name t)"

definition is_reply_topic :: "dds_topic \<Rightarrow> bool" where
  "is_reply_topic t \<longleftrightarrow>
     string_find (topic_name t) REPLY_PREFIX_STR = 0 \<and>
     string_rfind (topic_name t) REPLY_STR + string_length REPLY_STR
       = string_length (topic_name t) \<and>
     string_rfind (type_name t) RESPONSE_STR + string_length RESPONSE_STR + 1
       = string_length (type_name t)"

definition is_service_topic :: "dds_topic \<Rightarrow> bool" where
  "is_service_topic t \<longleftrightarrow> is_request_topic t \<or> is_reply_topic t"

definition rpc_topic_of :: "string \<Rightarrow> dds_topic \<Rightarrow> dds_topic \<Rightarrow> rpc_topic" where
  "rpc_topic_of name req rep = \<lparr>service_name = name, request_topic = req, reply_topic = rep\<rparr>"

definition rpc_topic_of_topic :: "dds_topic \<Rightarrow> rpc_topic result" where
  "rpc_topic_of_topic t =
     (if is_request_topic t then
        let n1 = regex_replace (topic_name t) [REQUEST_PREFIX_STR] REPLY_PREFIX_STR;
            n2 = regex_replace n1 [REQUEST_STR] REPLY_STR;
            ty = regex_replace (type_name t) [REQUEST_STR] RESPONSE_STR;
            sn = regex_replace (topic_name t) [REQUEST_PREFIX_STR, REQUEST_STR] ''''
        in Inr \<lparr>service_name = sn, request_topic = t,
                reply_topic = t\<lparr>topic_name := n2, type_name := ty\<rparr>\<rparr>
      else if is_reply_topic t then
        let n1 = regex_replace (topic_name t) [REPLY_PREFIX_STR] REQUEST_PREFIX_STR;
            n2 = regex_replace n1 [REPLY_STR] REQUEST_STR;
            ty = regex_replace (type_name t) [RESPONSE_STR] REQUEST_STR;
            sn = regex_replace (topic_name t) [REPLY_PREFIX_STR, REPLY_STR] ''''
        in Inr \<lparr>service_name = sn,
                request_topic = t\<lparr>topic_name := n2, type_name := ty\<rparr>, reply_topic = t\<rparr>
      else Inl ShouldNotHappen)"

definition rpc_topic_key :: "rpc_topic \<Rightarrow> string" where
  "rpc_topic_key t = service_name t"

definition rpc_topic_print :: "rpc_topic \<Rightarrow> string" where
  "rpc_topic_print t = ''RPCTopic{'' @ service_name t @ ''}''"

section \<open>Lemmas\<close>

lemmas rpc_words = REQUEST_PREFIX_STR_def REPLY_PREFIX_STR_def REQUEST_STR_def REPLY_STR_def
  RESPONSE_STR_def

lemma dds_topic_less_iff: "dds_topic_less a b \<longleftrightarrow> dds_topic_key a < dds_topic_key b"
  by (auto simp: dds_topic_less_def dds_topic_key_def less_prod_def)

lemma dds_topic_eq_iff: "dds_topic_eq a b \<longleftrightarrow> dds_topic_key a = dds_topic_key b"
  by (simp add: dds_topic_eq_def dds_topic_key_def)

lemma unat_of_nat_size_t: "n < 2 ^ 64 \<Longrightarrow> unat (of_nat n :: size_t) = n"
  by (simp add: unsigned_of_nat take_bit_nat_eq_self)

lemma of_nat_size_t_eq_iff:
  "m < 2 ^ 64 \<Longrightarrow> n < 2 ^ 64 \<Longrightarrow> (of_nat m :: size_t) = of_nat n \<longleftrightarrow> m = n"
  by (metis unat_of_nat_size_t)

lemma string_find_0_iff: "length s < 2 ^ 64 \<Longrightarrow> string_find s p = 0 \<longleftrightarrow> is_prefix p s"
proof (cases "str_find p s")
  case None
  then show ?thesis
    using str_find_0_iff [of p s] by (simp add: string_find_def npos_def)
next
  case (Some i)
  assume "length s < 2 ^ 64"
  with Some have "i < 2 ^ 64" using str_find_le [OF Some] by simp
  then show ?thesis
    using str_find_0_iff [of p s] Some of_nat_size_t_eq_iff [of i 0] by (simp add: string_find_def)
qed

lemma word_of_nat_max: "(18446744073709551615 :: size_t) = - 1"
  by simp

lemma string_find_npos_iff: "length s < 2 ^ 64 - 1 \<Longrightarrow> string_find s p = npos \<longleftrightarrow> \<not> occurs p s"
proof (cases "str_find p s")
  case (Some i)
  assume "length s < 2 ^ 64 - 1"
  with Some have "i < 2 ^ 64 - 1" using str_find_le [OF Some] by simp
  then have "(of_nat i :: size_t) \<noteq> of_nat (2 ^ 64 - 1)"
    using of_nat_size_t_eq_iff [of i "2 ^ 64 - 1"] by simp
  then show ?thesis
    using Some by (simp add: string_find_def npos_def occurs_def) (metis word_of_nat_max)
qed (simp add: string_find_def occurs_def)

text \<open>
  What the test \<^verbatim>\<open>s.rfind(p) + p.length() + k == s.length()\<close> really decides: either the last
  occurrence of \<open>p\<close> is followed by exactly \<open>k\<close> characters, or \<open>p\<close> does not occur and the
  wrapped sum happens to be the length.
\<close>

lemma rfind_test_iff:
  assumes "length s + length p + k < 2 ^ 64" and "0 < length p + k"
  shows "string_rfind s p + string_length p + of_nat k = string_length s \<longleftrightarrow>
    (\<exists>i. str_rfind p s = Some i \<and> i + length p + k = length s) \<or>
    (\<not> occurs p s \<and> length s + 1 = length p + k)"
proof (cases "str_rfind p s")
  case None
  have "string_rfind s p + string_length p + of_nat k = (of_nat (length p + k - 1) :: size_t)"
    using None of_nat_diff [of 1 "length p + k", where 'a = size_t] assms(2)
    by (simp add: string_rfind_def string_length_def npos_def Suc_le_eq del: length_greater_0_conv)
  then have "string_rfind s p + string_length p + of_nat k = string_length s
      \<longleftrightarrow> length p + k - 1 = length s"
    using of_nat_size_t_eq_iff [of "length p + k - 1" "length s"] assms(1)
    by (simp add: string_length_def)
  then show ?thesis
    using None assms(2) str_rfind_None_iff [of p s] by (cases p) auto
next
  case (Some i)
  then have "i \<le> length s" using str_rfind_SomeD by blast
  have "string_rfind s p + string_length p + of_nat k = (of_nat (i + length p + k) :: size_t)"
    using Some by (simp add: string_rfind_def string_length_def)
  then have "string_rfind s p + string_length p + of_nat k = string_length s
      \<longleftrightarrow> i + length p + k = length s"
    using of_nat_size_t_eq_iff [of "i + length p + k" "length s"] assms(1) \<open>i \<le> length s\<close>
    by (simp add: string_length_def)
  then show ?thesis
    using Some str_rfind_None_iff [of p s] by auto
qed

lemma rfind_at_end_iff:
  "(\<exists>i. str_rfind p s = Some i \<and> i + length p = length s) \<longleftrightarrow> (\<exists>u. s = u @ p)"
proof
  assume "\<exists>i. str_rfind p s = Some i \<and> i + length p = length s"
  then obtain i where i: "str_rfind p s = Some i" "i + length p = length s" by blast
  then have "drop i s = p"
    using str_rfind_SomeD [OF i(1)] by (simp add: is_prefix_def)
  then show "\<exists>u. s = u @ p"
    by (metis append_take_drop_id)
next
  assume "\<exists>u. s = u @ p"
  then obtain u where s: "s = u @ p" by blast
  then obtain i where i: "str_rfind p s = Some i" "length u \<le> i"
    using str_rfind_greatest [of p "length u" s] by (auto simp: is_prefix_def)
  then have "is_prefix p (drop i s)" "i \<le> length s"
    using str_rfind_SomeD by auto
  then have "i + length p \<le> length s"
    using is_prefix_length [of p "drop i s"] by simp
  with i s show "\<exists>i. str_rfind p s = Some i \<and> i + length p = length s" by auto
qed

text \<open>
  With one trailing character the last occurrence is the one before it, unless the pattern can
  overlap itself at distance one; a pattern whose first two letters differ cannot.
\<close>

lemma rfind_before_last_iff:
  assumes "p = a # b # q" and "a \<noteq> b"
  shows "(\<exists>i. str_rfind p s = Some i \<and> i + length p + 1 = length s) \<longleftrightarrow> (\<exists>u c. s = u @ p @ [c])"
proof
  assume "\<exists>i. str_rfind p s = Some i \<and> i + length p + 1 = length s"
  then obtain i where i: "str_rfind p s = Some i" "i + length p + 1 = length s" by blast
  then have "take (length p) (drop i s) = p"
    using str_rfind_SomeD [OF i(1)] by (simp add: is_prefix_def)
  moreover have "length (drop (length p) (drop i s)) = 1" using i by simp
  then obtain c where "drop (length p) (drop i s) = [c]"
    by (metis One_nat_def length_0_conv length_Suc_conv)
  ultimately have "drop i s = p @ [c]" by (metis append_take_drop_id)
  then show "\<exists>u c. s = u @ p @ [c]"
    by (metis append_take_drop_id)
next
  assume "\<exists>u c. s = u @ p @ [c]"
  then obtain u c where s: "s = u @ p @ [c]" by blast
  then obtain i where i: "str_rfind p s = Some i" "length u \<le> i"
    using str_rfind_greatest [of p "length u" s] by auto
  then have pre: "is_prefix p (drop i s)" and "i \<le> length s"
    using str_rfind_SomeD by auto
  then have "i + length p \<le> length s"
    using is_prefix_length [of p "drop i s"] by simp
  with i(2) s have "i = length u \<or> i = Suc (length u)" by auto
  moreover have "i \<noteq> Suc (length u)"
    using pre s assms by auto
  ultimately show "\<exists>i. str_rfind p s = Some i \<and> i + length p + 1 = length s"
    using i s by auto
qed

lemma is_request_topic_iff:
  assumes "length (topic_name t) < 2 ^ 60" and "length (type_name t) < 2 ^ 60"
  shows "is_request_topic t \<longleftrightarrow>
    is_prefix ''rq/'' (topic_name t) \<and>
    ((\<exists>u. topic_name t = u @ ''Request'')
      \<or> \<not> occurs ''Request'' (topic_name t) \<and> length (topic_name t) = 6) \<and>
    ((\<exists>u c. type_name t = u @ ''Request'' @ [c])
      \<or> \<not> occurs ''Request'' (type_name t) \<and> length (type_name t) = 7)"
  using rfind_test_iff [of "topic_name t" "''Request''" 0]
    rfind_test_iff [of "type_name t" "''Request''" 1]
    rfind_at_end_iff [of "''Request''" "topic_name t"]
    rfind_before_last_iff [of "''Request''" _ _ _ "type_name t"]
    string_find_0_iff [of "topic_name t" "''rq/''"] assms
  by (simp add: is_request_topic_def rpc_words numeral_2_eq_2 [symmetric])

lemma is_reply_topic_iff:
  assumes "length (topic_name t) < 2 ^ 60" and "length (type_name t) < 2 ^ 60"
  shows "is_reply_topic t \<longleftrightarrow>
    is_prefix ''rr/'' (topic_name t) \<and>
    ((\<exists>u. topic_name t = u @ ''Reply'')
      \<or> \<not> occurs ''Reply'' (topic_name t) \<and> length (topic_name t) = 4) \<and>
    ((\<exists>u c. type_name t = u @ ''Response'' @ [c])
      \<or> \<not> occurs ''Response'' (type_name t) \<and> length (type_name t) = 8)"
  using rfind_test_iff [of "topic_name t" "''Reply''" 0]
    rfind_test_iff [of "type_name t" "''Response''" 1]
    rfind_at_end_iff [of "''Reply''" "topic_name t"]
    rfind_before_last_iff [of "''Response''" _ _ _ "type_name t"]
    string_find_0_iff [of "topic_name t" "''rr/''"] assms
  by (simp add: is_reply_topic_def rpc_words numeral_2_eq_2 [symmetric])

text \<open>
  A name that contains none of the mangling words is kept by every replacement, so the
  replacements of the constructor touch the prefix and the suffix only.
\<close>

definition plain_service_name :: "string \<Rightarrow> bool" where
  "plain_service_name s \<longleftrightarrow>
     \<not> occurs ''rq/'' s \<and> \<not> occurs ''rr/'' s \<and> \<not> occurs ''Request'' s \<and> \<not> occurs ''Reply'' s"

definition plain_type_name :: "string \<Rightarrow> bool" where
  "plain_type_name s \<longleftrightarrow> \<not> occurs ''Request'' s \<and> \<not> occurs ''Response'' s"

lemma rpc_topic_of_request:
  assumes "plain_service_name s" and "plain_type_name ty"
    and "length s < 2 ^ 59" and "length ty < 2 ^ 59"
    and "t = \<lparr>topic_name = ''rq/'' @ s @ ''Request'', type_name = ty @ ''Request'' @ [c],
               keyed = k, topic_qos_of = q\<rparr>"
  shows "is_request_topic t"
    and "rpc_topic_of_topic t =
      Inr \<lparr>service_name = s, request_topic = t,
           reply_topic = \<lparr>topic_name = ''rr/'' @ s @ ''Reply'', type_name = ty @ ''Response'' @ [c],
                          keyed = k, topic_qos_of = q\<rparr>\<rparr>"
proof -
  have "\<exists>u. topic_name t = u @ ''Request''"
    using assms(5) by (intro exI [of _ "''rq/'' @ s"]) simp
  moreover have "\<exists>u c. type_name t = u @ ''Request'' @ [c]"
    using assms(5) by simp
  ultimately show req: "is_request_topic t"
    using assms is_request_topic_iff [of t] by simp
  show "rpc_topic_of_topic t =
      Inr \<lparr>service_name = s, request_topic = t,
           reply_topic = \<lparr>topic_name = ''rr/'' @ s @ ''Reply'', type_name = ty @ ''Response'' @ [c],
                          keyed = k, topic_qos_of = q\<rparr>\<rparr>"
    using req assms(1,2)
    unfolding rpc_topic_of_topic_def rpc_words Let_def assms(5) plain_service_name_def
      plain_type_name_def
    by (simp add: match_alt_def regex_replace_skip_all)
qed

lemma rpc_topic_of_reply:
  assumes "plain_service_name s" and "plain_type_name ty"
    and "length s < 2 ^ 59" and "length ty < 2 ^ 59"
    and "t = \<lparr>topic_name = ''rr/'' @ s @ ''Reply'', type_name = ty @ ''Response'' @ [c],
               keyed = k, topic_qos_of = q\<rparr>"
  shows "is_reply_topic t" and "\<not> is_request_topic t"
    and "rpc_topic_of_topic t =
      Inr \<lparr>service_name = s,
           request_topic = \<lparr>topic_name = ''rq/'' @ s @ ''Request'', type_name = ty @ ''Request'' @ [c],
                            keyed = k, topic_qos_of = q\<rparr>,
           reply_topic = t\<rparr>"
proof -
  have "\<exists>u. topic_name t = u @ ''Reply''"
    using assms(5) by (intro exI [of _ "''rr/'' @ s"]) simp
  moreover have "\<exists>u c. type_name t = u @ ''Response'' @ [c]"
    using assms(5) by simp
  ultimately show rep: "is_reply_topic t"
    using assms is_reply_topic_iff [of t] by simp
  show nreq: "\<not> is_request_topic t"
    using assms is_request_topic_iff [of t] by simp
  show "rpc_topic_of_topic t =
      Inr \<lparr>service_name = s,
           request_topic = \<lparr>topic_name = ''rq/'' @ s @ ''Request'', type_name = ty @ ''Request'' @ [c],
                            keyed = k, topic_qos_of = q\<rparr>,
           reply_topic = t\<rparr>"
    using rep nreq assms(1,2)
    unfolding rpc_topic_of_topic_def rpc_words Let_def assms(5) plain_service_name_def
      plain_type_name_def
    by (simp add: match_alt_def regex_replace_skip_all)
qed

section \<open>Properties\<close>



text \<open>
  C24. What the request test really accepts, with the 64-bit sums of the code: the prefix, and for
  the topic name either the suffix \<^verbatim>\<open>Request\<close> or, when the word does not occur, a length of exactly 6,
  and for the type name either \<^verbatim>\<open>Request\<close> before the last character or, when the word does not
  occur, a length of exactly 7. The second alternatives come from \<^verbatim>\<open>npos\<close> wrapping around.
\<close>

theorem is_request_topic_exact:
  assumes "length (topic_name t) < 2 ^ 60" and "length (type_name t) < 2 ^ 60"
  shows "is_request_topic t \<longleftrightarrow>
    is_prefix ''rq/'' (topic_name t) \<and>
    ((\<exists>u. topic_name t = u @ ''Request'')
      \<or> \<not> occurs ''Request'' (topic_name t) \<and> length (topic_name t) = 6) \<and>
    ((\<exists>u c. type_name t = u @ ''Request'' @ [c])
      \<or> \<not> occurs ''Request'' (type_name t) \<and> length (type_name t) = 7)"
  by (rule is_request_topic_iff [OF assms])

theorem is_request_topic_exact_witness:
  "is_request_topic \<lparr>topic_name = ''rq/abc'', type_name = ''Sensors'', keyed = False,
      topic_qos_of = topic_qos_default 1\<rparr>"
  using is_request_topic_exact [of "\<lparr>topic_name = ''rq/abc'', type_name = ''Sensors'', keyed = False,
      topic_qos_of = topic_qos_default 1\<rparr>"]
  by (simp add: is_prefix_def occurs_def)

text \<open>
  Two wildcard filters that differ only in the value of \<^verbatim>\<open>keyed\<close> are equal for the code, because
  the comparison goes through a printed form that does not contain that value, although there are
  topics that one of them matches and the other does not.
\<close>

lemma keyed_filters_confused:
  assumes "f = \<lparr>filter_topic_name = n, filter_type_name = ty, filter_keyed = Some True\<rparr>"
    and "g = \<lparr>filter_topic_name = n, filter_type_name = ty, filter_keyed = Some False\<rparr>"
    and "mp n n" and "\<forall>p. ty = Some p \<longrightarrow> mp p p"
  shows "dds_filter_topic_eq wrap f g \<and>
    (\<exists>t. wildcard_matches mp f t \<and> \<not> wildcard_matches mp g t)"
proof
  show "dds_filter_topic_eq wrap f g"
    using assms by (simp add: dds_filter_topic_eq_def wildcard_serialize_def)
  let ?t = "\<lparr>topic_name = n, type_name = (case ty of Some p \<Rightarrow> p | None \<Rightarrow> []), keyed = True,
      topic_qos_of = topic_qos_default 1\<rparr>"
  show "\<exists>t. wildcard_matches mp f t \<and> \<not> wildcard_matches mp g t"
    using assms by (intro exI [of _ ?t]) (auto simp: wildcard_matches_def split: option.splits)
qed

lemma keyed_filters_confused_witness:
  "dds_filter_topic_eq (\<lambda>s. s)
     \<lparr>filter_topic_name = ''a'', filter_type_name = None, filter_keyed = Some True\<rparr>
     \<lparr>filter_topic_name = ''a'', filter_type_name = None, filter_keyed = Some False\<rparr>"
  using keyed_filters_confused [OF refl refl, of "\<lambda>p s. p = s" "''a''" None "\<lambda>s. s"] by simp

end
