(* ===== verification/Endpoints.thy ===== *)
theory Endpoints
  imports Topics
begin

text \<open>
  Discovered endpoints (\<^verbatim>\<open>types/endpoint/Endpoint\<close>): the record, its classification as reader,
  writer and service server, and the two copy operations of the class. The copy constructor copies
  every member; the assignment operator written in the source copies all members but the specific
  quality of service.
\<close>

datatype endpoint_kind = EK_invalid | EK_writer | EK_reader

record endpoint =
  ep_kind :: endpoint_kind
  ep_guid :: guid
  ep_topic :: dds_topic
  ep_active :: bool
  discoverer_participant_id :: participant_id
  ep_specific_qos :: specific_endpoint_qos

definition endpoint_of ::
    "endpoint_kind \<Rightarrow> guid \<Rightarrow> dds_topic \<Rightarrow> participant_id \<Rightarrow> specific_endpoint_qos \<Rightarrow> endpoint" where
  "endpoint_of k g t p q =
     \<lparr>ep_kind = k, ep_guid = g, ep_topic = t, ep_active = True,
      discoverer_participant_id = p, ep_specific_qos = q\<rparr>"

definition endpoint_topic_qos :: "endpoint \<Rightarrow> topic_qos" where
  "endpoint_topic_qos e = topic_qos_of (ep_topic e)"

definition endpoint_set_specific_qos :: "specific_endpoint_qos \<Rightarrow> endpoint \<Rightarrow> endpoint" where
  "endpoint_set_specific_qos q e = e\<lparr>ep_specific_qos := q\<rparr>"

definition endpoint_set_active :: "bool \<Rightarrow> endpoint \<Rightarrow> endpoint" where
  "endpoint_set_active status e = e\<lparr>ep_active := status\<rparr>"

definition endpoint_is_valid :: "endpoint \<Rightarrow> bool" where
  "endpoint_is_valid e \<longleftrightarrow> ep_kind e \<noteq> EK_invalid"

definition endpoint_is_writer :: "endpoint \<Rightarrow> bool" where
  "endpoint_is_writer e \<longleftrightarrow> ep_kind e = EK_writer"

definition endpoint_is_reader :: "endpoint \<Rightarrow> bool" where
  "endpoint_is_reader e \<longleftrightarrow> ep_kind e = EK_reader"

definition endpoint_is_server_endpoint :: "endpoint \<Rightarrow> bool" where
  "endpoint_is_server_endpoint e \<longleftrightarrow>
     (endpoint_is_reader e \<and> is_request_topic (ep_topic e)) \<or>
     (endpoint_is_writer e \<and> is_reply_topic (ep_topic e))"

definition endpoint_assign :: "endpoint \<Rightarrow> endpoint \<Rightarrow> endpoint" where
  "endpoint_assign this other =
     this\<lparr>ep_guid := ep_guid other, ep_active := ep_active other, ep_kind := ep_kind other,
          ep_topic := ep_topic other,
          discoverer_participant_id := discoverer_participant_id other\<rparr>"

definition endpoint_eq :: "endpoint \<Rightarrow> endpoint \<Rightarrow> bool" where
  "endpoint_eq e other \<longleftrightarrow>
     ep_guid e = ep_guid other \<and> ep_kind e = ep_kind other \<and> dds_topic_eq (ep_topic e) (ep_topic other)"

section \<open>Lemmas\<close>

lemma endpoint_assign_simps [simp]:
  "ep_guid (endpoint_assign this other) = ep_guid other"
  "ep_topic (endpoint_assign this other) = ep_topic other"
  "ep_kind (endpoint_assign this other) = ep_kind other"
  "ep_active (endpoint_assign this other) = ep_active other"
  "discoverer_participant_id (endpoint_assign this other) = discoverer_participant_id other"
  "ep_specific_qos (endpoint_assign this other) = ep_specific_qos this"
  by (simp_all add: endpoint_assign_def)

lemma endpoint_assign_same_qos:
  "ep_specific_qos this = ep_specific_qos other \<Longrightarrow> endpoint_assign this other = (other :: endpoint)"
  by (cases this; cases other) (simp add: endpoint_assign_def)

lemma endpoint_assign_eq_iff:
  "endpoint_assign this other = (other :: endpoint) \<longleftrightarrow> ep_specific_qos this = ep_specific_qos other"
  by (metis endpoint_assign_simps(6) endpoint_assign_same_qos)

lemma endpoint_eq_assign [simp]: "endpoint_eq (endpoint_assign this other) other"
  by (simp add: endpoint_eq_def dds_topic_eq_def)

end
