(* ===== verification/Transition.thy ===== *)
theory Transition
  imports Prelude
begin

text \<open>
  Transition systems shared by the concurrent components: the states reachable from an initial
  predicate by a step relation, and the invariant rule as a locale. The discovery database, the
  track and the payload release are modelled as such systems, one step per atomic access of a
  thread to the shared state.
\<close>

inductive reachable :: "('s \<Rightarrow> bool) \<Rightarrow> ('s \<Rightarrow> 's \<Rightarrow> bool) \<Rightarrow> 's \<Rightarrow> bool"
  for start :: "'s \<Rightarrow> bool" and step :: "'s \<Rightarrow> 's \<Rightarrow> bool" where
  reach_init: "start s \<Longrightarrow> reachable start step s"
| reach_step: "reachable start step s \<Longrightarrow> step s s' \<Longrightarrow> reachable start step s'"

inductive steps :: "('s \<Rightarrow> 's \<Rightarrow> bool) \<Rightarrow> 's \<Rightarrow> 's \<Rightarrow> bool" for step :: "'s \<Rightarrow> 's \<Rightarrow> bool" where
  steps_refl: "steps step s s"
| steps_next: "steps step s t \<Longrightarrow> step t u \<Longrightarrow> steps step s u"

locale invariant_system =
  fixes start :: "'s \<Rightarrow> bool"
    and step :: "'s \<Rightarrow> 's \<Rightarrow> bool"
    and inv :: "'s \<Rightarrow> bool"
  assumes inv_start: "start s \<Longrightarrow> inv s"
    and inv_step: "inv s \<Longrightarrow> step s s' \<Longrightarrow> inv s'"
begin

lemma reachable_inv: "reachable start step s \<Longrightarrow> inv s"
  by (induction rule: reachable.induct) (auto intro: inv_start inv_step)

lemma steps_inv: "steps step s t \<Longrightarrow> inv s \<Longrightarrow> inv t"
  by (induction rule: steps.induct) (auto intro: inv_step)

end

lemma reachable_steps: "steps step s t \<Longrightarrow> reachable start step s \<Longrightarrow> reachable start step t"
  by (induction rule: steps.induct) (auto intro: reach_step)

lemma steps_trans: "steps step t u \<Longrightarrow> steps step s t \<Longrightarrow> steps step s u"
  by (induction rule: steps.induct) (auto intro: steps_next)

lemma steps_one: "step s t \<Longrightarrow> steps step s t"
  by (rule steps_next [OF steps_refl])

lemma steps_preserve:
  "steps step s t \<Longrightarrow> P s \<Longrightarrow> (\<And>a b. P a \<Longrightarrow> step a b \<Longrightarrow> P b) \<Longrightarrow> P t"
  by (induction rule: steps.induct) auto

end
