(* ===== verification/Payload_Pool.thy ===== *)
theory Payload_Pool
  imports Dds_Types Transition
begin

text \<open>
  The payload pools (\<^verbatim>\<open>efficiency/payload\<close>). A block of memory carries its reference counter and
  its bytes; the addresses \<^verbatim>\<open>malloc\<close> returns are an argument of the reservation. The fast pool
  keeps the counter in front of the bytes, the map pool in a map, the copy pool never shares. The
  contract the router relies on, that a payload is freed exactly when the last of its holders
  releases it, is the locale \<open>payload_pool\<close>, which both sharing pools satisfy. The memory of the
  copy and map pools is managed by Fast DDS (\<^verbatim>\<open>SerializedPayload_t::reserve\<close> and
  \<^verbatim>\<open>empty\<close>), a parameter there.
\<close>

section \<open>State\<close>

record block =
  block_refs :: "32 word"
  block_bytes :: "octet list"

type_synonym heap = "addr \<rightharpoonup> block"

record pool_counters =
  reserve_count :: "64 word"
  release_count :: "64 word"

record fast_pool = pool_counters +
  fast_heap :: heap

definition fast_pool_new :: fast_pool where
  "fast_pool_new = \<lparr>reserve_count = 0, release_count = 0, fast_heap = Map.empty\<rparr>"

definition pool_is_clean :: "'x pool_counters_scheme \<Rightarrow> bool" where
  "pool_is_clean p \<longleftrightarrow> reserve_count p = release_count p"

definition add_reserved_payload :: "'x pool_counters_scheme \<Rightarrow> 'x pool_counters_scheme" where
  "add_reserved_payload p = p\<lparr>reserve_count := reserve_count p + 1\<rparr>"

definition add_release_payload :: "'x pool_counters_scheme \<Rightarrow> 'x pool_counters_scheme result" where
  "add_release_payload p =
     (let p' = p\<lparr>release_count := release_count p + 1\<rparr>
      in if release_count p' > reserve_count p' then Inl InconsistencyException else Inr p')"

definition payload_clear :: "payload \<Rightarrow> payload" where
  "payload_clear t =
     t\<lparr>payload_length := 0, payload_max_size := 0, payload_data := None, payload_pos := 0\<rparr>"

section \<open>The fast pool\<close>

text \<open>
  \<open>mem\<close> is what \<^verbatim>\<open>malloc\<close> returns, an address with the bytes found there, or null, which
  the code dereferences unchecked.
\<close>

type_synonym malloc_result = "(addr \<times> octet list) option"

definition fast_reserve ::
    "malloc_result \<Rightarrow> 32 word \<Rightarrow> fast_pool \<Rightarrow> payload \<Rightarrow> (bool \<times> fast_pool \<times> payload) result" where
  "fast_reserve mem sz p t =
     (if sz = 0 then Inr (False, p, t)
      else case mem of
        None \<Rightarrow> Inl InvalidMemoryAccess
      | Some (a, junk) \<Rightarrow>
          Inr (True,
               add_reserved_payload
                 (p\<lparr>fast_heap := (fast_heap p)(a \<mapsto> \<lparr>block_refs = 1, block_bytes = junk\<rparr>)\<rparr>),
               t\<lparr>payload_data := Some a, payload_max_size := sz\<rparr>))"

definition fast_get_payload ::
    "malloc_result \<Rightarrow> 32 word \<Rightarrow> fast_pool \<Rightarrow> payload \<Rightarrow> (bool \<times> fast_pool \<times> payload) result" where
  "fast_get_payload mem sz p t =
     rbind (fast_reserve mem sz p t) (\<lambda>(ok, p', t'). if \<not> ok then Inr (False, p', t') else Inr (True, p', t'))"

definition write_bytes :: "octet list \<Rightarrow> octet list \<Rightarrow> octet list" where
  "write_bytes src dst = src @ drop (length src) dst"

text \<open>
  The overload that moves a payload into the pool. \<open>own\<close> says whether \<^verbatim>\<open>data_owner\<close> is this
  pool, \<open>src_bytes\<close> are the first \<^verbatim>\<open>length\<close> bytes behind a foreign source.
\<close>

definition fast_get_payload_from ::
    "malloc_result \<Rightarrow> payload \<Rightarrow> octet list \<Rightarrow> bool \<Rightarrow> fast_pool \<Rightarrow> payload \<Rightarrow>
     (bool \<times> fast_pool \<times> payload) result" where
  "fast_get_payload_from mem src src_bytes own p t =
     (if \<not> own then
        rbind (fast_get_payload mem (payload_max_size src) p t) (\<lambda>(ok, p', t').
          if \<not> ok then Inr (False, p', t')
          else case payload_data t' of
              None \<Rightarrow> Inl InvalidMemoryAccess
            | Some a \<Rightarrow>
               (case fast_heap p' a of
                  None \<Rightarrow> Inl InvalidMemoryAccess
                | Some b \<Rightarrow>
                    Inr (True,
                         p'\<lparr>fast_heap := (fast_heap p')
                             (a \<mapsto> b\<lparr>block_bytes := write_bytes src_bytes (block_bytes b)\<rparr>)\<rparr>,
                         t'\<lparr>payload_length := payload_length src\<rparr>)))
      else case payload_data src of
          None \<Rightarrow> Inl InvalidMemoryAccess
        | Some a \<Rightarrow>
           (case fast_heap p a of
              None \<Rightarrow> Inl InvalidMemoryAccess
            | Some b \<Rightarrow>
                Inr (True,
                     p\<lparr>fast_heap := (fast_heap p)(a \<mapsto> b\<lparr>block_refs := block_refs b + 1\<rparr>)\<rparr>,
                     t\<lparr>payload_data := payload_data src, payload_length := payload_length src,
                       payload_max_size := payload_max_size src\<rparr>)))"

definition fast_release :: "fast_pool \<Rightarrow> payload \<Rightarrow> (bool \<times> fast_pool \<times> payload) result" where
  "fast_release p t =
     (case payload_data t of
        None \<Rightarrow> Inl InvalidMemoryAccess
      | Some a \<Rightarrow>
          rbind (add_release_payload (p\<lparr>fast_heap := (fast_heap p)(a := None)\<rparr>))
            (\<lambda>p'. Inr (True, p', payload_clear t)))"

definition fast_release_payload :: "fast_pool \<Rightarrow> payload \<Rightarrow> (bool \<times> fast_pool \<times> payload) result" where
  "fast_release_payload p t =
     (case payload_data t of
        None \<Rightarrow> Inl InvalidMemoryAccess
      | Some a \<Rightarrow>
         (case fast_heap p a of
            None \<Rightarrow> Inl InvalidMemoryAccess
          | Some b \<Rightarrow>
             (let n = block_refs b - 1;
                  p1 = p\<lparr>fast_heap := (fast_heap p)(a \<mapsto> b\<lparr>block_refs := n\<rparr>)\<rparr>
              in rbind (if n = 0 then fast_release p1 t else Inr (True, p1, t))
                   (\<lambda>(_, p2, t2). Inr (True, p2, payload_clear t2)))))"

section \<open>The map pool and the copy pool\<close>

text \<open>
  \<open>reserve_fn\<close> and \<open>empty_fn\<close> stand for \<^verbatim>\<open>SerializedPayload_t::reserve\<close> and
  \<^verbatim>\<open>SerializedPayload_t::empty\<close> acting on the payload and on the memory \<open>'m\<close>;
  \<open>copy_fn\<close> is \<^verbatim>\<open>memcpy\<close> into the block the payload points to.
\<close>

record 'm payload_memory =
  reserve_fn :: "32 word \<Rightarrow> payload \<times> 'm \<Rightarrow> payload \<times> 'm"
  empty_fn :: "payload \<times> 'm \<Rightarrow> payload \<times> 'm"
  copy_fn :: "payload \<Rightarrow> payload \<Rightarrow> 'm \<Rightarrow> 'm"

record 'm memory_pool = pool_counters +
  pool_memory :: 'm

record 'm map_pool = "'m memory_pool" +
  reserved_payloads :: "(addr, 32 word) smap"

definition pool_reserve ::
    "'m payload_memory \<Rightarrow> 32 word \<Rightarrow> ('m, 'x) memory_pool_scheme \<Rightarrow> payload \<Rightarrow>
     bool \<times> ('m, 'x) memory_pool_scheme \<times> payload" where
  "pool_reserve M sz p t =
     (if sz = 0 then (False, p, t)
      else let (t', m') = reserve_fn M sz (t, pool_memory p)
           in (True, add_reserved_payload (p\<lparr>pool_memory := m'\<rparr>), t'))"

definition pool_release ::
    "'m payload_memory \<Rightarrow> ('m, 'x) memory_pool_scheme \<Rightarrow> payload \<Rightarrow>
     (bool \<times> ('m, 'x) memory_pool_scheme \<times> payload) result" where
  "pool_release M p t =
     (let (t', m') = empty_fn M (t, pool_memory p); p' = p\<lparr>pool_memory := m'\<rparr>
      in if payload_data t' \<noteq> None then Inr (False, p', t')
         else rbind (add_release_payload p') (\<lambda>p''. Inr (True, p'', t')))"

definition copy_get_payload ::
    "'m payload_memory \<Rightarrow> 32 word \<Rightarrow> 'm memory_pool \<Rightarrow> payload \<Rightarrow> bool \<times> 'm memory_pool \<times> payload" where
  "copy_get_payload M sz p t =
     (let (_, p', t') = pool_reserve M sz p t in (True, p', t'\<lparr>payload_max_size := sz\<rparr>))"

definition copy_get_payload_from ::
    "'m payload_memory \<Rightarrow> payload \<Rightarrow> 'm memory_pool \<Rightarrow> payload \<Rightarrow> bool \<times> 'm memory_pool \<times> payload" where
  "copy_get_payload_from M src p t =
     (let (ok, p', t') = copy_get_payload M (payload_max_size src) p t
      in if \<not> ok then (False, p', t')
         else (True, p'\<lparr>pool_memory := copy_fn M src t' (pool_memory p')\<rparr>,
               t'\<lparr>payload_length := payload_length src, payload_max_size := payload_max_size src\<rparr>))"

definition copy_release_payload ::
    "'m payload_memory \<Rightarrow> 'm memory_pool \<Rightarrow> payload \<Rightarrow> (bool \<times> 'm memory_pool \<times> payload) result" where
  "copy_release_payload M p t = pool_release M p t"

definition map_get_payload ::
    "'m payload_memory \<Rightarrow> 32 word \<Rightarrow> 'm map_pool \<Rightarrow> payload \<Rightarrow> (bool \<times> 'm map_pool \<times> payload) result" where
  "map_get_payload M sz p t =
     (let (ok, p', t') = pool_reserve M sz p t
      in if \<not> ok then Inr (False, p', t')
         else case payload_data t' of
             None \<Rightarrow> Inl InvalidMemoryAccess
           | Some a \<Rightarrow>
               Inr (True, p'\<lparr>reserved_payloads := smap_set id a 1 (reserved_payloads p')\<rparr>,
                    t'\<lparr>payload_max_size := sz\<rparr>))"

definition map_get_payload_from ::
    "'m payload_memory \<Rightarrow> payload \<Rightarrow> bool \<Rightarrow> 'm map_pool \<Rightarrow> payload \<Rightarrow>
     (bool \<times> 'm map_pool \<times> payload) result" where
  "map_get_payload_from M src own p t =
     (if \<not> own then
        rbind (map_get_payload M (payload_max_size src) p t) (\<lambda>(ok, p', t').
          if \<not> ok then Inr (False, p', t')
          else Inr (True, p'\<lparr>pool_memory := copy_fn M src t' (pool_memory p')\<rparr>,
                    t'\<lparr>payload_length := payload_length src\<rparr>))
      else case Option.bind (payload_data src) (\<lambda>a. smap_find id a (reserved_payloads p)) of
          None \<Rightarrow> Inl InconsistencyException
        | Some n \<Rightarrow>
            Inr (True,
                 p\<lparr>reserved_payloads := smap_set id (the (payload_data src)) (n + 1) (reserved_payloads p)\<rparr>,
                 t\<lparr>payload_data := payload_data src, payload_length := payload_length src,
                   payload_max_size := payload_max_size src\<rparr>))"

definition map_release_payload ::
    "'m payload_memory \<Rightarrow> 'm map_pool \<Rightarrow> payload \<Rightarrow> (bool \<times> 'm map_pool \<times> payload) result" where
  "map_release_payload M p t =
     (case Option.bind (payload_data t) (\<lambda>a. smap_find id a (reserved_payloads p)) of
        None \<Rightarrow> Inl InconsistencyException
      | Some n \<Rightarrow>
         (let a = the (payload_data t);
              p1 = p\<lparr>reserved_payloads := smap_set id a (n - 1) (reserved_payloads p)\<rparr>
          in if n - 1 = 0 then
               rbind (pool_release M p1 t) (\<lambda>(ok, p2, t2).
                 if \<not> ok then Inr (False, p2, t2)
                 else Inr (True, p2\<lparr>reserved_payloads := smap_erase id a (reserved_payloads p2)\<rparr>,
                           payload_clear t2))
             else Inr (True, p1, payload_clear t)))"

section \<open>Cache changes\<close>

text \<open>
  The three functions Fast DDS calls with a cache change, for a pool given by its payload functions.
  \<open>cc_owner\<close> is the owner pointer of the change, \<open>this\<close> the identity of the pool.
\<close>

record cache_change =
  cc_payload :: payload
  cc_owner :: "nat option"

definition change_get_payload ::
    "nat \<Rightarrow> ('p \<Rightarrow> payload \<Rightarrow> (bool \<times> 'p \<times> payload) result) \<Rightarrow> 'p \<Rightarrow> cache_change \<Rightarrow>
     (bool \<times> 'p \<times> cache_change) result" where
  "change_get_payload this get p c =
     rbind (get p (cc_payload c)) (\<lambda>(ok, p', t').
       if ok then Inr (True, p', c\<lparr>cc_payload := t', cc_owner := Some this\<rparr>)
       else Inr (False, p', c\<lparr>cc_payload := t'\<rparr>))"

definition change_release_payload ::
    "nat \<Rightarrow> ('p \<Rightarrow> payload \<Rightarrow> (bool \<times> 'p \<times> payload) result) \<Rightarrow> 'p \<Rightarrow> cache_change \<Rightarrow>
     (bool \<times> 'p \<times> cache_change) result" where
  "change_release_payload this release p c =
     (if cc_owner c = Some this then
        rbind (release p (cc_payload c)) (\<lambda>(ok, p', t').
          if ok then Inr (True, p', c\<lparr>cc_payload := t', cc_owner := None\<rparr>)
          else Inr (False, p', c\<lparr>cc_payload := t'\<rparr>))
      else Inl InconsistencyException)"

section \<open>Concurrent releases of the fast pool\<close>

text \<open>
  \<^verbatim>\<open>release_payload\<close> of the fast pool decrements the atomic counter and reads it again in a
  second atomic access. The steps of the threads that hold the payload, each releasing once:
\<close>

datatype release_pc = Rel_start | Rel_decremented | Rel_free | Rel_end

record release_sys =
  rel_refs :: "32 word"
  rel_freed :: nat
  rel_pcs :: "release_pc list"

inductive release_step :: "release_sys \<Rightarrow> release_sys \<Rightarrow> bool" where
  rel_decrement:
    "i < length (rel_pcs s) \<Longrightarrow> rel_pcs s ! i = Rel_start \<Longrightarrow>
     release_step s (s\<lparr>rel_refs := rel_refs s - 1, rel_pcs := (rel_pcs s)[i := Rel_decremented]\<rparr>)"
| rel_reread:
    "i < length (rel_pcs s) \<Longrightarrow> rel_pcs s ! i = Rel_decremented \<Longrightarrow>
     release_step s (s\<lparr>rel_pcs := (rel_pcs s)[i := (if rel_refs s = 0 then Rel_free else Rel_end)]\<rparr>)"
| rel_do_free:
    "i < length (rel_pcs s) \<Longrightarrow> rel_pcs s ! i = Rel_free \<Longrightarrow>
     release_step s (s\<lparr>rel_freed := rel_freed s + 1, rel_pcs := (rel_pcs s)[i := Rel_end]\<rparr>)"

definition release_start :: "nat \<Rightarrow> release_sys \<Rightarrow> bool" where
  "release_start n s \<longleftrightarrow> s = \<lparr>rel_refs = of_nat n, rel_freed = 0, rel_pcs = replicate n Rel_start\<rparr>"

section \<open>The contract of a reference-counting pool\<close>

datatype pool_op = PO_share | PO_release

text \<open>
  A run of the holders of one payload: \<open>src\<close> is the payload every holder has a copy of. Each
  operation has to succeed.
\<close>

fun pool_run ::
    "(payload \<Rightarrow> 'p \<Rightarrow> payload \<Rightarrow> (bool \<times> 'p \<times> payload) result) \<Rightarrow>
     ('p \<Rightarrow> payload \<Rightarrow> (bool \<times> 'p \<times> payload) result) \<Rightarrow> payload \<Rightarrow> pool_op list \<Rightarrow> 'p \<Rightarrow> 'p option" where
  "pool_run share release src [] p = Some p"
| "pool_run share release src (PO_share # ops) p =
     (case share src p src of Inr (True, p', _) \<Rightarrow> pool_run share release src ops p' | _ \<Rightarrow> None)"
| "pool_run share release src (PO_release # ops) p =
     (case release p src of Inr (True, p', _) \<Rightarrow> pool_run share release src ops p' | _ \<Rightarrow> None)"

text \<open>The number of holders after a run; \<open>None\<close> when somebody releases or shares what nobody holds,
  or the counter would overflow.\<close>

fun holders_run :: "pool_op list \<Rightarrow> nat \<Rightarrow> nat option" where
  "holders_run [] n = Some n"
| "holders_run (PO_share # ops) n = (if 0 < n \<and> n < 2 ^ 32 - 1 then holders_run ops (n + 1) else None)"
| "holders_run (PO_release # ops) n = (if 0 < n then holders_run ops (n - 1) else None)"

locale payload_pool =
  fixes ok :: "'p \<Rightarrow> bool"
    and refs :: "'p \<Rightarrow> addr \<Rightarrow> nat"
    and clean :: "'p \<Rightarrow> bool"
    and share :: "payload \<Rightarrow> 'p \<Rightarrow> payload \<Rightarrow> (bool \<times> 'p \<times> payload) result"
    and release :: "'p \<Rightarrow> payload \<Rightarrow> (bool \<times> 'p \<times> payload) result"
  assumes share_law:
      "ok p \<Longrightarrow> payload_data s = Some a \<Longrightarrow> 0 < refs p a \<Longrightarrow> refs p a < 2 ^ 32 - 1 \<Longrightarrow>
       \<exists>p' t'. share s p t = Inr (True, p', t') \<and> payload_data t' = Some a \<and>
         refs p' = (refs p)(a := refs p a + 1) \<and> ok p'"
    and release_law:
      "ok p \<Longrightarrow> payload_data s = Some a \<Longrightarrow> 0 < refs p a \<Longrightarrow>
       \<exists>p' s'. release p s = Inr (True, p', s') \<and> payload_data s' = None \<and>
         refs p' = (refs p)(a := refs p a - 1) \<and> ok p'"
    and clean_law: "ok p \<Longrightarrow> clean p \<longleftrightarrow> (\<forall>a. refs p a = 0)"
begin

lemma pool_run_counts:
  assumes "ok p" and "payload_data s = Some a" and "holders_run ops (refs p a) = Some n"
  shows "\<exists>p'. pool_run share release s ops p = Some p' \<and> ok p' \<and> refs p' = (refs p)(a := n)"
  using assms
proof (induction ops arbitrary: p)
  case Nil
  then show ?case by auto
next
  case (Cons opn ops)
  show ?case
  proof (cases opn)
    case PO_share
    with Cons.prems have pos: "0 < refs p a" "refs p a < 2 ^ 32 - 1"
      and run: "holders_run ops (refs p a + 1) = Some n" by (auto split: if_splits)
    obtain p' t' where p': "share s p s = Inr (True, p', t')"
      "refs p' = (refs p)(a := refs p a + 1)" "ok p'"
      using share_law [OF Cons.prems(1,2) pos, of s] by blast
    with run Cons.IH [of p'] Cons.prems(2) PO_share show ?thesis by (auto simp: fun_eq_iff)
  next
    case PO_release
    with Cons.prems have pos: "0 < refs p a"
      and run: "holders_run ops (refs p a - 1) = Some n" by (auto split: if_splits)
    obtain p' t' where p': "release p s = Inr (True, p', t')"
      "refs p' = (refs p)(a := refs p a - 1)" "ok p'"
      using release_law [OF Cons.prems(1,2) pos] by blast
    with run Cons.IH [of p'] Cons.prems(2) PO_release show ?thesis by (auto simp: fun_eq_iff)
  qed
qed

lemma pool_run_last_release_cleans:
  assumes "ok p" and "payload_data s = Some a" and "\<And>b. b \<noteq> a \<Longrightarrow> refs p b = 0"
    and "holders_run ops (refs p a) = Some n"
  shows "\<exists>p'. pool_run share release s ops p = Some p' \<and> (clean p' \<longleftrightarrow> n = 0)"
proof -
  from pool_run_counts [OF assms(1,2,4)] obtain p' where
    "pool_run share release s ops p = Some p'" "ok p'" "refs p' = (refs p)(a := n)" by blast
  with clean_law [of p'] assms(3) show ?thesis by auto
qed

end

section \<open>The fast pool meets the contract\<close>

definition fast_refs :: "fast_pool \<Rightarrow> addr \<Rightarrow> nat" where
  "fast_refs p a = (case fast_heap p a of None \<Rightarrow> 0 | Some b \<Rightarrow> unat (block_refs b))"

definition fast_ok :: "fast_pool \<Rightarrow> bool" where
  "fast_ok p \<longleftrightarrow> finite (dom (fast_heap p)) \<and> (\<forall>b\<in>ran (fast_heap p). block_refs b \<noteq> 0) \<and>
     unat (reserve_count p) = unat (release_count p) + card (dom (fast_heap p))"

lemma fast_refs_pos_iff: "0 < fast_refs p a \<Longrightarrow> \<exists>b. fast_heap p a = Some b \<and> fast_refs p a = unat (block_refs b)"
  by (auto simp: fast_refs_def split: option.splits)

lemma unat_inc: "unat (w :: 32 word) < 2 ^ 32 - 1 \<Longrightarrow> unat (w + 1) = unat w + 1"
  by (simp add: unat_word_ariths)

lemma unat_dec: "w \<noteq> 0 \<Longrightarrow> unat ((w :: 'a :: len word) - 1) = unat w - 1"
  by (simp add: unat_minus_one)

lemma unat_inc64: "unat (w :: 64 word) < unat (v :: 64 word) \<Longrightarrow> unat (w + 1) = unat w + 1"
proof -
  assume "unat w < unat v"
  moreover have "unat v < 2 ^ 64" using unsigned_less [of v, where 'a = nat] by simp
  ultimately show ?thesis by (simp add: unat_word_ariths)
qed

lemma fast_share_law:
  assumes "fast_ok p" and "payload_data s = Some a" and "0 < fast_refs p a"
    and "fast_refs p a < 2 ^ 32 - 1"
  shows "\<exists>p' t'. fast_get_payload_from mem s bytes True p t = Inr (True, p', t') \<and>
     payload_data t' = Some a \<and> fast_refs p' = (fast_refs p)(a := fast_refs p a + 1) \<and> fast_ok p'"
proof -
  obtain b where b: "fast_heap p a = Some b" "fast_refs p a = unat (block_refs b)"
    using fast_refs_pos_iff [OF assms(3)] by blast
  have inc: "unat (block_refs b + 1) = unat (block_refs b) + 1"
    using unat_inc assms(4) b(2) by simp
  then have "block_refs b + 1 \<noteq> 0" by (metis add_is_0 one_neq_zero unat_0)
  let ?p = "p\<lparr>fast_heap := (fast_heap p)(a \<mapsto> b\<lparr>block_refs := block_refs b + 1\<rparr>)\<rparr>"
  have "fast_ok ?p"
    using assms(1) b(1) \<open>block_refs b + 1 \<noteq> 0\<close>
    by (auto simp: fast_ok_def ran_def insert_absorb domIff)
  moreover have "fast_refs ?p = (fast_refs p)(a := fast_refs p a + 1)"
    using inc b by (auto simp: fast_refs_def fun_eq_iff)
  ultimately show ?thesis
    using b assms(2) by (simp add: fast_get_payload_from_def)
qed

lemma fast_release_law:
  assumes "fast_ok p" and "payload_data s = Some a" and "0 < fast_refs p a"
  shows "\<exists>p' s'. fast_release_payload p s = Inr (True, p', s') \<and> payload_data s' = None \<and>
     fast_refs p' = (fast_refs p)(a := fast_refs p a - 1) \<and> fast_ok p'"
proof -
  obtain b where b: "fast_heap p a = Some b" "fast_refs p a = unat (block_refs b)"
    using fast_refs_pos_iff [OF assms(3)] by blast
  with assms(3) have "block_refs b \<noteq> 0" by (metis less_irrefl unat_0)
  note dec = unat_dec [OF this]
  show ?thesis
  proof (cases "block_refs b - 1 = 0")
    case True
    have fin: "finite (dom (fast_heap p))" using assms(1) by (simp add: fast_ok_def)
    have "a \<in> dom (fast_heap p)" using b by auto
    then have "card (dom (fast_heap p)) \<noteq> 0" using fin by auto
    then have "unat (release_count p) < unat (reserve_count p)" using assms(1) by (simp add: fast_ok_def)
    note inc = unat_inc64 [OF this]
    have cnt: "card (dom (fast_heap p)) = Suc (card (dom (fast_heap p) - {a}))"
      by (rule card.remove [OF fin \<open>a \<in> dom (fast_heap p)\<close>])
    have dom: "dom ((fast_heap p)(a := None)) = dom (fast_heap p) - {a}" by auto
    let ?p = "p\<lparr>fast_heap := (fast_heap p)(a := None), release_count := release_count p + 1\<rparr>"
    have bal: "unat (reserve_count p) = unat (release_count p) + card (dom (fast_heap p))"
      using assms(1) by (simp add: fast_ok_def)
    then have "\<not> reserve_count p < release_count p + 1"
      unfolding word_less_nat_alt inc using cnt by linarith
    then have run: "fast_release_payload p s = Inr (True, ?p, payload_clear (payload_clear s))"
      using True b assms(2)
      by (simp add: fast_release_payload_def fast_release_def add_release_payload_def Let_def)
    have "\<forall>b\<in>ran (fast_heap ?p). block_refs b \<noteq> 0"
      using assms(1) by (auto simp: fast_ok_def ran_def)
    then have "fast_ok ?p"
      using inc cnt dom fin bal by (simp add: fast_ok_def)
    moreover have "fast_refs ?p = (fast_refs p)(a := fast_refs p a - 1)"
      using dec True b by (auto simp: fast_refs_def fun_eq_iff)
    ultimately show ?thesis using run by (auto simp: payload_clear_def)
  next
    case False
    let ?p = "p\<lparr>fast_heap := (fast_heap p)(a \<mapsto> b\<lparr>block_refs := block_refs b - 1\<rparr>)\<rparr>"
    have "fast_release_payload p s = Inr (True, ?p, payload_clear s)"
      using False b assms(2) by (simp add: fast_release_payload_def Let_def)
    moreover have "fast_ok ?p"
      using assms(1) b(1) False by (auto simp: fast_ok_def ran_def insert_absorb domIff)
    moreover have "fast_refs ?p = (fast_refs p)(a := fast_refs p a - 1)"
      using dec b by (auto simp: fast_refs_def fun_eq_iff)
    ultimately show ?thesis by (auto simp: payload_clear_def)
  qed
qed

lemma fast_clean_law: "fast_ok p \<Longrightarrow> pool_is_clean p \<longleftrightarrow> (\<forall>a. fast_refs p a = 0)"
proof -
  assume ok: "fast_ok p"
  have "pool_is_clean p \<longleftrightarrow> card (dom (fast_heap p)) = 0"
    using ok by (auto simp: pool_is_clean_def fast_ok_def word_unat_eq_iff)
  also have "\<dots> \<longleftrightarrow> dom (fast_heap p) = {}"
    using ok by (simp add: fast_ok_def)
  also have "\<dots> \<longleftrightarrow> (\<forall>a. fast_refs p a = 0)"
    using ok by (fastforce simp: fast_refs_def fast_ok_def ran_def unat_eq_zero split: option.splits)
  finally show ?thesis .
qed

interpretation fast: payload_pool fast_ok fast_refs pool_is_clean
    "\<lambda>s p t. fast_get_payload_from mem s bytes True p t" fast_release_payload
  for mem bytes
  by unfold_locales (rule fast_share_law fast_release_law fast_clean_law; assumption)+

section \<open>The map pool meets the contract\<close>

text \<open>What the map pool relies on: emptying a payload leaves it with a null pointer.\<close>

definition payload_memory_laws :: "'m payload_memory \<Rightarrow> bool" where
  "payload_memory_laws M \<longleftrightarrow> (\<forall>t m. payload_data (fst (empty_fn M (t, m))) = None)"

definition map_refs :: "'m map_pool \<Rightarrow> addr \<Rightarrow> nat" where
  "map_refs p a = (case smap_find id a (reserved_payloads p) of None \<Rightarrow> 0 | Some n \<Rightarrow> unat n)"

definition map_ok :: "'m payload_memory \<Rightarrow> 'm map_pool \<Rightarrow> bool" where
  "map_ok M p \<longleftrightarrow> payload_memory_laws M \<and> smap_ok id (reserved_payloads p) \<and>
     (\<forall>e\<in>set (reserved_payloads p). snd e \<noteq> 0) \<and>
     unat (reserve_count p) = unat (release_count p) + length (reserved_payloads p)"

lemma map_refs_posE:
  "0 < map_refs p a \<Longrightarrow> \<exists>n. smap_find id a (reserved_payloads p) = Some n \<and> map_refs p a = unat n \<and> n \<noteq> 0"
  by (auto simp: map_refs_def unat_gt_0 split: option.splits)

lemma snd_smap_set: "e \<in> set (smap_set id a v m) \<Longrightarrow> snd e = v \<or> e \<in> set m"
  by (induction m) (auto split: if_splits)

lemma map_share_law:
  assumes "map_ok M p" and "payload_data s = Some a" and "0 < map_refs p a"
    and "map_refs p a < 2 ^ 32 - 1"
  shows "\<exists>p' t'. map_get_payload_from M s True p t = Inr (True, p', t') \<and>
     payload_data t' = Some a \<and> map_refs p' = (map_refs p)(a := map_refs p a + 1) \<and> map_ok M p'"
proof -
  obtain n where n: "smap_find id a (reserved_payloads p) = Some n" "map_refs p a = unat n" "n \<noteq> 0"
    using map_refs_posE [OF assms(3)] by blast
  have inc: "unat (n + 1) = unat n + 1" using unat_inc assms(4) n(2) by simp
  then have "n + 1 \<noteq> 0" by (metis add_is_0 one_neq_zero unat_0)
  let ?p = "p\<lparr>reserved_payloads := smap_set id a (n + 1) (reserved_payloads p)\<rparr>"
  have "map_ok M ?p"
    using assms(1) n(1) \<open>n + 1 \<noteq> 0\<close>
    by (auto simp: map_ok_def length_smap_set dest: snd_smap_set)
  moreover have "map_refs ?p = (map_refs p)(a := map_refs p a + 1)"
    using inc n by (auto simp: map_refs_def fun_eq_iff)
  ultimately show ?thesis
    using n assms(2) by (simp add: map_get_payload_from_def)
qed

lemma length_smap_erase:
  "smap_ok id m \<Longrightarrow> smap_find id a m = Some v \<Longrightarrow> length m = Suc (length (smap_erase id a m))"
proof (induction m)
  case (Cons e m)
  obtain k w where e: "e = (k, w)" by fastforce
  show ?case
  proof (cases "k = a")
    case True
    have "\<forall>x\<in>set m. fst x \<noteq> a"
      using Cons.prems(1) True unfolding e by (auto simp: smap_ok_Cons)
    then have "filter (\<lambda>e. fst e \<noteq> a) m = m" by (simp add: filter_id_conv)
    with True show ?thesis unfolding e by (simp add: smap_erase_def)
  next
    case False
    with Cons show ?thesis unfolding e by (auto simp: smap_erase_def smap_ok_Cons)
  qed
qed simp

lemma smap_erase_set_same: "smap_erase id a (smap_set id a v m) = smap_erase id a m"
  by (induction m) (auto simp: smap_erase_def)

lemma map_release_law:
  assumes "map_ok M p" and "payload_data s = Some a" and "0 < map_refs p a"
  shows "\<exists>p' s'. map_release_payload M p s = Inr (True, p', s') \<and> payload_data s' = None \<and>
     map_refs p' = (map_refs p)(a := map_refs p a - 1) \<and> map_ok M p'"
proof -
  obtain n where n: "smap_find id a (reserved_payloads p) = Some n" "map_refs p a = unat n" "n \<noteq> 0"
    using map_refs_posE [OF assms(3)] by blast
  note dec = unat_dec [OF n(3)]
  from assms(1) have laws: "payload_memory_laws M" and ok: "smap_ok id (reserved_payloads p)"
    and nz: "\<forall>e\<in>set (reserved_payloads p). snd e \<noteq> 0"
    and bal: "unat (reserve_count p) = unat (release_count p) + length (reserved_payloads p)"
    by (auto simp: map_ok_def)
  show ?thesis
  proof (cases "n - 1 = 0")
    case True
    note len = length_smap_erase [OF ok n(1)]
    then have "unat (release_count p) < unat (reserve_count p)" using bal by linarith
    note inc = unat_inc64 [OF this]
    have room: "\<not> reserve_count p < release_count p + 1"
      unfolding word_less_nat_alt inc using bal len by linarith
    let ?p = "p\<lparr>reserved_payloads := smap_erase id a (reserved_payloads p),
                release_count := release_count p + 1,
                pool_memory := snd (empty_fn M (s, pool_memory p))\<rparr>"
    have run: "map_release_payload M p s =
        Inr (True, ?p, payload_clear (fst (empty_fn M (s, pool_memory p))))"
      using True n assms(2) laws room
      by (simp add: map_release_payload_def pool_release_def add_release_payload_def Let_def
          payload_memory_laws_def case_prod_unfold smap_erase_set_same)
    have "map_ok M ?p"
      using laws ok nz bal inc len set_smap_erase [of id a "reserved_payloads p"]
      by (auto simp: map_ok_def)
    moreover have "map_refs ?p = (map_refs p)(a := map_refs p a - 1)"
      using dec True n by (auto simp: map_refs_def fun_eq_iff)
    ultimately show ?thesis using run by (auto simp: payload_clear_def)
  next
    case False
    let ?p = "p\<lparr>reserved_payloads := smap_set id a (n - 1) (reserved_payloads p)\<rparr>"
    have "map_release_payload M p s = Inr (True, ?p, payload_clear s)"
      using False n assms(2) by (simp add: map_release_payload_def Let_def)
    moreover have "map_ok M ?p"
      using laws ok nz bal n(1) False by (auto simp: map_ok_def length_smap_set dest: snd_smap_set)
    moreover have "map_refs ?p = (map_refs p)(a := map_refs p a - 1)"
      using dec n by (auto simp: map_refs_def fun_eq_iff)
    ultimately show ?thesis by (auto simp: payload_clear_def)
  qed
qed

lemma map_clean_law: "map_ok M p \<Longrightarrow> pool_is_clean p \<longleftrightarrow> (\<forall>a. map_refs p a = 0)"
proof -
  assume ok: "map_ok M p"
  have "pool_is_clean p \<longleftrightarrow> reserved_payloads p = []"
    using ok by (auto simp: pool_is_clean_def map_ok_def word_unat_eq_iff)
  moreover have "reserved_payloads p = []" if zero: "\<forall>a. map_refs p a = 0"
  proof (rule ccontr)
    assume "reserved_payloads p \<noteq> []"
    then obtain k w m where m: "reserved_payloads p = (k, w) # m"
      by (cases "reserved_payloads p") auto
    with ok have "w \<noteq> 0" by (simp add: map_ok_def)
    moreover have "map_refs p k = unat w" using m by (simp add: map_refs_def)
    ultimately show False using zero by (simp add: unat_eq_zero)
  qed
  ultimately show ?thesis by (auto simp: map_refs_def)
qed

interpretation mapp: payload_pool "map_ok M" map_refs pool_is_clean
    "\<lambda>s p t. map_get_payload_from M s True p t" "map_release_payload M"
  for M :: "'m payload_memory"
  by unfold_locales (rule map_share_law map_release_law map_clean_law; assumption)+

section \<open>Properties\<close>

text \<open>
  C14. Fast pool: in every sequence of shares and releases by the holders of one payload, with at
  least one holder whenever something is done, every call succeeds and the pool is clean exactly
  when the last holder has released: no payload leaks and none is freed while held.
\<close>

theorem fast_pool_frees_on_last_release:
  assumes "fast_ok p" and "payload_data s = Some a" and "\<forall>b. b \<noteq> a \<longrightarrow> fast_refs p b = 0"
    and "holders_run ops (fast_refs p a) = Some n"
  shows "\<exists>p'. pool_run (\<lambda>s p t. fast_get_payload_from None s [] True p t) fast_release_payload s ops p = Some p' \<and>
    fast_refs p' a = n \<and> (pool_is_clean p' \<longleftrightarrow> n = 0)"
proof -
  obtain p' where p': "pool_run (\<lambda>s p t. fast_get_payload_from None s [] True p t) fast_release_payload s ops p = Some p'"
    "fast_ok p'" "fast_refs p' = (fast_refs p)(a := n)"
    using fast.pool_run_counts [OF assms(1,2,4), of None "[]"] by blast
  with fast_clean_law [of p'] assms(3) show ?thesis by auto
qed

definition sample_fast_pool :: fast_pool where
  "sample_fast_pool =
     \<lparr>reserve_count = 1, release_count = 0, fast_heap = [0 \<mapsto> \<lparr>block_refs = 1, block_bytes = [7]\<rparr>]\<rparr>"

definition sample_payload :: payload where
  "sample_payload = \<lparr>payload_data = Some 0, payload_length = 1, payload_max_size = 1, payload_pos = 0\<rparr>"

theorem fast_pool_frees_on_last_release_witness:
  "\<exists>p'. pool_run (\<lambda>s p t. fast_get_payload_from None s [] True p t) fast_release_payload sample_payload
      [PO_share, PO_release, PO_release] sample_fast_pool = Some p' \<and> pool_is_clean p'"
proof -
  have "fast_ok sample_fast_pool"
    by (auto simp: sample_fast_pool_def fast_ok_def ran_def split: if_splits)
  moreover have "payload_data sample_payload = Some 0" by (simp add: sample_payload_def)
  moreover have "\<forall>b. b \<noteq> 0 \<longrightarrow> fast_refs sample_fast_pool b = 0" "fast_refs sample_fast_pool 0 = 1"
    by (simp_all add: sample_fast_pool_def fast_refs_def)
  moreover have "holders_run [PO_share, PO_release, PO_release] 1 = Some 0" by simp
  ultimately show ?thesis
    using fast_pool_frees_on_last_release [of sample_fast_pool sample_payload 0
      "[PO_share, PO_release, PO_release]" 0] by auto
qed

text \<open>
  Map pool: the same contract, for the pool that keeps the counters in a map and leaves the
  memory to Fast DDS.
\<close>

lemma map_pool_frees_on_last_release:
  assumes "map_ok M p" and "payload_data s = Some a" and "\<forall>b. b \<noteq> a \<longrightarrow> map_refs p b = 0"
    and "holders_run ops (map_refs p a) = Some n"
  shows "\<exists>p'. pool_run (\<lambda>s p t. map_get_payload_from M s True p t) (map_release_payload M) s ops p = Some p' \<and>
    map_refs p' a = n \<and> (pool_is_clean p' \<longleftrightarrow> n = 0)"
proof -
  obtain p' where p': "pool_run (\<lambda>s p t. map_get_payload_from M s True p t) (map_release_payload M) s ops p = Some p'"
    "map_ok M p'" "map_refs p' = (map_refs p)(a := n)"
    using mapp.pool_run_counts [OF assms(1,2,4)] by blast
  with map_clean_law [of M p'] assms(3) show ?thesis by auto
qed

definition sample_memory :: "unit payload_memory" where
  "sample_memory =
     \<lparr>reserve_fn = (\<lambda>n tm. ((fst tm)\<lparr>payload_data := Some 0, payload_max_size := n\<rparr>, ())),
      empty_fn = (\<lambda>tm. (payload_clear (fst tm), ())), copy_fn = (\<lambda>s t m. m)\<rparr>"

definition sample_map_pool :: "unit map_pool" where
  "sample_map_pool =
     \<lparr>reserve_count = 1, release_count = 0, pool_memory = (), reserved_payloads = [(0, 1)]\<rparr>"

text \<open>
  C15. Two threads that release the last two references of a fast pool payload at the same time can
  both free it: the counter is decremented in one atomic access and read again in another.
\<close>

theorem fast_pool_double_free_reachable:
  "\<exists>s. reachable (release_start 2) release_step s \<and> rel_freed s = 2"
proof -
  let ?s0 = "\<lparr>rel_refs = 2, rel_freed = 0, rel_pcs = [Rel_start, Rel_start]\<rparr>"
  have "release_start 2 ?s0" by (simp add: release_start_def numeral_2_eq_2)
  note r0 = reach_init [of "release_start 2" ?s0 release_step, OF this]
  note r1 = reach_step [OF r0 rel_decrement [of 0 ?s0], simplified]
  note r2 = reach_step [OF r1 rel_decrement [of 1], simplified]
  note r3 = reach_step [OF r2 rel_reread [of 0], simplified]
  note r4 = reach_step [OF r3 rel_reread [of 1], simplified]
  note r5 = reach_step [OF r4 rel_do_free [of 0], simplified]
  note r6 = reach_step [OF r5 rel_do_free [of 1], simplified]
  then show ?thesis by force
qed

end
