(* ===== verification/Discovery_Database.thy ===== *)
theory Discovery_Database
  imports Endpoints Transition
begin

text \<open>
  The database of discovered endpoints (\<^verbatim>\<open>dynamic/DiscoveryDatabase\<close>). Participants queue
  operations from their listener threads and a dedicated thread applies them in order, calling the
  registered callbacks. The double-buffered queue is Fast DDS code (\<^verbatim>\<open>DBQueue\<close>): a record of its
  operations is a parameter, and \<open>db_queue_laws\<close> states its documented behaviour through the
  contents of the two buffers. A callback is a function on the state \<open>'s\<close> of the object that
  registered it.
\<close>

section \<open>State\<close>

datatype database_operation = DB_add | DB_update | DB_erase

type_synonym db_item = "database_operation \<times> endpoint"
type_synonym 's db_callback = "endpoint \<Rightarrow> 's \<Rightarrow> 's"

datatype db_thread = DB_NotStarted | DB_Waiting | DB_Processing | DB_Finished

record 'q db_queue_ops =
  q_push :: "db_item \<Rightarrow> 'q \<Rightarrow> 'q"
  q_swap :: "'q \<Rightarrow> 'q"
  q_both_empty :: "'q \<Rightarrow> bool"
  q_empty :: "'q \<Rightarrow> bool"
  q_front :: "'q \<Rightarrow> db_item"
  q_pop :: "'q \<Rightarrow> 'q"

definition db_queue_laws ::
    "'q db_queue_ops \<Rightarrow> ('q \<Rightarrow> db_item list) \<Rightarrow> ('q \<Rightarrow> db_item list) \<Rightarrow> bool" where
  "db_queue_laws Q fg bg \<longleftrightarrow>
     (\<forall>q x. fg (q_push Q x q) = fg q \<and> bg (q_push Q x q) = bg q @ [x]) \<and>
     (\<forall>q. fg (q_swap Q q) = bg q \<and> bg (q_swap Q q) = fg q) \<and>
     (\<forall>q. q_both_empty Q q \<longleftrightarrow> fg q = [] \<and> bg q = []) \<and>
     (\<forall>q. q_empty Q q \<longleftrightarrow> fg q = []) \<and>
     (\<forall>q. fg q \<noteq> [] \<longrightarrow>
        q_front Q q = hd (fg q) \<and> fg (q_pop Q q) = tl (fg q) \<and> bg (q_pop Q q) = bg q)"

record ('q, 's) discovery_database =
  entities :: "(guid, endpoint) smap"
  added_endpoint_callbacks :: "'s db_callback list"
  updated_endpoint_callbacks :: "'s db_callback list"
  erased_endpoint_callbacks :: "'s db_callback list"
  entities_to_process :: "'q"
  db_exit :: bool
  db_enabled :: bool
  db_thread_of :: db_thread

section \<open>Operations\<close>

definition discovery_database_new :: "'q \<Rightarrow> ('q, 's) discovery_database" where
  "discovery_database_new q =
     \<lparr>entities = [], added_endpoint_callbacks = [], updated_endpoint_callbacks = [],
      erased_endpoint_callbacks = [], entities_to_process = q, db_exit = False,
      db_enabled = False, db_thread_of = DB_NotStarted\<rparr>"

definition db_start :: "('q, 's) discovery_database \<Rightarrow> ('q, 's) discovery_database" where
  "db_start db =
     (if \<not> db_enabled db then db\<lparr>db_thread_of := DB_Waiting, db_enabled := True\<rparr> else db)"

definition clear_all_callbacks :: "('q, 's) discovery_database \<Rightarrow> ('q, 's) discovery_database" where
  "clear_all_callbacks db =
     db\<lparr>added_endpoint_callbacks := [], updated_endpoint_callbacks := [],
        erased_endpoint_callbacks := []\<rparr>"

text \<open>\<^verbatim>\<open>stop\<close> up to the \<^verbatim>\<open>join\<close>, which returns once the thread is \<open>DB_Finished\<close>.\<close>

definition db_stop :: "('q, 's) discovery_database \<Rightarrow> ('q, 's) discovery_database" where
  "db_stop db =
     (if db_enabled db then (clear_all_callbacks db)\<lparr>db_exit := True, db_enabled := False\<rparr> else db)"

definition topic_exists :: "dds_topic \<Rightarrow> ('q, 's) discovery_database \<Rightarrow> bool" where
  "topic_exists topic db = list_ex (\<lambda>e. dds_topic_eq (ep_topic (snd e)) topic) (entities db)"

definition endpoint_exists :: "guid \<Rightarrow> ('q, 's) discovery_database \<Rightarrow> bool" where
  "endpoint_exists g db \<longleftrightarrow> smap_find guid_key g (entities db) \<noteq> None"

definition run_callbacks :: "'s db_callback list \<Rightarrow> endpoint \<Rightarrow> 's \<Rightarrow> 's" where
  "run_callbacks cbs e s = fold (\<lambda>cb. cb e) cbs s"

definition add_endpoint_int ::
    "endpoint \<Rightarrow> ('q, 's) discovery_database \<times> 's \<Rightarrow> bool result \<times> ('q, 's) discovery_database \<times> 's" where
  "add_endpoint_int new_endpoint dbs =
     (let db = fst dbs; s = snd dbs in
      case smap_find guid_key (ep_guid new_endpoint) (entities db) of
        Some stored \<Rightarrow>
          if ep_active stored then (Inl InconsistencyException, db, s)
          else (Inr True,
                db\<lparr>entities := smap_set guid_key (ep_guid new_endpoint)
                                (endpoint_assign stored new_endpoint) (entities db)\<rparr>,
                s)
      | None \<Rightarrow>
          (Inr True,
           db\<lparr>entities := smap_emplace guid_key (ep_guid new_endpoint) new_endpoint (entities db)\<rparr>,
           run_callbacks (added_endpoint_callbacks db) new_endpoint s))"

definition update_endpoint_int ::
    "endpoint \<Rightarrow> ('q, 's) discovery_database \<times> 's \<Rightarrow> bool result \<times> ('q, 's) discovery_database \<times> 's" where
  "update_endpoint_int endpoint_to_update dbs =
     (let db = fst dbs; s = snd dbs in
      case smap_find guid_key (ep_guid endpoint_to_update) (entities db) of
        None \<Rightarrow> (Inl InconsistencyException, db, s)
      | Some stored \<Rightarrow>
          (Inr True,
           db\<lparr>entities := smap_set guid_key (ep_guid endpoint_to_update)
                           (endpoint_assign stored endpoint_to_update) (entities db)\<rparr>,
           run_callbacks (updated_endpoint_callbacks db) endpoint_to_update s))"

definition erase_endpoint_int ::
    "endpoint \<Rightarrow> ('q, 's) discovery_database \<times> 's \<Rightarrow>
     return_code result \<times> ('q, 's) discovery_database \<times> 's" where
  "erase_endpoint_int endpoint_to_erase dbs =
     (let db = fst dbs; s = snd dbs in
      case smap_find guid_key (ep_guid endpoint_to_erase) (entities db) of
        None \<Rightarrow> (Inl InconsistencyException, db, s)
      | Some _ \<Rightarrow>
          (Inr RETCODE_OK,
           db\<lparr>entities := smap_erase guid_key (ep_guid endpoint_to_erase) (entities db)\<rparr>,
           run_callbacks (erased_endpoint_callbacks db) endpoint_to_erase s))"

definition push_item_to_queue ::
    "'q db_queue_ops \<Rightarrow> db_item \<Rightarrow> ('q, 's) discovery_database \<Rightarrow> ('q, 's) discovery_database" where
  "push_item_to_queue Q item db = db\<lparr>entities_to_process := q_push Q item (entities_to_process db)\<rparr>"

definition db_add_endpoint ::
    "'q db_queue_ops \<Rightarrow> endpoint \<Rightarrow> ('q, 's) discovery_database \<Rightarrow> ('q, 's) discovery_database" where
  "db_add_endpoint Q e = push_item_to_queue Q (DB_add, e)"

definition db_update_endpoint ::
    "'q db_queue_ops \<Rightarrow> endpoint \<Rightarrow> ('q, 's) discovery_database \<Rightarrow> ('q, 's) discovery_database" where
  "db_update_endpoint Q e = push_item_to_queue Q (DB_update, e)"

definition db_erase_endpoint ::
    "'q db_queue_ops \<Rightarrow> endpoint \<Rightarrow> ('q, 's) discovery_database \<Rightarrow> ('q, 's) discovery_database" where
  "db_erase_endpoint Q e = push_item_to_queue Q (DB_erase, e)"

definition db_get_endpoint :: "guid \<Rightarrow> ('q, 's) discovery_database \<Rightarrow> endpoint result" where
  "db_get_endpoint g db =
     (case smap_find guid_key g (entities db) of
        None \<Rightarrow> Inl InconsistencyException
      | Some e \<Rightarrow> Inr e)"

definition add_endpoint_discovered_callback ::
    "'s db_callback \<Rightarrow> ('q, 's) discovery_database \<Rightarrow> ('q, 's) discovery_database" where
  "add_endpoint_discovered_callback cb db =
     db\<lparr>added_endpoint_callbacks := added_endpoint_callbacks db @ [cb]\<rparr>"

definition add_endpoint_updated_callback ::
    "'s db_callback \<Rightarrow> ('q, 's) discovery_database \<Rightarrow> ('q, 's) discovery_database" where
  "add_endpoint_updated_callback cb db =
     db\<lparr>updated_endpoint_callbacks := updated_endpoint_callbacks db @ [cb]\<rparr>"

definition add_endpoint_erased_callback ::
    "'s db_callback \<Rightarrow> ('q, 's) discovery_database \<Rightarrow> ('q, 's) discovery_database" where
  "add_endpoint_erased_callback cb db =
     db\<lparr>erased_endpoint_callbacks := erased_endpoint_callbacks db @ [cb]\<rparr>"

text \<open>One queue item: the dispatch on the operation; an inconsistency is caught and logged.\<close>

definition process_item ::
    "db_item \<Rightarrow> ('q, 's) discovery_database \<times> 's \<Rightarrow> ('q, 's) discovery_database \<times> 's" where
  "process_item item dbs =
     (case fst item of
        DB_add \<Rightarrow> snd (add_endpoint_int (snd item) dbs)
      | DB_update \<Rightarrow> snd (update_endpoint_int (snd item) dbs)
      | DB_erase \<Rightarrow> snd (erase_endpoint_int (snd item) dbs))"

definition process_front ::
    "'q db_queue_ops \<Rightarrow> ('q, 's) discovery_database \<times> 's \<Rightarrow> ('q, 's) discovery_database \<times> 's" where
  "process_front Q dbs =
     (let r = process_item (q_front Q (entities_to_process (fst dbs))) dbs
      in ((fst r)\<lparr>entities_to_process := q_pop Q (entities_to_process (fst r))\<rparr>, snd r))"

text \<open>The inner loop of \<^verbatim>\<open>process_queue_\<close>; \<open>None\<close> when the fuel does not reach its end.\<close>

fun process_queue_loop ::
    "nat \<Rightarrow> 'q db_queue_ops \<Rightarrow> ('q, 's) discovery_database \<times> 's \<Rightarrow>
     (('q, 's) discovery_database \<times> 's) option" where
  "process_queue_loop fuel Q dbs =
     (if q_empty Q (entities_to_process (fst dbs)) then Some dbs
      else case fuel of 0 \<Rightarrow> None | Suc n \<Rightarrow> process_queue_loop n Q (process_front Q dbs))"

declare process_queue_loop.simps [simp del]

definition process_queue ::
    "nat \<Rightarrow> 'q db_queue_ops \<Rightarrow> ('q, 's) discovery_database \<times> 's \<Rightarrow>
     (('q, 's) discovery_database \<times> 's) option" where
  "process_queue fuel Q dbs =
     process_queue_loop fuel Q
       ((fst dbs)\<lparr>entities_to_process := q_swap Q (entities_to_process (fst dbs))\<rparr>, snd dbs)"

section \<open>The processing thread\<close>

text \<open>
  Steps of the system of the processing thread and the threads that queue operations, at the
  granularity of the queue accesses: operations may be queued between any two steps of the thread.
  \<open>pushed\<close> and \<open>applied\<close> are histories used in the statements only.
\<close>

record ('q, 's) db_sys =
  sys_db :: "('q, 's) discovery_database"
  sys_client :: 's
  sys_pushed :: "db_item list"
  sys_applied :: "db_item list"

inductive db_step :: "'q db_queue_ops \<Rightarrow> ('q, 's) db_sys \<Rightarrow> ('q, 's) db_sys \<Rightarrow> bool"
  for Q :: "'q db_queue_ops" where
  step_push:
    "db_step Q s (s\<lparr>sys_db := push_item_to_queue Q item (sys_db s),
                    sys_pushed := sys_pushed s @ [item]\<rparr>)"
| step_start:
    "db_thread_of (sys_db s) \<in> {DB_NotStarted, DB_Finished} \<Longrightarrow>
     db_step Q s (s\<lparr>sys_db := db_start (sys_db s)\<rparr>)"
| step_stop: "db_step Q s (s\<lparr>sys_db := db_stop (sys_db s)\<rparr>)"
| step_wake:
    "db_thread_of (sys_db s) = DB_Waiting \<Longrightarrow> \<not> db_exit (sys_db s) \<Longrightarrow>
     \<not> q_both_empty Q (entities_to_process (sys_db s)) \<Longrightarrow>
     db_step Q s (s\<lparr>sys_db := (sys_db s)\<lparr>db_thread_of := DB_Processing,
                      entities_to_process := q_swap Q (entities_to_process (sys_db s))\<rparr>\<rparr>)"
| step_exit:
    "db_thread_of (sys_db s) = DB_Waiting \<Longrightarrow> db_exit (sys_db s) \<Longrightarrow>
     db_step Q s (s\<lparr>sys_db := (sys_db s)\<lparr>db_thread_of := DB_Finished\<rparr>\<rparr>)"
| step_item:
    "db_thread_of (sys_db s) = DB_Processing \<Longrightarrow>
     \<not> q_empty Q (entities_to_process (sys_db s)) \<Longrightarrow>
     r = process_front Q (sys_db s, sys_client s) \<Longrightarrow>
     db_step Q s (s\<lparr>sys_db := fst r, sys_client := snd r,
                    sys_applied := sys_applied s @ [q_front Q (entities_to_process (sys_db s))]\<rparr>)"
| step_drained:
    "db_thread_of (sys_db s) = DB_Processing \<Longrightarrow> q_empty Q (entities_to_process (sys_db s)) \<Longrightarrow>
     db_step Q s (s\<lparr>sys_db := (sys_db s)\<lparr>db_thread_of := DB_Waiting\<rparr>\<rparr>)"

inductive_cases db_stepE: "db_step Q s s'"

definition db_sys_start :: "('q \<Rightarrow> db_item list) \<Rightarrow> ('q \<Rightarrow> db_item list) \<Rightarrow> ('q, 's) db_sys \<Rightarrow> bool" where
  "db_sys_start fg bg s \<longleftrightarrow>
     entities (sys_db s) = [] \<and> db_exit (sys_db s) = False \<and> db_enabled (sys_db s) = False \<and>
     db_thread_of (sys_db s) = DB_NotStarted \<and>
     fg (entities_to_process (sys_db s)) = [] \<and> bg (entities_to_process (sys_db s)) = [] \<and>
     sys_pushed s = [] \<and> sys_applied s = []"

section \<open>Abstract specification\<close>

text \<open>
  What the database promises, on a map from GUIDs to the identifying part of an endpoint: an add
  inserts unless an active endpoint is there, an update replaces what is there, an erase removes.
  The specific quality of service is left out: see \<open>endpoint_assign\<close>.
\<close>

type_synonym endpoint_view = "endpoint_kind \<times> guid \<times> dds_topic \<times> bool \<times> participant_id"

definition endpoint_view :: "endpoint \<Rightarrow> endpoint_view" where
  "endpoint_view e =
     (ep_kind e, ep_guid e, ep_topic e, ep_active e, discoverer_participant_id e)"

definition view_active :: "endpoint_view \<Rightarrow> bool" where
  "view_active v = fst (snd (snd (snd v)))"

fun spec_apply :: "db_item \<Rightarrow> (guid \<rightharpoonup> endpoint_view) \<Rightarrow> (guid \<rightharpoonup> endpoint_view)" where
  "spec_apply (DB_add, e) m =
     (case m (ep_guid e) of
        None \<Rightarrow> m(ep_guid e \<mapsto> endpoint_view e)
      | Some v \<Rightarrow> if view_active v then m else m(ep_guid e \<mapsto> endpoint_view e))"
| "spec_apply (DB_update, e) m =
     (case m (ep_guid e) of None \<Rightarrow> m | Some v \<Rightarrow> m(ep_guid e \<mapsto> endpoint_view e))"
| "spec_apply (DB_erase, e) m = m(ep_guid e := None)"

definition abs_entities :: "(guid, endpoint) smap \<Rightarrow> (guid \<rightharpoonup> endpoint_view)" where
  "abs_entities m = (\<lambda>g. map_option endpoint_view (smap_find guid_key g m))"

definition db_wf :: "(guid, endpoint) smap \<Rightarrow> bool" where
  "db_wf m \<longleftrightarrow> smap_ok guid_key m \<and> list_all (\<lambda>e. ep_guid (snd e) = fst e) m"

section \<open>Lemmas\<close>

lemmas db_op_defs = add_endpoint_int_def update_endpoint_int_def erase_endpoint_int_def Let_def

lemma endpoint_view_assign [simp]: "endpoint_view (endpoint_assign stored e) = endpoint_view e"
  by (simp add: endpoint_view_def)

lemma view_active_view [simp]: "view_active (endpoint_view e) = ep_active e"
  by (simp add: view_active_def endpoint_view_def)

lemma process_item_entities:
  "abs_entities (entities (fst (process_item item dbs))) =
     spec_apply item (abs_entities (entities (fst dbs)))"
proof -
  obtain op e where item: "item = (op, e)" by fastforce
  show ?thesis
    unfolding item
    by (cases op)
      (auto simp: process_item_def db_op_defs abs_entities_def fun_eq_iff split: option.splits)
qed

lemma db_wf_set: "db_wf m \<Longrightarrow> ep_guid e = g \<Longrightarrow> db_wf (smap_set guid_key g e m)"
proof -
  assume wf: "db_wf m" and g: "ep_guid e = g"
  have "list_all (\<lambda>e. ep_guid (snd e) = fst e) m \<Longrightarrow>
        list_all (\<lambda>e. ep_guid (snd e) = fst e) (smap_set guid_key g e m)"
    by (induction m) (auto simp: g)
  with wf show ?thesis by (simp add: db_wf_def)
qed

lemma db_wf_erase: "db_wf m \<Longrightarrow> db_wf (smap_erase guid_key g m)"
  by (auto simp: db_wf_def smap_erase_def[of _ _ m] list_all_iff
      dest: smap_ok_erase[of _ _ g] simp flip: smap_erase_def)

lemma db_wf_process_item: "db_wf (entities (fst dbs)) \<Longrightarrow> db_wf (entities (fst (process_item item dbs)))"
  by (cases "fst item")
    (auto simp: process_item_def db_op_defs smap_emplace_def db_wf_set db_wf_erase
      split: option.splits)

lemma process_item_frame [simp]:
  "entities_to_process (fst (process_item item dbs)) = entities_to_process (fst dbs)"
  "db_exit (fst (process_item item dbs)) = db_exit (fst dbs)"
  "db_enabled (fst (process_item item dbs)) = db_enabled (fst dbs)"
  "db_thread_of (fst (process_item item dbs)) = db_thread_of (fst dbs)"
  "added_endpoint_callbacks (fst (process_item item dbs)) = added_endpoint_callbacks (fst dbs)"
  "erased_endpoint_callbacks (fst (process_item item dbs)) = erased_endpoint_callbacks (fst dbs)"
  by (auto simp: process_item_def db_op_defs split: database_operation.splits option.splits)

lemma db_queue_lawsD:
  assumes "db_queue_laws Q fg bg"
  shows "fg (q_push Q x q) = fg q" and "bg (q_push Q x q) = bg q @ [x]"
    and "fg (q_swap Q q) = bg q" and "bg (q_swap Q q) = fg q"
    and "q_both_empty Q q \<longleftrightarrow> fg q = [] \<and> bg q = []"
    and "q_empty Q q \<longleftrightarrow> fg q = []"
    and "fg q \<noteq> [] \<Longrightarrow> q_front Q q = hd (fg q)"
    and "fg q \<noteq> [] \<Longrightarrow> fg (q_pop Q q) = tl (fg q)"
    and "fg q \<noteq> [] \<Longrightarrow> bg (q_pop Q q) = bg q"
  using assms unfolding db_queue_laws_def by blast+

lemma process_front_simps [simp]:
  "entities (fst (process_front Q dbs)) =
     entities (fst (process_item (q_front Q (entities_to_process (fst dbs))) dbs))"
  "entities_to_process (fst (process_front Q dbs)) = q_pop Q (entities_to_process (fst dbs))"
  "db_exit (fst (process_front Q dbs)) = db_exit (fst dbs)"
  "db_enabled (fst (process_front Q dbs)) = db_enabled (fst dbs)"
  "db_thread_of (fst (process_front Q dbs)) = db_thread_of (fst dbs)"
  by (simp_all add: process_front_def Let_def)

text \<open>Enough fuel for the items of the foreground buffer drains it, applying the items in order.\<close>

lemma process_queue_loop_drains:
  assumes laws: "db_queue_laws Q fg bg"
    and "length (fg (entities_to_process (fst dbs))) \<le> fuel"
  shows "\<exists>dbs'. process_queue_loop fuel Q dbs = Some dbs' \<and>
      abs_entities (entities (fst dbs')) =
        fold spec_apply (fg (entities_to_process (fst dbs))) (abs_entities (entities (fst dbs))) \<and>
      fg (entities_to_process (fst dbs')) = [] \<and>
      bg (entities_to_process (fst dbs')) = bg (entities_to_process (fst dbs)) \<and>
      (db_wf (entities (fst dbs)) \<longrightarrow> db_wf (entities (fst dbs')))"
  using assms(2)
proof (induction fuel arbitrary: dbs)
  case 0
  with laws show ?case
    by (subst process_queue_loop.simps) (simp add: db_queue_lawsD)
next
  case (Suc n)
  let ?q = "entities_to_process (fst dbs)"
  show ?case
  proof (cases "fg ?q = []")
    case True
    with laws show ?thesis
      by (subst process_queue_loop.simps) (simp add: db_queue_lawsD)
  next
    case False
    then obtain x xs where fg: "fg ?q = x # xs" by (cases "fg ?q") auto
    note front = db_queue_lawsD(7) [OF laws False] and pop = db_queue_lawsD(8,9) [OF laws False]
    have step: "process_queue_loop (Suc n) Q dbs = process_queue_loop n Q (process_front Q dbs)"
      using laws False by (subst process_queue_loop.simps) (simp add: db_queue_lawsD)
    have "length (fg (entities_to_process (fst (process_front Q dbs)))) \<le> n"
      using Suc.prems fg pop by simp
    from Suc.IH [OF this] obtain dbs' where
      r: "process_queue_loop n Q (process_front Q dbs) = Some dbs'"
      and e: "abs_entities (entities (fst dbs')) =
        fold spec_apply xs (abs_entities (entities (fst (process_front Q dbs))))"
      and f: "fg (entities_to_process (fst dbs')) = []"
      and b: "bg (entities_to_process (fst dbs')) = bg ?q"
      and w: "db_wf (entities (fst (process_front Q dbs))) \<longrightarrow> db_wf (entities (fst dbs'))"
      using fg pop by auto
    from e have "abs_entities (entities (fst dbs')) =
        fold spec_apply (fg ?q) (abs_entities (entities (fst dbs)))"
      using fg front by (simp add: process_item_entities)
    with step r f b w show ?thesis
      by (simp add: db_wf_process_item)
  qed
qed

definition db_sys_inv ::
    "'q db_queue_ops \<Rightarrow> ('q \<Rightarrow> db_item list) \<Rightarrow> ('q \<Rightarrow> db_item list) \<Rightarrow> ('q, 's) db_sys \<Rightarrow> bool" where
  "db_sys_inv Q fg bg s \<longleftrightarrow> (db_queue_laws Q fg bg \<longrightarrow>
     sys_pushed s = sys_applied s @ fg (entities_to_process (sys_db s)) @ bg (entities_to_process (sys_db s)) \<and>
     abs_entities (entities (sys_db s)) = fold spec_apply (sys_applied s) (abs_entities []) \<and>
     db_wf (entities (sys_db s)) \<and>
     (db_thread_of (sys_db s) \<noteq> DB_Processing \<longrightarrow> fg (entities_to_process (sys_db s)) = []) \<and>
     (db_thread_of (sys_db s) = DB_NotStarted \<longrightarrow> sys_applied s = []))"

lemma db_start_simps [simp]:
  "entities (db_start db) = entities db"
  "entities_to_process (db_start db) = entities_to_process db"
  "db_exit (db_start db) = db_exit db"
  by (simp_all add: db_start_def)

lemma db_stop_simps [simp]:
  "entities (db_stop db) = entities db"
  "entities_to_process (db_stop db) = entities_to_process db"
  "db_thread_of (db_stop db) = db_thread_of db"
  by (simp_all add: db_stop_def clear_all_callbacks_def)

lemma push_item_simps [simp]:
  "entities (push_item_to_queue Q x db) = entities db"
  "entities_to_process (push_item_to_queue Q x db) = q_push Q x (entities_to_process db)"
  "db_thread_of (push_item_to_queue Q x db) = db_thread_of db"
  "db_exit (push_item_to_queue Q x db) = db_exit db"
  by (simp_all add: push_item_to_queue_def)

lemma db_sys_inv_start: "db_sys_start fg bg s \<Longrightarrow> db_sys_inv Q fg bg s"
  by (simp add: db_sys_start_def db_sys_inv_def db_wf_def)

lemma db_sys_inv_item:
  assumes inv: "db_sys_inv Q fg bg s" and "db_queue_laws Q fg bg"
    and "db_thread_of (sys_db s) = DB_Processing"
    and "fg (entities_to_process (sys_db s)) \<noteq> []"
    and r: "r = process_front Q (sys_db s, sys_client s)"
  shows "db_sys_inv Q fg bg (s\<lparr>sys_db := fst r, sys_client := snd r,
            sys_applied := sys_applied s @ [q_front Q (entities_to_process (sys_db s))]\<rparr>)"
proof -
  let ?q = "entities_to_process (sys_db s)"
  obtain x xs where fg: "fg ?q = x # xs" using assms(4) by (cases "fg ?q") auto
  note q = db_queue_lawsD(7,8,9) [OF assms(2,4)]
  show ?thesis
    using inv assms(2,3) fg q unfolding r
    by (simp add: db_sys_inv_def process_item_entities db_wf_process_item)
qed

lemma db_sys_inv_step:
  assumes inv: "db_sys_inv Q fg bg s" and step: "db_step Q s s'"
  shows "db_sys_inv Q fg bg s'"
proof (cases "db_queue_laws Q fg bg")
  case False
  then show ?thesis by (simp add: db_sys_inv_def)
next
  case laws: True
  from step show ?thesis
  proof (cases rule: db_step.cases)
    case step_push
    with inv laws show ?thesis by (auto simp: db_sys_inv_def db_queue_lawsD)
  next
    case step_start
    with inv laws show ?thesis by (auto simp: db_sys_inv_def db_start_def)
  next
    case step_stop
    with inv laws show ?thesis by (auto simp: db_sys_inv_def)
  next
    case step_wake
    with inv laws show ?thesis by (auto simp: db_sys_inv_def db_queue_lawsD)
  next
    case step_exit
    with inv laws show ?thesis by (auto simp: db_sys_inv_def)
  next
    case (step_item r)
    with inv laws show ?thesis
      using db_sys_inv_item [of Q fg bg s r] by (simp add: db_queue_lawsD)
  next
    case step_drained
    with inv laws show ?thesis by (auto simp: db_sys_inv_def db_queue_lawsD)
  qed
qed

interpretation db_system: invariant_system "db_sys_start fg bg" "db_step Q" "db_sys_inv Q fg bg"
  for Q :: "'q db_queue_ops" and fg bg :: "'q \<Rightarrow> db_item list"
  by unfold_locales (auto intro: db_sys_inv_start db_sys_inv_step)

text \<open>The exit flag is never cleared, so a thread started after a stop only terminates.\<close>

definition db_dead :: "db_item list \<Rightarrow> ('q, 's) db_sys \<Rightarrow> bool" where
  "db_dead done s \<longleftrightarrow>
     db_exit (sys_db s) \<and> db_thread_of (sys_db s) \<noteq> DB_Processing \<and> sys_applied s = done"

lemma db_dead_step: "db_dead done s \<Longrightarrow> db_step Q s s' \<Longrightarrow> db_dead done s'"
  by (erule db_stepE) (auto simp: db_dead_def db_start_def db_stop_def clear_all_callbacks_def
      push_item_to_queue_def)

section \<open>Properties\<close>

text \<open>
  C11. Applying one queued operation to the database refines the abstract map: whatever the branch,
  inconsistencies included, the identifying contents afterwards are those of the specification.
\<close>

theorem process_item_refines:
  "abs_entities (entities (fst (process_item item dbs))) =
     spec_apply item (abs_entities (entities (fst dbs)))"
  by (rule process_item_entities)

text \<open>
  C12. However the threads that queue operations and the processing thread interleave, with starts
  and stops in between, the operations queued are those applied followed by those still waiting, in
  order, and the contents of the database are exactly the applied operations run on the abstract map.
\<close>

theorem db_operations_in_order:
  assumes "db_queue_laws Q fg bg" and "reachable (db_sys_start fg bg) (db_step Q) s"
  shows "sys_pushed s = sys_applied s @ fg (entities_to_process (sys_db s)) @ bg (entities_to_process (sys_db s)) \<and>
    abs_entities (entities (sys_db s)) = fold spec_apply (sys_applied s) (abs_entities []) \<and>
    db_wf (entities (sys_db s))"
  using db_system.reachable_inv [OF assms(2)] assms(1) by (simp add: db_sys_inv_def)

text \<open>A queue that meets the laws: a pair of lists.\<close>

definition list_queue :: "(db_item list \<times> db_item list) db_queue_ops" where
  "list_queue =
     \<lparr>q_push = (\<lambda>x q. (fst q, snd q @ [x])), q_swap = (\<lambda>q. (snd q, fst q)),
      q_both_empty = (\<lambda>q. fst q = [] \<and> snd q = []), q_empty = (\<lambda>q. fst q = []),
      q_front = (\<lambda>q. hd (fst q)), q_pop = (\<lambda>q. (tl (fst q), snd q))\<rparr>"

lemma list_queue_laws: "db_queue_laws list_queue fst snd"
  by (simp add: db_queue_laws_def list_queue_def)

definition sample_db_sys :: "(db_item list \<times> db_item list, unit) db_sys" where
  "sample_db_sys =
     \<lparr>sys_db = discovery_database_new ([], []), sys_client = (), sys_pushed = [], sys_applied = []\<rparr>"

definition sample_reader :: endpoint where
  "sample_reader =
     endpoint_of EK_reader \<lparr>guid_prefix_of = replicate 12 1, guid_entity_id = replicate 4 1\<rparr>
       (dds_topic_of_names 1 ''t'' ''T'') (PId ''p'') specific_endpoint_qos_default"

theorem db_operations_in_order_witness:
  "sys_pushed (sample_db_sys\<lparr>sys_db := push_item_to_queue list_queue (DB_add, sample_reader) (sys_db sample_db_sys),
      sys_pushed := [(DB_add, sample_reader)]\<rparr>) = [(DB_add, sample_reader)] \<and>
   db_wf (entities (sys_db (sample_db_sys\<lparr>sys_db := push_item_to_queue list_queue (DB_add, sample_reader)
      (sys_db sample_db_sys), sys_pushed := [(DB_add, sample_reader)]\<rparr>)))"
proof -
  let ?s = "sample_db_sys\<lparr>sys_db := push_item_to_queue list_queue (DB_add, sample_reader) (sys_db sample_db_sys),
      sys_pushed := sys_pushed sample_db_sys @ [(DB_add, sample_reader)]\<rparr>"
  have "db_sys_start fst snd sample_db_sys"
    by (simp add: db_sys_start_def sample_db_sys_def discovery_database_new_def)
  then have "reachable (db_sys_start fst snd) (db_step list_queue) ?s"
    by (rule reach_step [OF reach_init]) (rule step_push)
  from db_operations_in_order [OF list_queue_laws this] show ?thesis
    by (simp add: sample_db_sys_def)
qed

text \<open>
  C13. The loop over the queue ends: fuel for the items of the buffer being read is enough, all of
  them are applied in order, and what other threads have queued meanwhile stays for the next round.
\<close>

theorem process_queue_terminates:
  assumes "db_queue_laws Q fg bg" and "length (bg (entities_to_process (fst dbs))) \<le> fuel"
  shows "\<exists>dbs'. process_queue fuel Q dbs = Some dbs' \<and>
    abs_entities (entities (fst dbs')) =
      fold spec_apply (bg (entities_to_process (fst dbs))) (abs_entities (entities (fst dbs))) \<and>
    fg (entities_to_process (fst dbs')) = [] \<and>
    bg (entities_to_process (fst dbs')) = fg (entities_to_process (fst dbs))"
  using process_queue_loop_drains [OF assms(1), of
      "((fst dbs)\<lparr>entities_to_process := q_swap Q (entities_to_process (fst dbs))\<rparr>, snd dbs)" fuel] assms
  by (auto simp: process_queue_def db_queue_lawsD)

theorem process_queue_terminates_witness:
  "\<exists>dbs'. process_queue 1 list_queue (push_item_to_queue list_queue (DB_add, sample_reader)
      (discovery_database_new ([], [])), ()) = Some dbs' \<and>
    abs_entities (entities (fst dbs')) (ep_guid sample_reader) = Some (endpoint_view sample_reader)"
proof -
  let ?dbs = "(push_item_to_queue list_queue (DB_add, sample_reader) (discovery_database_new ([], [])), ())"
  have q: "entities_to_process (fst ?dbs) = ([], [(DB_add, sample_reader)])" "entities (fst ?dbs) = []"
    by (simp_all add: push_item_to_queue_def discovery_database_new_def list_queue_def)
  have "\<exists>dbs'. process_queue 1 list_queue ?dbs = Some dbs' \<and>
      abs_entities (entities (fst dbs')) = spec_apply (DB_add, sample_reader) (abs_entities [])"
    using process_queue_terminates [OF list_queue_laws, of ?dbs 1] unfolding q by auto
  moreover have "spec_apply (DB_add, sample_reader) (abs_entities []) (ep_guid sample_reader) =
      Some (endpoint_view sample_reader)" by (simp add: abs_entities_def)
  ultimately show ?thesis by auto
qed

text \<open>
  Updating a stored endpoint never changes the partitions and the ownership strength stored for
  it: the quality of service a later lookup returns is the one of the first discovery, whatever the
  update carried.
\<close>

lemma update_keeps_stale_qos:
  assumes "db_get_endpoint (ep_guid new) db = Inr stored"
    and "update_endpoint_int new (db, s) = (ret, db', s')"
  shows "\<exists>e. ret = Inr True \<and> db_get_endpoint (ep_guid new) db' = Inr e \<and>
    endpoint_view e = endpoint_view new \<and> ep_specific_qos e = ep_specific_qos stored"
  using assms by (auto simp: db_get_endpoint_def update_endpoint_int_def Let_def split: option.splits)

text \<open>
  C39. Once the database has been stopped with its thread not in the middle of the queue, no queued
  operation is ever applied again, whatever is queued and however often it is started: the exit flag
  is never cleared, so a new thread ends at once.
\<close>

theorem db_dead_after_stop:
  assumes "db_exit (sys_db s)" and "db_thread_of (sys_db s) \<noteq> DB_Processing"
    and "steps (db_step Q) s s'"
  shows "sys_applied s' = sys_applied s \<and> entities (sys_db s') = entities (sys_db s)"
proof -
  have "db_dead (sys_applied s) s' \<and> entities (sys_db s') = entities (sys_db s)"
  proof (rule steps_preserve [OF assms(3)])
    show "db_dead (sys_applied s) s \<and> entities (sys_db s) = entities (sys_db s)"
      using assms by (simp add: db_dead_def)
    fix a b
    assume a: "db_dead (sys_applied s) a \<and> entities (sys_db a) = entities (sys_db s)" and st: "db_step Q a b"
    then have "entities (sys_db b) = entities (sys_db a)"
      by (auto simp: db_dead_def elim!: db_stepE)
    with a st db_dead_step show "db_dead (sys_applied s) b \<and> entities (sys_db b) = entities (sys_db s)" by auto
  qed
  then show ?thesis by (simp add: db_dead_def)
qed

theorem db_dead_after_stop_witness:
  "sys_applied (sample_db_sys\<lparr>sys_db := push_item_to_queue list_queue (DB_add, sample_reader)
      (db_start (db_stop (db_start (sys_db sample_db_sys)))), sys_pushed := [(DB_add, sample_reader)]\<rparr>) = []"
proof -
  let ?s = "sample_db_sys\<lparr>sys_db := db_start (db_stop (db_start (sys_db sample_db_sys)))\<rparr>"
  let ?s' = "?s\<lparr>sys_db := push_item_to_queue list_queue (DB_add, sample_reader) (sys_db ?s),
      sys_pushed := sys_pushed ?s @ [(DB_add, sample_reader)]\<rparr>"
  have st: "steps (db_step list_queue) ?s ?s'" by (rule steps_one) (rule step_push)
  have "db_exit (sys_db ?s)" "db_thread_of (sys_db ?s) \<noteq> DB_Processing"
    by (simp_all add: sample_db_sys_def discovery_database_new_def db_start_def db_stop_def
        clear_all_callbacks_def)
  from db_dead_after_stop [OF this st] show ?thesis by (simp add: sample_db_sys_def)
qed

end
