(* ===== verification/Readers.thy ===== *)
theory Readers
  imports Endpoints Payload_Pool Discovery_Database
begin

text \<open>
  The readers (\<^verbatim>\<open>reader/implementations\<close>): the state machine of \<^verbatim>\<open>BaseReader\<close> that every
  implementation shares, the blank and dummy readers, and the RTPS reader, whose RTPS history is Fast
  DDS code and enters as a record of operations. \<open>'cb\<close> identifies what the data-available callback
  of a reader is bound to. A function that may call it returns the callbacks it calls. The memory
  allocator of the payload pool is the parameter \<open>malloc\<close>.
\<close>

section \<open>Base reader\<close>

record 'cb base_reader =
  br_participant_id :: participant_id
  br_topic :: dds_topic
  br_on_data_available :: "'cb option"
  br_enabled :: bool

definition base_reader_new :: "participant_id \<Rightarrow> dds_topic \<Rightarrow> 'cb base_reader" where
  "base_reader_new p t =
     \<lparr>br_participant_id = p, br_topic = t, br_on_data_available = None, br_enabled = False\<rparr>"

definition on_data_available :: "('cb, 'x) base_reader_scheme \<Rightarrow> 'cb list" where
  "on_data_available r = (case br_on_data_available r of Some cb \<Rightarrow> [cb] | None \<Rightarrow> [])"

definition base_reader_enable ::
    "(('cb, 'x) base_reader_scheme \<Rightarrow> 'cb list) \<Rightarrow> ('cb, 'x) base_reader_scheme \<Rightarrow>
     'cb list \<times> ('cb, 'x) base_reader_scheme" where
  "base_reader_enable enable_hook r =
     (if \<not> br_enabled r then let r' = r\<lparr>br_enabled := True\<rparr> in (enable_hook r', r') else ([], r))"

definition base_reader_disable :: "('cb, 'x) base_reader_scheme \<Rightarrow> ('cb, 'x) base_reader_scheme" where
  "base_reader_disable r = (if br_enabled r then r\<lparr>br_enabled := False\<rparr> else r)"

definition set_on_data_available_callback ::
    "'cb \<Rightarrow> ('cb, 'x) base_reader_scheme \<Rightarrow> ('cb, 'x) base_reader_scheme" where
  "set_on_data_available_callback cb r = r\<lparr>br_on_data_available := Some cb\<rparr>"

definition unset_on_data_available_callback ::
    "('cb, 'x) base_reader_scheme \<Rightarrow> ('cb, 'x) base_reader_scheme" where
  "unset_on_data_available_callback r = r\<lparr>br_on_data_available := None\<rparr>"

definition data_properties_default :: data_properties where
  "data_properties_default =
     \<lparr>writer_qos = specific_endpoint_qos_default, instanceHandle = replicate 16 0, dp_kind = ALIVE,
      source_timestamp = 0, source_guid = guid_unknown, participant_receiver = participant_id_invalid,
      dp_write_params = None, origin_sequence_number = 0\<rparr>"

definition data_received_default :: data_received where
  "data_received_default =
     \<lparr>dr_payload = \<lparr>payload_data = None, payload_length = 0, payload_max_size = 0, payload_pos = 0\<rparr>,
      dr_properties = data_properties_default, sent_sequence_number = 0\<rparr>"

text \<open>\<open>take_hook\<close> is the virtual \<^verbatim>\<open>take_\<close>; \<open>'e\<close> is the state of the payload pool.\<close>

definition base_reader_take ::
    "(data_received \<Rightarrow> ('cb, 'x) base_reader_scheme \<times> 'e \<Rightarrow>
        return_code \<times> data_received \<times> ('cb, 'x) base_reader_scheme \<times> 'e) \<Rightarrow>
     data_received \<Rightarrow> ('cb, 'x) base_reader_scheme \<times> 'e \<Rightarrow>
        return_code \<times> data_received \<times> ('cb, 'x) base_reader_scheme \<times> 'e" where
  "base_reader_take take_hook data re =
     (if br_enabled (fst re) then take_hook data re
      else (RETCODE_NOT_ENABLED, data, fst re, snd re))"

section \<open>Blank and dummy readers\<close>

definition blank_reader_take :: "data_received \<Rightarrow> 'r \<times> 'e \<Rightarrow> return_code \<times> data_received \<times> 'r \<times> 'e" where
  "blank_reader_take data re = (RETCODE_NO_DATA, data, fst re, snd re)"

record dummy_data_received =
  ddr_payload :: "octet list"
  ddr_source_guid :: guid

record 'cb dummy_reader = "'cb base_reader" +
  data_to_send :: "dummy_data_received list"

definition dummy_simulate_data_reception ::
    "dummy_data_received \<Rightarrow> 'cb dummy_reader \<Rightarrow> 'cb list \<times> 'cb dummy_reader" where
  "dummy_simulate_data_reception d r =
     (let r' = r\<lparr>data_to_send := data_to_send r @ [d]\<rparr> in (on_data_available r', r'))"

type_synonym malloc = "heap \<Rightarrow> 32 word \<Rightarrow> malloc_result"

text \<open>Writing the bytes of the sample through the data pointer of the payload.\<close>

definition heap_write :: "octet list \<Rightarrow> payload \<Rightarrow> fast_pool \<Rightarrow> fast_pool" where
  "heap_write bytes t p =
     (case payload_data t of
        None \<Rightarrow> p
      | Some a \<Rightarrow>
         (case fast_heap p a of
            None \<Rightarrow> p
          | Some b \<Rightarrow> p\<lparr>fast_heap := (fast_heap p)
                          (a \<mapsto> b\<lparr>block_bytes := write_bytes bytes (block_bytes b)\<rparr>)\<rparr>))"

text \<open>
  \<^verbatim>\<open>DummyReader::take_\<close>. The result of \<^verbatim>\<open>get_payload\<close> is not looked at: for an empty sample
  it fails and the payload stays null with length zero.
\<close>

definition dummy_reader_take ::
    "malloc \<Rightarrow> data_received \<Rightarrow> 'cb dummy_reader \<times> fast_pool \<Rightarrow>
     return_code \<times> data_received \<times> 'cb dummy_reader \<times> fast_pool" where
  "dummy_reader_take malloc data re =
     (let r = fst re; p = snd re in
      case data_to_send r of
        [] \<Rightarrow> (RETCODE_NO_DATA, data, r, p)
      | d # rest \<Rightarrow>
         (let data1 = data\<lparr>dr_properties := (dr_properties data)\<lparr>source_guid := ddr_source_guid d\<rparr>\<rparr>;
              sz = of_nat (length (ddr_payload d));
              (p1, t1) = (case fast_get_payload (malloc (fast_heap p) sz) sz p (dr_payload data1) of
                            Inr (_, p', t') \<Rightarrow> (p', t') | Inl _ \<Rightarrow> (p, dr_payload data1));
              p2 = heap_write (ddr_payload d) t1 p1
          in (RETCODE_OK, data1\<lparr>dr_payload := t1\<lparr>payload_length := payload_max_size t1\<rparr>\<rparr>,
              r\<lparr>data_to_send := rest\<rparr>, p2)))"

section \<open>RTPS readers\<close>

record rtps_change =
  writerGUID :: guid
  change_seq :: sequence_number
  change_kind_of :: change_kind
  change_timestamp :: "64 word"
  change_handle :: instance_handle
  change_write_params :: write_params
  change_payload :: payload
  change_bytes :: "octet list"
  change_own_pool :: bool

record 'h rtps_reader_ops =
  get_unread_count :: "'h \<Rightarrow> 64 word"
  nextUntakenCache :: "'h \<Rightarrow> rtps_change option \<times> 'h"
  reader_remove_change :: "rtps_change \<Rightarrow> 'h \<Rightarrow> 'h"

record ('cb, 'h) common_reader = "'cb base_reader" +
  cr_guid :: guid
  cr_history :: 'h

definition come_from_this_participant :: "guid \<Rightarrow> ('cb, 'h) common_reader \<Rightarrow> bool" where
  "come_from_this_participant g r \<longleftrightarrow> guid_prefix_of g = guid_prefix_of (cr_guid r)"

definition is_data_correct :: "dds_topic \<Rightarrow> rtps_change \<Rightarrow> return_code" where
  "is_data_correct topic c =
     (if writerGUID c = guid_unknown then RETCODE_ERROR
      else if \<not> payload_max_size (change_payload c) > 0 then
        if \<not> (keyed topic \<and> change_kind_of c \<noteq> ALIVE) then RETCODE_ERROR else RETCODE_OK
      else RETCODE_OK)"

definition fill_received_data ::
    "malloc \<Rightarrow> participant_id \<Rightarrow> dds_topic \<Rightarrow> rtps_change \<Rightarrow> data_received \<Rightarrow> fast_pool \<Rightarrow>
     data_received \<times> fast_pool" where
  "fill_received_data malloc pid topic c data p =
     (let pr = (dr_properties data)\<lparr>source_guid := writerGUID c,
                 source_timestamp := change_timestamp c, participant_receiver := pid\<rparr>;
          (t1, p1) =
            (if payload_length (change_payload c) > 0 then
               (case fast_get_payload_from
                       (malloc (fast_heap p) (payload_max_size (change_payload c)))
                       (change_payload c) (change_bytes c) (change_own_pool c) p (dr_payload data) of
                  Inr (_, p', t') \<Rightarrow> (t', p') | Inl _ \<Rightarrow> (dr_payload data, p))
             else (dr_payload data, p));
          pr1 = (if keyed topic then pr\<lparr>instanceHandle := change_handle c\<rparr> else pr);
          pr2 = pr1\<lparr>dp_kind := change_kind_of c, dp_write_params := Some (change_write_params c),
                    origin_sequence_number := change_seq c\<rparr>
      in (data\<lparr>dr_payload := t1, dr_properties := pr2\<rparr>, p1))"

text \<open>
  \<^verbatim>\<open>CommonReader::take_\<close>; \<open>fill\<close> is the virtual \<^verbatim>\<open>fill_received_data_\<close>.
\<close>

definition common_reader_take ::
    "'h rtps_reader_ops \<Rightarrow>
     (rtps_change \<Rightarrow> ('cb, 'h) common_reader \<Rightarrow> data_received \<Rightarrow> 'e \<Rightarrow> data_received \<times> 'e) \<Rightarrow>
     data_received \<Rightarrow> ('cb, 'h) common_reader \<times> 'e \<Rightarrow>
     return_code \<times> data_received \<times> ('cb, 'h) common_reader \<times> 'e" where
  "common_reader_take H fill data re =
     (let r = fst re; e = snd re in
      if \<not> get_unread_count H (cr_history r) > 0 then (RETCODE_NO_DATA, data, r, e)
      else case nextUntakenCache H (cr_history r) of
          (None, h1) \<Rightarrow> (RETCODE_ERROR, data, r\<lparr>cr_history := h1\<rparr>, e)
        | (Some c, h1) \<Rightarrow>
           (let ret = is_data_correct (br_topic r) c;
                r1 = r\<lparr>cr_history := reader_remove_change H c h1\<rparr>
            in if \<not> ret_ok ret then (ret, data, r1, e)
               else let (data1, e1) = fill c r data e in (RETCODE_OK, data1, r1, e1)))"

definition common_reader_fill ::
    "malloc \<Rightarrow> rtps_change \<Rightarrow> ('cb, 'h) common_reader \<Rightarrow> data_received \<Rightarrow> fast_pool \<Rightarrow>
     data_received \<times> fast_pool" where
  "common_reader_fill malloc c r data p =
     fill_received_data malloc (br_participant_id r) (br_topic r) c data p"

definition specific_qos_reader_fill ::
    "malloc \<Rightarrow> ('q, 's) discovery_database \<Rightarrow> rtps_change \<Rightarrow> ('cb, 'h) common_reader \<Rightarrow>
     data_received \<Rightarrow> fast_pool \<Rightarrow> data_received \<times> fast_pool" where
  "specific_qos_reader_fill malloc db c r data p =
     (let (data1, p1) = common_reader_fill malloc c r data p
      in case db_get_endpoint (source_guid (dr_properties data1)) db of
           Inr e \<Rightarrow> (data1\<lparr>dr_properties := (dr_properties data1)\<lparr>writer_qos := ep_specific_qos e\<rparr>\<rparr>, p1)
         | Inl _ \<Rightarrow> (data1, p1))"

definition common_reader_enable_hook :: "('cb, 'h) common_reader \<Rightarrow> 'cb list" where
  "common_reader_enable_hook r =
     (if topic_qos_is_reliable (topic_qos_of (br_topic r)) then on_data_available r else [])"

definition onNewCacheChangeAdded ::
    "'h rtps_reader_ops \<Rightarrow> rtps_change \<Rightarrow> ('cb, 'h) common_reader \<Rightarrow> 'cb list \<times> ('cb, 'h) common_reader" where
  "onNewCacheChangeAdded H c r =
     (if \<not> come_from_this_participant (writerGUID c) r then
        if br_enabled r then (on_data_available r, r)
        else if \<not> topic_qos_is_reliable (topic_qos_of (br_topic r))
             then ([], r\<lparr>cr_history := reader_remove_change H c (cr_history r)\<rparr>)
             else ([], r)
      else ([], r\<lparr>cr_history := reader_remove_change H c (cr_history r)\<rparr>))"

section \<open>RTPS attributes of a reader\<close>

datatype topic_kind = WITH_KEY | NO_KEY

record reader_attributes =
  ra_durability :: durability_kind
  ra_reliability :: reliability_kind
  ra_topic_kind :: topic_kind

record reader_qos =
  rq_transient_local :: bool
  rq_reliable :: bool
  rq_partitions :: "string list"
  rq_ownership :: ownership_kind

record topic_attributes =
  ta_topic_kind :: topic_kind
  ta_topic_name :: string
  ta_type_name :: string
  ta_keep_last_depth :: "32 word option"

definition reader_history_depth :: "dds_topic \<Rightarrow> 32 word" where
  "reader_history_depth topic = history_depth (topic_qos_of topic)"

definition reader_attributes_of :: "dds_topic \<Rightarrow> reader_attributes" where
  "reader_attributes_of topic =
     \<lparr>ra_durability = durability_qos (topic_qos_of topic),
      ra_reliability = reliability_qos (topic_qos_of topic),
      ra_topic_kind = (if keyed topic then WITH_KEY else NO_KEY)\<rparr>"

definition reader_topic_attributes_of :: "dds_topic \<Rightarrow> topic_attributes" where
  "reader_topic_attributes_of topic =
     \<lparr>ta_topic_kind = (if keyed topic then WITH_KEY else NO_KEY),
      ta_topic_name = topic_name topic, ta_type_name = type_name topic,
      ta_keep_last_depth = Some (history_depth (topic_qos_of topic))\<rparr>"

definition reader_qos_of :: "dds_topic \<Rightarrow> reader_qos" where
  "reader_qos_of topic =
     \<lparr>rq_transient_local = topic_qos_is_transient_local (topic_qos_of topic),
      rq_reliable = topic_qos_is_reliable (topic_qos_of topic),
      rq_partitions = (if use_partitions (topic_qos_of topic) then [''*''] else []),
      rq_ownership = ownership_qos (topic_qos_of topic)\<rparr>"

section \<open>Lemmas\<close>

lemma base_reader_disable_simps [simp]:
  "br_enabled (base_reader_disable r) = False"
  "br_topic (base_reader_disable r) = br_topic r"
  "br_on_data_available (base_reader_disable r) = br_on_data_available r"
  by (auto simp: base_reader_disable_def)

lemma base_reader_enable_simps [simp]:
  "br_enabled (snd (base_reader_enable hook r))"
  "br_topic (snd (base_reader_enable hook r)) = br_topic r"
  by (auto simp: base_reader_enable_def Let_def)

lemma dummy_take_fifo:
  assumes "data_to_send r = d # rest"
  shows "\<exists>data' p'. dummy_reader_take malloc data (r, p) =
    (RETCODE_OK, data', r\<lparr>data_to_send := rest\<rparr>, p') \<and>
    source_guid (dr_properties data') = ddr_source_guid d"
  using assms by (simp add: dummy_reader_take_def Let_def case_prod_unfold)

end
