(* ===== verification/Writers.thy ===== *)
theory Writers
  imports Readers
begin

text \<open>
  The writers (\<^verbatim>\<open>writer/implementations\<close>): the state machine of \<^verbatim>\<open>BaseWriter\<close>, the blank, echo
  and dummy writers, the filters an RTPS writer installs, the RTPS writer over the operations of its
  RTPS history (Fast DDS, a record of functions), and the multi-writer, which keeps one RTPS writer
  per specific quality of service.
\<close>

section \<open>Base writer\<close>

record base_writer =
  bw_participant_id :: participant_id
  bw_topic :: dds_topic
  bw_enabled :: bool

definition base_writer_new :: "participant_id \<Rightarrow> dds_topic \<Rightarrow> base_writer" where
  "base_writer_new p t = \<lparr>bw_participant_id = p, bw_topic = t, bw_enabled = False\<rparr>"

definition base_writer_enable ::
    "('x base_writer_scheme \<Rightarrow> 'x base_writer_scheme) \<Rightarrow> 'x base_writer_scheme \<Rightarrow> 'x base_writer_scheme" where
  "base_writer_enable enable_hook w =
     (if \<not> bw_enabled w then enable_hook (w\<lparr>bw_enabled := True\<rparr>) else w)"

definition base_writer_disable ::
    "('x base_writer_scheme \<Rightarrow> 'x base_writer_scheme) \<Rightarrow> 'x base_writer_scheme \<Rightarrow> 'x base_writer_scheme" where
  "base_writer_disable disable_hook w =
     (if bw_enabled w then disable_hook (w\<lparr>bw_enabled := False\<rparr>) else w)"

definition base_writer_write ::
    "(data_received \<Rightarrow> 'x base_writer_scheme \<times> 'e \<Rightarrow>
        return_code \<times> data_received \<times> 'x base_writer_scheme \<times> 'e) \<Rightarrow>
     data_received \<Rightarrow> 'x base_writer_scheme \<times> 'e \<Rightarrow>
        return_code \<times> data_received \<times> 'x base_writer_scheme \<times> 'e" where
  "base_writer_write write_hook data we =
     (if bw_enabled (fst we) then write_hook data we
      else (RETCODE_NOT_ENABLED, data, fst we, snd we))"

section \<open>Blank, echo and dummy writers\<close>

definition blank_writer_write :: "data_received \<Rightarrow> 'w \<times> 'e \<Rightarrow> return_code \<times> data_received \<times> 'w \<times> 'e" where
  "blank_writer_write data we = (RETCODE_OK, data, fst we, snd we)"

datatype echo_entry =
    EchoShort participant_id dds_topic
  | EchoVerbose guid participant_id dds_topic payload specific_endpoint_qos

record echo_writer =
  ew_topic :: dds_topic
  ew_verbose :: bool
  ew_log :: "echo_entry list"

definition echo_writer_write ::
    "data_received \<Rightarrow> echo_writer \<times> 'e \<Rightarrow> return_code \<times> data_received \<times> echo_writer \<times> 'e" where
  "echo_writer_write data we =
     (let w = fst we; pr = dr_properties data;
          entry = (if \<not> ew_verbose w then EchoShort (participant_receiver pr) (ew_topic w)
                   else EchoVerbose (source_guid pr) (participant_receiver pr) (ew_topic w)
                          (dr_payload data) (writer_qos pr))
      in (RETCODE_OK, data, w\<lparr>ew_log := ew_log w @ [entry]\<rparr>, snd we))"

record dummy_data_stored =
  dds_timestamp :: nat
  dds_payload :: "octet list"
  dds_source_guid :: guid

record dummy_writer = base_writer +
  data_stored :: "dummy_data_stored list"

text \<open>The bytes a payload refers to: the first \<^verbatim>\<open>length\<close> bytes behind its data pointer.\<close>

definition payload_bytes :: "fast_pool \<Rightarrow> payload \<Rightarrow> octet list" where
  "payload_bytes p t =
     (case payload_data t of
        None \<Rightarrow> []
      | Some a \<Rightarrow> (case fast_heap p a of
                     None \<Rightarrow> []
                   | Some b \<Rightarrow> take (unat (payload_length t)) (block_bytes b)))"

definition dummy_writer_write ::
    "nat \<Rightarrow> data_received \<Rightarrow> dummy_writer \<times> fast_pool \<Rightarrow>
     return_code \<times> data_received \<times> dummy_writer \<times> fast_pool" where
  "dummy_writer_write now data we =
     (let w = fst we; p = snd we;
          d = \<lparr>dds_timestamp = now, dds_payload = payload_bytes p (dr_payload data),
               dds_source_guid = source_guid (dr_properties data)\<rparr>
      in (RETCODE_OK, data, w\<lparr>data_stored := data_stored w @ [d]\<rparr>, p))"

definition dummy_wait_condition :: "nat \<Rightarrow> dummy_writer \<Rightarrow> bool" where
  "dummy_wait_condition n w \<longleftrightarrow> length (data_stored w) \<ge> n"

section \<open>Filters\<close>

record router_cache_change = rtps_change +
  last_writer_guid_prefix :: guid_prefix

definition self_data_filter_is_relevant :: "'x rtps_change_scheme \<Rightarrow> guid \<Rightarrow> bool" where
  "self_data_filter_is_relevant change reader_guid \<longleftrightarrow>
     guid_prefix_of (writerGUID change) \<noteq> guid_prefix_of reader_guid"

definition repeater_data_filter_is_relevant :: "router_cache_change \<Rightarrow> guid \<Rightarrow> bool" where
  "repeater_data_filter_is_relevant change reader_guid =
     (if \<not> self_data_filter_is_relevant change reader_guid then False
      else last_writer_guid_prefix change \<noteq> guid_prefix_of reader_guid)"

definition writer_data_filter_is_relevant :: "bool \<Rightarrow> router_cache_change \<Rightarrow> guid \<Rightarrow> bool" where
  "writer_data_filter_is_relevant repeater change reader_guid =
     (if repeater then repeater_data_filter_is_relevant change reader_guid
      else self_data_filter_is_relevant change reader_guid)"

section \<open>RTPS writer\<close>

text \<open>
  The operations of the RTPS writer and its history. \<^verbatim>\<open>new_change\<close> may fail; \<^verbatim>\<open>add_change\<close>
  returns the write parameters it has filled in.
\<close>

record 'h rtps_writer_ops =
  new_change :: "change_kind \<Rightarrow> instance_handle option \<Rightarrow> 'h \<Rightarrow> router_cache_change option \<times> 'h"
  add_change :: "router_cache_change \<Rightarrow> write_params \<Rightarrow> 'h \<Rightarrow> write_params \<times> 'h"
  writer_remove_change :: "router_cache_change \<Rightarrow> 'h \<Rightarrow> 'h"
  isFull :: "'h \<Rightarrow> bool"
  remove_min_change :: "'h \<Rightarrow> 'h"

record 'h common_writer = base_writer +
  cw_repeater :: bool
  cw_history :: 'h

definition fill_to_send_data ::
    "bool \<Rightarrow> dds_topic \<Rightarrow> router_cache_change \<Rightarrow> write_params \<Rightarrow> data_received \<Rightarrow> fast_pool \<Rightarrow>
     return_code \<times> router_cache_change \<times> write_params \<times> fast_pool" where
  "fill_to_send_data repeater topic change params data p =
     (let pr = dr_properties data;
          c1 = (if repeater then change\<lparr>last_writer_guid_prefix := guid_prefix_of (source_guid pr)\<rparr>
                else change);
          c2 = (if keyed topic then c1\<lparr>change_handle := instanceHandle pr\<rparr> else c1);
          (ok, c3, p1) =
            (if payload_length (dr_payload data) > 0 then
               (case fast_get_payload_from None (dr_payload data) [] True p (change_payload c2) of
                  Inr (ok, p', t') \<Rightarrow> (ok, c2\<lparr>change_payload := t', change_own_pool := True\<rparr>, p')
                | Inl _ \<Rightarrow> (False, c2, p))
             else (True, c2, p))
      in if \<not> ok then (RETCODE_ERROR, c3, params, p1)
         else let params1 = params\<lparr>wp_source_timestamp := source_timestamp pr\<rparr>
              in (RETCODE_OK, c3\<lparr>change_kind_of := dp_kind pr\<rparr>,
                  (case dp_write_params pr of
                     None \<Rightarrow> params1
                   | Some wp \<Rightarrow> params1\<lparr>wp_related_sample_identity := wp_related_sample_identity wp\<rparr>),
                  p1))"

definition common_writer_write ::
    "'h rtps_writer_ops \<Rightarrow> data_received \<Rightarrow> 'h common_writer \<times> fast_pool \<Rightarrow>
     return_code \<times> data_received \<times> 'h common_writer \<times> fast_pool" where
  "common_writer_write H data we =
     (let w = fst we; p = snd we; topic = bw_topic w in
      case new_change H ALIVE (if keyed topic then Some (instanceHandle (dr_properties data)) else None)
             (cw_history w) of
        (None, h1) \<Rightarrow> (RETCODE_ERROR, data, w\<lparr>cw_history := h1\<rparr>, p)
      | (Some change, h1) \<Rightarrow>
         (let (ret, c1, params, p1) =
                fill_to_send_data (cw_repeater w) topic change write_params_default data p
          in if \<not> ret_ok ret then (ret, data, w\<lparr>cw_history := h1\<rparr>, p1)
             else let (params', h2) = add_change H c1 params h1;
                      data' = data\<lparr>sent_sequence_number := sequence_no (wp_sample_identity params')\<rparr>;
                      h3 = (if \<not> topic_qos_is_reliable (topic_qos_of topic)
                            then writer_remove_change H c1 h2
                            else if isFull H h2 then remove_min_change H h2 else h2)
                  in (RETCODE_OK, data', w\<lparr>cw_history := h3\<rparr>, p1)))"

record writer_qos_attributes =
  wq_transient_local :: bool
  wq_reliable :: bool
  wq_partitions :: "string list"
  wq_ownership :: ownership_kind
  wq_ownership_strength :: "32 word"

definition common_writer_qos_of :: "dds_topic \<Rightarrow> writer_qos_attributes" where
  "common_writer_qos_of topic =
     \<lparr>wq_transient_local = topic_qos_is_transient_local (topic_qos_of topic),
      wq_reliable = topic_qos_is_reliable (topic_qos_of topic),
      wq_partitions = [], wq_ownership = SHARED_OWNERSHIP_QOS, wq_ownership_strength = 0\<rparr>"

definition specific_writer_qos_of :: "specific_endpoint_qos \<Rightarrow> dds_topic \<Rightarrow> writer_qos_attributes" where
  "specific_writer_qos_of specific_qos topic =
     (let qos = common_writer_qos_of topic;
          qos1 = (if topic_qos_has_partitions (topic_qos_of topic)
                  then qos\<lparr>wq_partitions := partitions specific_qos\<rparr> else qos)
      in if topic_qos_has_ownership (topic_qos_of topic)
         then qos1\<lparr>wq_ownership := ownership_qos (topic_qos_of topic),
                   wq_ownership_strength := ownership_strength specific_qos\<rparr>
         else qos1)"

definition writer_attributes_of :: "dds_topic \<Rightarrow> reader_attributes" where
  "writer_attributes_of topic =
     \<lparr>ra_durability = durability_qos (topic_qos_of topic),
      ra_reliability = reliability_qos (topic_qos_of topic),
      ra_topic_kind = (if keyed topic then WITH_KEY else NO_KEY)\<rparr>"

definition writer_topic_attributes_of :: "dds_topic \<Rightarrow> topic_attributes" where
  "writer_topic_attributes_of topic =
     \<lparr>ta_topic_kind = (if keyed topic then WITH_KEY else NO_KEY),
      ta_topic_name = topic_name topic, ta_type_name = type_name topic,
      ta_keep_last_depth = None\<rparr>"

record pool_configuration =
  pc_initial_size :: nat
  pc_maximum_size :: "32 word"
  pc_batch_size :: nat

definition cache_change_pool_configuration :: "dds_topic \<Rightarrow> pool_configuration" where
  "cache_change_pool_configuration topic =
     \<lparr>pc_initial_size = 20, pc_maximum_size = history_depth (topic_qos_of topic), pc_batch_size = 20\<rparr>"

section \<open>Multi-writer\<close>

record 'h multi_writer = base_writer +
  mw_repeater :: bool
  writers_map :: "(specific_endpoint_qos, 'h common_writer) smap"

definition multi_writer_enable_hook :: "'h multi_writer \<Rightarrow> 'h multi_writer" where
  "multi_writer_enable_hook w =
     w\<lparr>writers_map := map (\<lambda>e. (fst e, base_writer_enable id (snd e))) (writers_map w)\<rparr>"

definition multi_writer_disable_hook :: "'h multi_writer \<Rightarrow> 'h multi_writer" where
  "multi_writer_disable_hook w =
     w\<lparr>writers_map := map (\<lambda>e. (fst e, base_writer_disable id (snd e))) (writers_map w)\<rparr>"

definition exist_partition :: "specific_endpoint_qos \<Rightarrow> 'h multi_writer \<Rightarrow> bool" where
  "exist_partition data_qos w \<longleftrightarrow> smap_find specific_qos_key data_qos (writers_map w) \<noteq> None"

text \<open>\<open>new_history\<close> is the RTPS writer that \<^verbatim>\<open>init\<close> creates for a quality of service; creation may fail.\<close>

definition multi_create_writer_nts ::
    "(specific_endpoint_qos \<Rightarrow> 'h result) \<Rightarrow> specific_endpoint_qos \<Rightarrow> 'h multi_writer \<Rightarrow>
     'h common_writer result" where
  "multi_create_writer_nts new_history data_qos w =
     rbind (new_history data_qos) (\<lambda>h.
       Inr \<lparr>bw_participant_id = bw_participant_id w, bw_topic = bw_topic w, bw_enabled = False,
            cw_repeater = mw_repeater w, cw_history = h\<rparr>)"

definition multi_get_writer_or_create ::
    "(specific_endpoint_qos \<Rightarrow> 'h result) \<Rightarrow> specific_endpoint_qos \<Rightarrow> 'h multi_writer \<Rightarrow>
     ('h common_writer \<times> 'h multi_writer) result" where
  "multi_get_writer_or_create new_history data_qos w =
     (case smap_find specific_qos_key data_qos (writers_map w) of
        Some cw \<Rightarrow> Inr (cw, w)
      | None \<Rightarrow>
          rbind (multi_create_writer_nts new_history data_qos w) (\<lambda>cw.
            let cw' = (if bw_enabled w then base_writer_enable id cw else cw)
            in Inr (cw', w\<lparr>writers_map := smap_set specific_qos_key data_qos cw' (writers_map w)\<rparr>)))"

definition multi_writer_write ::
    "'h rtps_writer_ops \<Rightarrow> (specific_endpoint_qos \<Rightarrow> 'h result) \<Rightarrow> data_received \<Rightarrow>
     'h multi_writer \<times> fast_pool \<Rightarrow>
     (return_code \<times> data_received \<times> 'h multi_writer \<times> fast_pool) result" where
  "multi_writer_write H new_history data we =
     (let q = writer_qos (dr_properties data) in
      rbind (multi_get_writer_or_create new_history q (fst we)) (\<lambda>(cw, w').
        let (ret, data', cw', p') = base_writer_write (common_writer_write H) data (cw, snd we)
        in Inr (ret, data',
                w'\<lparr>writers_map := smap_set specific_qos_key q cw' (writers_map w')\<rparr>, p')))"

section \<open>Lemmas\<close>

definition multi_writer_ok :: "'h multi_writer \<Rightarrow> bool" where
  "multi_writer_ok w \<longleftrightarrow> smap_ok specific_qos_key (writers_map w) \<and>
     list_all (\<lambda>e. bw_enabled (snd e) = bw_enabled w \<and> bw_topic (snd e) = bw_topic w \<and>
                   bw_participant_id (snd e) = bw_participant_id w \<and>
                   cw_repeater (snd e) = mw_repeater w) (writers_map w)"

lemma base_writer_enable_id_simps [simp]:
  "bw_enabled (base_writer_enable id w)"
  "bw_topic (base_writer_enable id w) = bw_topic w"
  "bw_participant_id (base_writer_enable id w) = bw_participant_id w"
  by (auto simp: base_writer_enable_def)

lemma base_writer_disable_id_simps [simp]:
  "bw_enabled (base_writer_disable id w) = False"
  "bw_topic (base_writer_disable id w) = bw_topic w"
  "bw_participant_id (base_writer_disable id w) = bw_participant_id w"
  by (auto simp: base_writer_disable_def)

lemma cw_repeater_enable [simp]:
  "cw_repeater (base_writer_enable id w) = cw_repeater w"
  "cw_repeater (base_writer_disable id w) = cw_repeater w"
  by (auto simp: base_writer_enable_def base_writer_disable_def)

lemma smap_ok_map_values: "smap_ok key (map (\<lambda>e. (fst e, f (snd e))) m) = smap_ok key m"
  by (simp add: smap_ok_def comp_def)

lemma multi_writer_ok_enable:
  "multi_writer_ok w \<Longrightarrow> multi_writer_ok (base_writer_enable multi_writer_enable_hook w)"
  by (cases "bw_enabled w")
    (auto simp: multi_writer_ok_def base_writer_enable_def [of multi_writer_enable_hook]
      multi_writer_enable_hook_def smap_ok_map_values list_all_iff)

lemma multi_writer_ok_disable:
  "multi_writer_ok w \<Longrightarrow> multi_writer_ok (base_writer_disable multi_writer_disable_hook w)"
  by (cases "bw_enabled w")
    (auto simp: multi_writer_ok_def base_writer_disable_def [of multi_writer_disable_hook]
      multi_writer_disable_hook_def smap_ok_map_values list_all_iff)

lemma list_all_smap_set:
  "list_all (\<lambda>e. P (snd e)) m \<Longrightarrow> P v \<Longrightarrow> list_all (\<lambda>e. P (snd e)) (smap_set key k v m)"
  by (induction m) auto

lemma multi_get_ok:
  assumes "multi_writer_ok w" and "multi_get_writer_or_create new_history q w = Inr (cw, w')"
  shows "multi_writer_ok w' \<and> smap_find specific_qos_key q (writers_map w') = Some cw \<and>
    bw_enabled cw = bw_enabled w \<and> bw_topic cw = bw_topic w \<and>
    bw_participant_id cw = bw_participant_id w \<and> cw_repeater cw = mw_repeater w \<and>
    bw_enabled w' = bw_enabled w \<and> bw_topic w' = bw_topic w \<and>
    bw_participant_id w' = bw_participant_id w \<and> mw_repeater w' = mw_repeater w"
proof (cases "smap_find specific_qos_key q (writers_map w)")
  case (Some c)
  with assms(2) have "cw = c" "w' = w" by (auto simp: multi_get_writer_or_create_def)
  moreover obtain k where "(k, c) \<in> set (writers_map w)"
    using smap_find_SomeD [OF Some] by blast
  ultimately show ?thesis
    using assms(1) Some unfolding multi_writer_ok_def list_all_iff by fastforce
next
  case None
  then obtain h where
    cw: "cw = (let c = \<lparr>bw_participant_id = bw_participant_id w, bw_topic = bw_topic w,
              bw_enabled = False, cw_repeater = mw_repeater w, cw_history = h\<rparr>
          in if bw_enabled w then base_writer_enable id c else c)"
    and w': "w' = w\<lparr>writers_map := smap_set specific_qos_key q cw (writers_map w)\<rparr>"
    using assms(2)
    by (auto simp: multi_get_writer_or_create_def multi_create_writer_nts_def rbind_eq_Inr_iff Let_def)
  have "bw_enabled cw = bw_enabled w \<and> bw_topic cw = bw_topic w \<and>
    bw_participant_id cw = bw_participant_id w \<and> cw_repeater cw = mw_repeater w"
    unfolding cw Let_def by simp
  with assms(1) show ?thesis
    unfolding w' multi_writer_ok_def by (auto intro!: list_all_smap_set)
qed

lemma common_writer_write_frame:
  assumes "base_writer_write (common_writer_write H) data (cw, p) = (ret, data', cw', p')"
  shows "bw_enabled cw' = bw_enabled cw \<and> bw_topic cw' = bw_topic cw \<and>
    bw_participant_id cw' = bw_participant_id cw \<and> cw_repeater cw' = cw_repeater cw"
  using assms
  by (auto simp: base_writer_write_def common_writer_write_def Let_def case_prod_unfold
      split: if_splits option.splits prod.splits)

lemma multi_writer_ok_write:
  assumes "multi_writer_ok w" and "multi_writer_write H new_history data (w, p) = Inr (ret, data', w', p')"
  shows "multi_writer_ok w' \<and> bw_enabled w' = bw_enabled w"
proof -
  let ?q = "writer_qos (dr_properties data)"
  obtain cw w1 where get: "multi_get_writer_or_create new_history ?q w = Inr (cw, w1)"
    using assms(2) by (auto simp: multi_writer_write_def rbind_eq_Inr_iff Let_def)
  obtain r d c e where wr: "base_writer_write (common_writer_write H) data (cw, p) = (r, d, c, e)"
    by (metis prod_cases4)
  have w': "w' = w1\<lparr>writers_map := smap_set specific_qos_key ?q c (writers_map w1)\<rparr>"
    using assms(2) get wr by (simp add: multi_writer_write_def)
  note g = multi_get_ok [OF assms(1) get] and f = common_writer_write_frame [OF wr]
  then show ?thesis
    unfolding w' multi_writer_ok_def by (auto intro!: list_all_smap_set)
qed

lemma repeater_filter_iff:
  "repeater_data_filter_is_relevant c g \<longleftrightarrow>
     guid_prefix_of g \<noteq> guid_prefix_of (writerGUID c) \<and> guid_prefix_of g \<noteq> last_writer_guid_prefix c"
  by (auto simp: repeater_data_filter_is_relevant_def self_data_filter_is_relevant_def)

section \<open>Properties\<close>


definition silent_writer_ops :: "unit rtps_writer_ops" where
  "silent_writer_ops =
     \<lparr>new_change = (\<lambda>k i h. (None, h)), add_change = (\<lambda>c p h. (p, h)), writer_remove_change = (\<lambda>c h. h),
      isFull = (\<lambda>h. False), remove_min_change = (\<lambda>h. h)\<rparr>"

definition sample_multi_writer :: "unit multi_writer" where
  "sample_multi_writer =
     \<lparr>bw_participant_id = PId ''p'', bw_topic = dds_topic_of_names 1 ''t'' ''T'', bw_enabled = True,
      mw_repeater = False, writers_map = []\<rparr>"


end
