(* ===== verification/Participants_Database.thy ===== *)
theory Participants_Database
  imports Dds_Types
begin

text \<open>
  The database of participants (\<^verbatim>\<open>core/ParticipantsDatabase\<close>), a map from ids to participant
  objects. \<open>'p\<close> is the participant, or its reference; \<open>is_rtps_kind\<close> its virtual function.
\<close>

section \<open>Operations\<close>

type_synonym 'p participants_database = "(participant_id, 'p) smap"

definition pdb_get_participant :: "participant_id \<Rightarrow> 'p participants_database \<Rightarrow> 'p option" where
  "pdb_get_participant pid db = smap_find id pid db"

definition pdb_get_participants_ids :: "'p participants_database \<Rightarrow> participant_id list" where
  "pdb_get_participants_ids db = fold (\<lambda>e. sset_insert id (fst e)) db []"

definition pdb_get_rtps_participants_ids ::
    "('p \<Rightarrow> bool) \<Rightarrow> 'p participants_database \<Rightarrow> participant_id list" where
  "pdb_get_rtps_participants_ids is_rtps_kind db =
     fold (\<lambda>e s. if is_rtps_kind (snd e) then sset_insert id (fst e) s else s) db []"

definition pdb_get_participants_map :: "'p participants_database \<Rightarrow> (participant_id, 'p) smap" where
  "pdb_get_participants_map db = db"

definition pdb_empty :: "'p participants_database \<Rightarrow> bool" where
  "pdb_empty db \<longleftrightarrow> db = []"

definition pdb_size :: "'p participants_database \<Rightarrow> nat" where
  "pdb_size db = length db"

definition pdb_add_participant ::
    "participant_id \<Rightarrow> 'p \<Rightarrow> 'p participants_database \<Rightarrow> 'p participants_database result" where
  "pdb_add_participant pid participant db =
     (case smap_find id pid db of
        Some _ \<Rightarrow> Inl InconsistencyException
      | None \<Rightarrow> Inr (smap_set id pid participant db))"

definition pdb_pop ::
    "participant_id \<Rightarrow> 'p participants_database \<Rightarrow> 'p option \<times> 'p participants_database" where
  "pdb_pop pid db =
     (case smap_find id pid db of
        None \<Rightarrow> (None, db)
      | Some participant \<Rightarrow> (Some participant, smap_erase id pid db))"

definition pdb_pop_any :: "'p participants_database \<Rightarrow> 'p option \<times> 'p participants_database" where
  "pdb_pop_any db = (case db of [] \<Rightarrow> (None, db) | e # _ \<Rightarrow> pdb_pop (fst e) db)"

text \<open>The loop of the router destructor: pop until the database is empty.\<close>

function pdb_pop_all :: "'p participants_database \<Rightarrow> 'p list" where
  "pdb_pop_all db =
     (if pdb_empty db then []
      else case pdb_pop_any db of
        (None, db') \<Rightarrow> []
      | (Some p, db') \<Rightarrow> p # pdb_pop_all db')"
  by pat_completeness auto

section \<open>Lemmas\<close>

lemma smap_erase_hd_length: "length (smap_erase key (fst e) (e # m)) \<le> length m"
  by (simp add: smap_erase_def le_trans [OF length_filter_le])

lemma pdb_pop_any_shrinks:
  assumes "(Some p, db') = pdb_pop_any db"
  shows "length db' < length db"
proof -
  obtain e m where db: "db = e # m" using assms by (cases db) (auto simp: pdb_pop_any_def)
  have "db' = smap_erase id (fst e) db"
    using assms db by (cases e) (auto simp: pdb_pop_any_def pdb_pop_def)
  then show ?thesis
    using smap_erase_hd_length [of id e m] db by simp
qed

termination pdb_pop_all
  by (relation "measure length") (auto intro: pdb_pop_any_shrinks)

declare pdb_pop_all.simps [simp del]

lemma fold_sset_insert_sorted:
  "sorted_wrt (<) (acc @ xs) \<Longrightarrow> fold (sset_insert id) xs acc = acc @ (xs :: 'a :: linorder list)"
proof (induction xs arbitrary: acc)
  case (Cons x xs)
  have "\<forall>y\<in>set acc. y < x \<Longrightarrow> sset_insert id x acc = acc @ [x]"
    by (induction acc) auto
  moreover have "\<forall>y\<in>set acc. y < x" using Cons.prems by (auto simp: sorted_wrt_append)
  ultimately have "sset_insert id x acc = acc @ [x]" by blast
  moreover have "fold (sset_insert id) xs (acc @ [x]) = acc @ x # xs"
    using Cons.IH [of "acc @ [x]"] Cons.prems by (simp only: append.simps append_assoc)
  ultimately show ?case by (simp only: fold_simps)
qed simp

lemma pdb_ids_eq: "smap_ok id db \<Longrightarrow> pdb_get_participants_ids db = map fst db"
proof -
  assume ok: "smap_ok id db"
  have "fold (\<lambda>e. sset_insert id (fst e)) db [] = fold (sset_insert id) (map fst db) []"
    by (simp add: fold_map comp_def)
  also have "\<dots> = map fst db"
    using fold_sset_insert_sorted [of "[]" "map fst db"] ok by (simp add: smap_ok_def)
  finally show ?thesis by (simp add: pdb_get_participants_ids_def)
qed

lemma pdb_rtps_ids_eq:
  assumes "smap_ok id db"
  shows "pdb_get_rtps_participants_ids rtps db = map fst (filter (\<lambda>e. rtps (snd e)) db)"
proof -
  have "fold (\<lambda>e s. if rtps (snd e) then sset_insert id (fst e) s else s) db acc
      = fold (sset_insert id) (map fst (filter (\<lambda>e. rtps (snd e)) db)) acc" for acc
    by (induction db arbitrary: acc) auto
  moreover have "sorted_wrt (<) (map fst (filter (\<lambda>e. rtps (snd e)) db))"
    using assms by (induction db) (auto simp: smap_ok_def)
  ultimately show ?thesis
    using fold_sset_insert_sorted [of "[]"] by (simp add: pdb_get_rtps_participants_ids_def)
qed

lemma pdb_pop_all_values: "smap_ok id db \<Longrightarrow> pdb_pop_all db = map snd db"
proof (induction db)
  case Nil
  then show ?case by (subst pdb_pop_all.simps) (simp add: pdb_empty_def)
next
  case (Cons e m)
  obtain k v where e: "e = (k, v)" by fastforce
  have "filter (\<lambda>x. fst x \<noteq> k) m = m"
    using Cons.prems unfolding e by (auto simp: filter_id_conv smap_ok_Cons)
  then have "smap_erase id k (e # m) = m" unfolding e by (simp add: smap_erase_def)
  then have "pdb_pop_any (e # m) = (Some v, m)"
    unfolding e by (simp add: pdb_pop_any_def pdb_pop_def)
  with Cons show ?case
    unfolding e by (subst pdb_pop_all.simps) (simp add: pdb_empty_def smap_ok_Cons)
qed

end
