(* ===== verification/Participants.thy ===== *)
theory Participants
  imports Writers Participants_Database
begin

text \<open>
  The participants (\<^verbatim>\<open>participant/implementations\<close> and \<^verbatim>\<open>core/ParticipantFactory\<close>). Readers and
  writers are objects shared between the participant that created them, the bridge and its tracks:
  they live in a store and everybody else holds references to it. Their virtual functions dispatch
  on the class of the object. Creating an RTPS entity is Fast DDS code, a field of the parameter
  record \<open>rtps_env\<close>, and may fail.
\<close>

section \<open>Reader and writer objects\<close>

type_synonym ref = nat

datatype 'h writer_object =
    WO_blank
  | WO_echo echo_writer
  | WO_dummy dummy_writer
  | WO_simple "'h common_writer"
  | WO_multi "'h multi_writer"

datatype ('cb, 'h) reader_object =
    RO_blank
  | RO_dummy "'cb dummy_reader"
  | RO_simple "('cb, 'h) common_reader"
  | RO_specific "('cb, 'h) common_reader"

record ('cb, 'hr, 'hw) object_store =
  next_ref :: ref
  writer_at :: "ref \<rightharpoonup> 'hw writer_object"
  reader_at :: "ref \<rightharpoonup> ('cb, 'hr) reader_object"

definition object_store_empty :: "('cb, 'hr, 'hw) object_store" where
  "object_store_empty = \<lparr>next_ref = 0, writer_at = Map.empty, reader_at = Map.empty\<rparr>"

definition store_new_writer ::
    "'hw writer_object \<Rightarrow> ('cb, 'hr, 'hw) object_store \<Rightarrow> ref \<times> ('cb, 'hr, 'hw) object_store" where
  "store_new_writer w st =
     (next_ref st, st\<lparr>next_ref := next_ref st + 1, writer_at := (writer_at st)(next_ref st \<mapsto> w)\<rparr>)"

definition store_new_reader ::
    "('cb, 'hr) reader_object \<Rightarrow> ('cb, 'hr, 'hw) object_store \<Rightarrow> ref \<times> ('cb, 'hr, 'hw) object_store" where
  "store_new_reader r st =
     (next_ref st, st\<lparr>next_ref := next_ref st + 1, reader_at := (reader_at st)(next_ref st \<mapsto> r)\<rparr>)"

record ('q, 's, 'hr, 'hw) rtps_env =
  env_reader_ops :: "'hr rtps_reader_ops"
  env_writer_ops :: "'hw rtps_writer_ops"
  env_new_rtps_writer :: "participant_id \<Rightarrow> dds_topic \<Rightarrow> writer_qos_attributes \<Rightarrow> 'hw option"
  env_register_writer :: "participant_id \<Rightarrow> dds_topic \<Rightarrow> writer_qos_attributes \<Rightarrow> bool"
  env_new_rtps_reader :: "participant_id \<Rightarrow> dds_topic \<Rightarrow> reader_qos \<Rightarrow> (guid \<times> 'hr) option"
  env_register_reader :: "participant_id \<Rightarrow> dds_topic \<Rightarrow> reader_qos \<Rightarrow> bool"
  env_malloc :: malloc
  env_now :: nat
  env_database :: "('q, 's) discovery_database"

text \<open>\<^verbatim>\<open>CommonWriter::internal_entities_creation_\<close> and the same function of the reader.\<close>

definition writer_entities_creation ::
    "('q, 's, 'hr, 'hw) rtps_env \<Rightarrow> participant_id \<Rightarrow> dds_topic \<Rightarrow> writer_qos_attributes \<Rightarrow> 'hw result" where
  "writer_entities_creation E pid topic qos =
     (case env_new_rtps_writer E pid topic qos of
        None \<Rightarrow> Inl InitializationException
      | Some h \<Rightarrow> if \<not> env_register_writer E pid topic qos then Inl InitializationException else Inr h)"

definition reader_entities_creation ::
    "('q, 's, 'hr, 'hw) rtps_env \<Rightarrow> participant_id \<Rightarrow> dds_topic \<Rightarrow> reader_qos \<Rightarrow> (guid \<times> 'hr) result" where
  "reader_entities_creation E pid topic qos =
     (case env_new_rtps_reader E pid topic qos of
        None \<Rightarrow> Inl InitializationException
      | Some gh \<Rightarrow> if \<not> env_register_reader E pid topic qos then Inl InitializationException else Inr gh)"

fun iwriter_enable :: "'h writer_object \<Rightarrow> 'h writer_object" where
  "iwriter_enable WO_blank = WO_blank"
| "iwriter_enable (WO_echo w) = WO_echo w"
| "iwriter_enable (WO_dummy w) = WO_dummy (base_writer_enable id w)"
| "iwriter_enable (WO_simple w) = WO_simple (base_writer_enable id w)"
| "iwriter_enable (WO_multi w) = WO_multi (base_writer_enable multi_writer_enable_hook w)"

fun iwriter_disable :: "'h writer_object \<Rightarrow> 'h writer_object" where
  "iwriter_disable WO_blank = WO_blank"
| "iwriter_disable (WO_echo w) = WO_echo w"
| "iwriter_disable (WO_dummy w) = WO_dummy (base_writer_disable id w)"
| "iwriter_disable (WO_simple w) = WO_simple (base_writer_disable id w)"
| "iwriter_disable (WO_multi w) = WO_multi (base_writer_disable multi_writer_disable_hook w)"

text \<open>
  Whether a write goes through: blank and echo writers do not look at the switch. The virtual
  \<^verbatim>\<open>write\<close> is \<^verbatim>\<open>noexcept\<close>: an error of the multi-writer while it creates an inner writer ends
  the process, the value \<open>Inl\<close>.
\<close>

fun iwriter_on :: "'h writer_object \<Rightarrow> bool" where
  "iwriter_on WO_blank = True"
| "iwriter_on (WO_echo w) = True"
| "iwriter_on (WO_dummy w) = bw_enabled w"
| "iwriter_on (WO_simple w) = bw_enabled w"
| "iwriter_on (WO_multi w) = bw_enabled w"

definition multi_write_checked ::
    "('q, 's, 'hr, 'hw) rtps_env \<Rightarrow> data_received \<Rightarrow> 'hw multi_writer \<times> fast_pool \<Rightarrow>
     (return_code \<times> data_received \<times> 'hw multi_writer \<times> fast_pool) result" where
  "multi_write_checked E data we =
     (if bw_enabled (fst we) then
        multi_writer_write (env_writer_ops E)
          (\<lambda>q. writer_entities_creation E (bw_participant_id (fst we)) (bw_topic (fst we))
                 (specific_writer_qos_of q (bw_topic (fst we)))) data we
      else Inr (RETCODE_NOT_ENABLED, data, fst we, snd we))"

fun iwriter_write ::
    "('q, 's, 'hr, 'hw) rtps_env \<Rightarrow> data_received \<Rightarrow> 'hw writer_object \<times> fast_pool \<Rightarrow>
     (return_code \<times> data_received \<times> 'hw writer_object \<times> fast_pool) result" where
  "iwriter_write E data (WO_blank, p) =
     (let (ret, d, _, p') = blank_writer_write data (WO_blank :: unit writer_object, p)
      in Inr (ret, d, WO_blank, p'))"
| "iwriter_write E data (WO_echo w, p) =
     (let (ret, d, w', p') = echo_writer_write data (w, p) in Inr (ret, d, WO_echo w', p'))"
| "iwriter_write E data (WO_dummy w, p) =
     (let (ret, d, w', p') = base_writer_write (dummy_writer_write (env_now E)) data (w, p)
      in Inr (ret, d, WO_dummy w', p'))"
| "iwriter_write E data (WO_simple w, p) =
     (let (ret, d, w', p') = base_writer_write (common_writer_write (env_writer_ops E)) data (w, p)
      in Inr (ret, d, WO_simple w', p'))"
| "iwriter_write E data (WO_multi w, p) =
     rbind (multi_write_checked E data (w, p)) (\<lambda>(ret, d, w', p'). Inr (ret, d, WO_multi w', p'))"

fun ireader_enable :: "('cb, 'h) reader_object \<Rightarrow> 'cb list \<times> ('cb, 'h) reader_object" where
  "ireader_enable RO_blank = ([], RO_blank)"
| "ireader_enable (RO_dummy r) =
     (let (cbs, r') = base_reader_enable (\<lambda>_. []) r in (cbs, RO_dummy r'))"
| "ireader_enable (RO_simple r) =
     (let (cbs, r') = base_reader_enable common_reader_enable_hook r in (cbs, RO_simple r'))"
| "ireader_enable (RO_specific r) =
     (let (cbs, r') = base_reader_enable common_reader_enable_hook r in (cbs, RO_specific r'))"

fun ireader_disable :: "('cb, 'h) reader_object \<Rightarrow> ('cb, 'h) reader_object" where
  "ireader_disable RO_blank = RO_blank"
| "ireader_disable (RO_dummy r) = RO_dummy (base_reader_disable r)"
| "ireader_disable (RO_simple r) = RO_simple (base_reader_disable r)"
| "ireader_disable (RO_specific r) = RO_specific (base_reader_disable r)"

fun ireader_on :: "('cb, 'h) reader_object \<Rightarrow> bool" where
  "ireader_on RO_blank = True"
| "ireader_on (RO_dummy r) = br_enabled r"
| "ireader_on (RO_simple r) = br_enabled r"
| "ireader_on (RO_specific r) = br_enabled r"

fun ireader_set_callback :: "'cb \<Rightarrow> ('cb, 'h) reader_object \<Rightarrow> ('cb, 'h) reader_object" where
  "ireader_set_callback cb RO_blank = RO_blank"
| "ireader_set_callback cb (RO_dummy r) = RO_dummy (set_on_data_available_callback cb r)"
| "ireader_set_callback cb (RO_simple r) = RO_simple (set_on_data_available_callback cb r)"
| "ireader_set_callback cb (RO_specific r) = RO_specific (set_on_data_available_callback cb r)"

fun ireader_unset_callback :: "('cb, 'h) reader_object \<Rightarrow> ('cb, 'h) reader_object" where
  "ireader_unset_callback RO_blank = RO_blank"
| "ireader_unset_callback (RO_dummy r) = RO_dummy (unset_on_data_available_callback r)"
| "ireader_unset_callback (RO_simple r) = RO_simple (unset_on_data_available_callback r)"
| "ireader_unset_callback (RO_specific r) = RO_specific (unset_on_data_available_callback r)"

fun ireader_take ::
    "('q, 's, 'hr, 'hw) rtps_env \<Rightarrow> data_received \<Rightarrow> ('cb, 'hr) reader_object \<times> fast_pool \<Rightarrow>
     return_code \<times> data_received \<times> ('cb, 'hr) reader_object \<times> fast_pool" where
  "ireader_take E data (RO_blank, p) =
     (let (ret, d, r', p') = blank_reader_take data (RO_blank, p) in (ret, d, r', p'))"
| "ireader_take E data (RO_dummy r, p) =
     (let (ret, d, r', p') = base_reader_take (dummy_reader_take (env_malloc E)) data (r, p)
      in (ret, d, RO_dummy r', p'))"
| "ireader_take E data (RO_simple r, p) =
     (let (ret, d, r', p') = base_reader_take
            (common_reader_take (env_reader_ops E) (common_reader_fill (env_malloc E))) data (r, p)
      in (ret, d, RO_simple r', p'))"
| "ireader_take E data (RO_specific r, p) =
     (let (ret, d, r', p') = base_reader_take
            (common_reader_take (env_reader_ops E)
               (specific_qos_reader_fill (env_malloc E) (env_database E))) data (r, p)
      in (ret, d, RO_specific r', p'))"

section \<open>Participant objects\<close>

record base_participant =
  pt_id :: participant_id
  pt_kind :: participant_kind
  pt_is_repeater :: bool
  pt_writers :: "(dds_topic, ref) smap"
  pt_readers :: "(dds_topic, ref) smap"

record echo_configuration =
  echo_data :: bool
  echo_discovery :: bool
  echo_verbose :: bool

datatype participant =
    P_blank participant_id
  | P_echo participant_id echo_configuration
  | P_base base_participant

fun participant_id_of :: "participant \<Rightarrow> participant_id" where
  "participant_id_of (P_blank pid) = pid"
| "participant_id_of (P_echo pid c) = pid"
| "participant_id_of (P_base b) = pt_id b"

fun participant_kind_of :: "participant \<Rightarrow> participant_kind" where
  "participant_kind_of (P_blank pid) = PK_blank"
| "participant_kind_of (P_echo pid c) = PK_echo"
| "participant_kind_of (P_base b) = pt_kind b"

fun participant_is_repeater :: "participant \<Rightarrow> bool" where
  "participant_is_repeater (P_blank pid) = False"
| "participant_is_repeater (P_echo pid c) = False"
| "participant_is_repeater (P_base b) = pt_is_repeater b"

definition kind_is_rtps :: "participant_kind \<Rightarrow> bool" where
  "kind_is_rtps k =
     (case k of
        PK_simple_rtps \<Rightarrow> True
      | PK_local_discovery_server \<Rightarrow> True
      | PK_wan_discovery_server \<Rightarrow> True
      | PK_wan_initial_peers \<Rightarrow> True
      | _ \<Rightarrow> False)"

fun participant_is_rtps_kind :: "participant \<Rightarrow> bool" where
  "participant_is_rtps_kind (P_blank pid) = False"
| "participant_is_rtps_kind (P_echo pid c) = False"
| "participant_is_rtps_kind (P_base b) = kind_is_rtps (pt_kind b)"

text \<open>The virtual \<^verbatim>\<open>create_writer_\<close> and \<^verbatim>\<open>create_reader_\<close> of dummy and RTPS participants.\<close>

definition uses_specific_qos :: "dds_topic \<Rightarrow> bool" where
  "uses_specific_qos topic \<longleftrightarrow>
     topic_qos_has_partitions (topic_qos_of topic) \<or> topic_qos_has_ownership (topic_qos_of topic)"

definition base_create_writer ::
    "('q, 's, 'hr, 'hw) rtps_env \<Rightarrow> base_participant \<Rightarrow> dds_topic \<Rightarrow> 'hw writer_object result" where
  "base_create_writer E b topic =
     (if pt_kind b = PK_dummy then
        Inr (WO_dummy \<lparr>bw_participant_id = pt_id b, bw_topic = topic, bw_enabled = False, data_stored = []\<rparr>)
      else if uses_specific_qos topic then
        Inr (WO_multi \<lparr>bw_participant_id = pt_id b, bw_topic = topic, bw_enabled = False,
                       mw_repeater = pt_is_repeater b, writers_map = []\<rparr>)
      else
        rbind (writer_entities_creation E (pt_id b) topic (common_writer_qos_of topic)) (\<lambda>h.
          Inr (WO_simple \<lparr>bw_participant_id = pt_id b, bw_topic = topic, bw_enabled = False,
                          cw_repeater = pt_is_repeater b, cw_history = h\<rparr>)))"

definition base_create_reader ::
    "('q, 's, 'hr, 'hw) rtps_env \<Rightarrow> base_participant \<Rightarrow> dds_topic \<Rightarrow> ('cb, 'hr) reader_object result" where
  "base_create_reader E b topic =
     (if pt_kind b = PK_dummy then
        Inr (RO_dummy \<lparr>br_participant_id = pt_id b, br_topic = topic, br_on_data_available = None,
                       br_enabled = False, data_to_send = []\<rparr>)
      else
        rbind (reader_entities_creation E (pt_id b) topic (reader_qos_of topic)) (\<lambda>(g, h).
          let r = \<lparr>br_participant_id = pt_id b, br_topic = topic, br_on_data_available = None,
                   br_enabled = False, cr_guid = g, cr_history = h\<rparr>
          in Inr (if uses_specific_qos topic then RO_specific r else RO_simple r)))"

type_synonym ('cb, 'hr, 'hw) pstate = "participant \<times> ('cb, 'hr, 'hw) object_store"

fun create_writer ::
    "('q, 's, 'hr, 'hw) rtps_env \<Rightarrow> dds_topic \<Rightarrow> ('cb, 'hr, 'hw) pstate \<Rightarrow>
     (ref \<times> ('cb, 'hr, 'hw) pstate) result" where
  "create_writer E topic (P_blank pid, st) =
     (let (r, st') = store_new_writer WO_blank st in Inr (r, P_blank pid, st'))"
| "create_writer E topic (P_echo pid c, st) =
     (let (r, st') = store_new_writer
            (if echo_data c then WO_echo \<lparr>ew_topic = topic, ew_verbose = echo_verbose c, ew_log = []\<rparr>
             else WO_blank) st
      in Inr (r, P_echo pid c, st'))"
| "create_writer E topic (P_base b, st) =
     (case smap_find dds_topic_key topic (pt_writers b) of
        Some _ \<Rightarrow> Inl InitializationException
      | None \<Rightarrow>
          rbind (base_create_writer E b topic) (\<lambda>w.
            let (r, st') = store_new_writer w st
            in Inr (r, P_base (b\<lparr>pt_writers := smap_emplace dds_topic_key topic r (pt_writers b)\<rparr>), st')))"

fun create_reader ::
    "('q, 's, 'hr, 'hw) rtps_env \<Rightarrow> dds_topic \<Rightarrow> ('cb, 'hr, 'hw) pstate \<Rightarrow>
     (ref \<times> ('cb, 'hr, 'hw) pstate) result" where
  "create_reader E topic (P_blank pid, st) =
     (let (r, st') = store_new_reader RO_blank st in Inr (r, P_blank pid, st'))"
| "create_reader E topic (P_echo pid c, st) =
     (let (r, st') = store_new_reader RO_blank st in Inr (r, P_echo pid c, st'))"
| "create_reader E topic (P_base b, st) =
     (case smap_find dds_topic_key topic (pt_readers b) of
        Some _ \<Rightarrow> Inl InitializationException
      | None \<Rightarrow>
          rbind (base_create_reader E b topic) (\<lambda>rd.
            let (r, st') = store_new_reader rd st
            in Inr (r, P_base (b\<lparr>pt_readers := smap_emplace dds_topic_key topic r (pt_readers b)\<rparr>), st')))"

text \<open>\<^verbatim>\<open>delete_writer\<close>: the first entry whose pointer is the argument is erased by its key.\<close>

definition erase_ref :: "ref \<Rightarrow> (dds_topic, ref) smap \<Rightarrow> (dds_topic, ref) smap" where
  "erase_ref w m =
     (case List.find (\<lambda>e. snd e = w) m of None \<Rightarrow> m | Some e \<Rightarrow> smap_erase dds_topic_key (fst e) m)"

fun delete_writer :: "ref \<Rightarrow> participant \<Rightarrow> participant" where
  "delete_writer w (P_base b) = P_base (b\<lparr>pt_writers := erase_ref w (pt_writers b)\<rparr>)"
| "delete_writer w p = p"

fun delete_reader :: "ref \<Rightarrow> participant \<Rightarrow> participant" where
  "delete_reader r (P_base b) = P_base (b\<lparr>pt_readers := erase_ref r (pt_readers b)\<rparr>)"
| "delete_reader r p = p"

section \<open>A concrete environment\<close>

text \<open>
  An RTPS layer that creates every entity, sends nothing and receives nothing, with an allocator
  that always hands out the same block: an instance of the parameters for concrete runs.
\<close>

definition sample_env :: "(unit, unit, unit, unit) rtps_env" where
  "sample_env =
     \<lparr>env_reader_ops = \<lparr>get_unread_count = (\<lambda>h. 0), nextUntakenCache = (\<lambda>h. (None, h)),
                        reader_remove_change = (\<lambda>c h. h)\<rparr>,
      env_writer_ops = \<lparr>new_change = (\<lambda>k i h. (None, h)), add_change = (\<lambda>c p h. (p, h)),
                        writer_remove_change = (\<lambda>c h. h), isFull = (\<lambda>h. False),
                        remove_min_change = (\<lambda>h. h)\<rparr>,
      env_new_rtps_writer = (\<lambda>p t q. Some ()), env_register_writer = (\<lambda>p t q. True),
      env_new_rtps_reader = (\<lambda>p t q. Some (guid_unknown, ())), env_register_reader = (\<lambda>p t q. True),
      env_malloc = (\<lambda>h n. Some (0, replicate (unat n) 0)), env_now = 0,
      env_database = discovery_database_new ()\<rparr>"

end
