(* ===== verification/Track.thy ===== *)
theory Track
  imports Participants
begin

text \<open>
  A track (\<^verbatim>\<open>communication/Track\<close>): forwards what one reader receives to a set of writers. First
  the operations as sequential code on the object store, then the protocol of the atomic status
  variable between the listener thread that announces data and the pool thread that transmits, as a
  transition system with one step per atomic access.
\<close>

section \<open>Operations\<close>

type_synonym task_id = nat

record ('cb) track =
  reader_participant_id :: participant_id
  track_topic :: dds_topic
  track_reader :: ref
  track_writers :: "(participant_id, ref) smap"
  track_enabled :: bool
  track_exit :: bool
  data_available_status :: "32 word"
  transmit_task_id :: task_id
  track_callback :: 'cb

definition no_more_data :: "32 word" where "no_more_data = 0"
definition transmitting_data :: "32 word" where "transmitting_data = 1"
definition new_data_arrived :: "32 word" where "new_data_arrived = 2"

definition store_update_writer ::
    "('hw writer_object \<Rightarrow> 'hw writer_object) \<Rightarrow> ref \<Rightarrow> ('cb, 'hr, 'hw) object_store \<Rightarrow>
     ('cb, 'hr, 'hw) object_store" where
  "store_update_writer f r st =
     st\<lparr>writer_at := (writer_at st)(r := map_option f (writer_at st r))\<rparr>"

definition store_update_reader ::
    "(('cb, 'hr) reader_object \<Rightarrow> ('cb, 'hr) reader_object) \<Rightarrow> ref \<Rightarrow> ('cb, 'hr, 'hw) object_store \<Rightarrow>
     ('cb, 'hr, 'hw) object_store" where
  "store_update_reader f r st =
     st\<lparr>reader_at := (reader_at st)(r := map_option f (reader_at st r))\<rparr>"

text \<open>\<^verbatim>\<open>data_available_\<close> returns the tasks it emits to the thread pool.\<close>

definition data_available :: "'cb track \<Rightarrow> task_id list \<times> 'cb track" where
  "data_available t =
     (if track_enabled t then
        let previous_status = data_available_status t;
            t' = t\<lparr>data_available_status := previous_status + new_data_arrived\<rparr>
        in (if previous_status = no_more_data then [transmit_task_id t] else [], t')
      else ([], t))"

fun run_data_available :: "'cb list \<Rightarrow> 'cb track \<Rightarrow> task_id list \<times> 'cb track" where
  "run_data_available [] t = ([], t)"
| "run_data_available (cb # cbs) t =
     (let (e, t') = data_available t; (es, t'') = run_data_available cbs t' in (e @ es, t''))"

definition track_enable ::
    "'cb track \<times> ('cb, 'hr, 'hw) object_store \<Rightarrow>
     task_id list \<times> 'cb track \<times> ('cb, 'hr, 'hw) object_store" where
  "track_enable ts =
     (let t = fst ts; st = snd ts in
      if \<not> track_enabled t then
        let t1 = t\<lparr>track_enabled := True\<rparr>;
            st1 = fold (\<lambda>e. store_update_writer iwriter_enable (snd e)) (track_writers t1) st;
            cbs = (case reader_at st1 (track_reader t1) of Some r \<Rightarrow> fst (ireader_enable r) | None \<Rightarrow> []);
            st2 = store_update_reader (\<lambda>r. snd (ireader_enable r)) (track_reader t1) st1;
            (es, t2) = run_data_available cbs t1
        in (es, t2, st2)
      else ([], t, st))"

definition track_disable ::
    "'cb track \<times> ('cb, 'hr, 'hw) object_store \<Rightarrow> 'cb track \<times> ('cb, 'hr, 'hw) object_store" where
  "track_disable ts =
     (let t = fst ts; st = snd ts in
      if track_enabled t then
        let st1 = store_update_reader ireader_disable (track_reader t) st;
            st2 = fold (\<lambda>e. store_update_writer iwriter_disable (snd e)) (track_writers t) st1
        in (t\<lparr>track_enabled := False\<rparr>, st2)
      else (t, st))"

definition track_new ::
    "dds_topic \<Rightarrow> participant_id \<Rightarrow> ref \<Rightarrow> (participant_id, ref) smap \<Rightarrow> task_id \<Rightarrow> 'cb \<Rightarrow> bool \<Rightarrow>
     ('cb, 'hr, 'hw) object_store \<Rightarrow> task_id list \<times> 'cb track \<times> ('cb, 'hr, 'hw) object_store" where
  "track_new topic pid reader writers task cb enable st =
     (let t = \<lparr>reader_participant_id = pid, track_topic = topic, track_reader = reader,
               track_writers = writers, track_enabled = False, track_exit = False,
               data_available_status = no_more_data, transmit_task_id = task, track_callback = cb\<rparr>;
          st1 = store_update_reader (ireader_set_callback cb) reader st
      in if enable then track_enable (t, st1) else ([], t, st1))"

definition track_destroy ::
    "'cb track \<times> ('cb, 'hr, 'hw) object_store \<Rightarrow> 'cb track \<times> ('cb, 'hr, 'hw) object_store" where
  "track_destroy ts =
     (let (t, st) = track_disable ts
      in (t\<lparr>track_exit := True\<rparr>, store_update_reader ireader_unset_callback (track_reader t) st))"

definition should_transmit :: "'cb track \<Rightarrow> bool" where
  "should_transmit t \<longleftrightarrow> \<not> track_exit t \<and> track_enabled t"

text \<open>The loop over the writers; a failed write is skipped.\<close>

fun forward_all ::
    "('q, 's, 'hr, 'hw) rtps_env \<Rightarrow> (participant_id, ref) smap \<Rightarrow> data_received \<Rightarrow>
     ('cb, 'hr, 'hw) object_store \<Rightarrow> fast_pool \<Rightarrow>
     (data_received \<times> ('cb, 'hr, 'hw) object_store \<times> fast_pool) result" where
  "forward_all E [] data st p = Inr (data, st, p)"
| "forward_all E ((pid, r) # ws) data st p =
     (case writer_at st r of
        None \<Rightarrow> Inl NullDereference
      | Some w \<Rightarrow>
          rbind (iwriter_write E data (w, p)) (\<lambda>(ret, data', w', p').
            forward_all E ws data' (st\<lparr>writer_at := (writer_at st)(r \<mapsto> w')\<rparr>) p'))"

text \<open>
  \<^verbatim>\<open>transmit_\<close>. \<open>None\<close> when the fuel does not reach the end of the loop; no other thread runs
  in between, so the status read back after a take without data is the one stored before it.
\<close>

fun transmit ::
    "nat \<Rightarrow> ('q, 's, 'hr, 'hw) rtps_env \<Rightarrow> 'cb track \<Rightarrow> ('cb, 'hr, 'hw) object_store \<Rightarrow> fast_pool \<Rightarrow>
     (('cb track \<times> ('cb, 'hr, 'hw) object_store \<times> fast_pool) result) option" where
  "transmit fuel E t st p =
     (if \<not> should_transmit t then Some (Inr (t, st, p))
      else case fuel of
        0 \<Rightarrow> None
      | Suc n \<Rightarrow>
         (let t1 = t\<lparr>data_available_status := transmitting_data\<rparr> in
          case reader_at st (track_reader t1) of
            None \<Rightarrow> Some (Inl NullDereference)
          | Some rd \<Rightarrow>
             (let (ret, data, rd', p1) = ireader_take E data_received_default (rd, p);
                  st1 = st\<lparr>reader_at := (reader_at st)(track_reader t1 \<mapsto> rd')\<rparr>
              in if ret = RETCODE_NO_DATA then
                   let previous_status = data_available_status t1;
                       t2 = t1\<lparr>data_available_status := previous_status - transmitting_data\<rparr>
                   in if previous_status = transmitting_data then Some (Inr (t2, st1, p1))
                      else transmit n E t2 st1 p1
                 else if \<not> ret_ok ret then transmit n E t1 st1 p1
                 else case forward_all E (track_writers t1) data st1 p1 of
                     Inl e \<Rightarrow> Some (Inl e)
                   | Inr (data', st2, p2) \<Rightarrow>
                      (if payload_length (dr_payload data') > 0 then
                         (case fast_release_payload p2 (dr_payload data') of
                            Inl e \<Rightarrow> Some (Inl e)
                          | Inr (_, p3, _) \<Rightarrow> transmit n E t1 st2 p3)
                       else transmit n E t1 st2 p2))))"

declare transmit.simps [simp del]

section \<open>The status protocol\<close>

text \<open>
  The listener (serialised by the mutex of its reader) checks the switch, adds to the status and
  emits a task if the status was zero; the pool thread, holding the transmission mutex, checks the
  switch, stores 1, takes, and on no data subtracts 1 and leaves if the status was 1. \<open>ts_arrived\<close>
  and \<open>ts_calls\<close> are histories used in the statements only.
\<close>

datatype 'd worker_pc = W_idle | W_check | W_store | W_take | W_sub | W_fwd 'd

datatype listener_pc = L_idle | L_called | L_checked | L_emit

record 'd track_sys =
  ts_enabled :: bool
  ts_exit :: bool
  ts_status :: "32 word"
  ts_pending :: nat
  ts_queue :: "'d list"
  ts_out :: "'d list"
  ts_worker :: "'d worker_pc"
  ts_listener :: listener_pc
  ts_arrived :: "'d list"
  ts_calls :: nat

inductive track_step :: "'d track_sys \<Rightarrow> 'd track_sys \<Rightarrow> bool" where
  l_arrive:
    "ts_listener s = L_idle \<Longrightarrow>
     track_step s (s\<lparr>ts_queue := ts_queue s @ [d], ts_arrived := ts_arrived s @ [d], ts_listener := L_called\<rparr>)"
| l_announce: "ts_listener s = L_idle \<Longrightarrow> track_step s (s\<lparr>ts_listener := L_called\<rparr>)"
| l_check:
    "ts_listener s = L_called \<Longrightarrow>
     track_step s (s\<lparr>ts_listener := (if ts_enabled s then L_checked else L_idle)\<rparr>)"
| l_add:
    "ts_listener s = L_checked \<Longrightarrow>
     track_step s (s\<lparr>ts_status := ts_status s + new_data_arrived, ts_calls := ts_calls s + 1,
                     ts_listener := (if ts_status s = no_more_data then L_emit else L_idle)\<rparr>)"
| l_emit:
    "ts_listener s = L_emit \<Longrightarrow>
     track_step s (s\<lparr>ts_pending := ts_pending s + 1, ts_listener := L_idle\<rparr>)"
| w_start:
    "ts_worker s = W_idle \<Longrightarrow> 0 < ts_pending s \<Longrightarrow>
     track_step s (s\<lparr>ts_pending := ts_pending s - 1, ts_worker := W_check\<rparr>)"
| w_check:
    "ts_worker s = W_check \<Longrightarrow>
     track_step s (s\<lparr>ts_worker := (if \<not> ts_exit s \<and> ts_enabled s then W_store else W_idle)\<rparr>)"
| w_store:
    "ts_worker s = W_store \<Longrightarrow>
     track_step s (s\<lparr>ts_status := transmitting_data, ts_worker := W_take\<rparr>)"
| w_take_data:
    "ts_worker s = W_take \<Longrightarrow> ts_queue s = d # q \<Longrightarrow>
     track_step s (s\<lparr>ts_queue := q, ts_worker := W_fwd d\<rparr>)"
| w_take_none:
    "ts_worker s = W_take \<Longrightarrow> ts_queue s = [] \<Longrightarrow> track_step s (s\<lparr>ts_worker := W_sub\<rparr>)"
| w_sub:
    "ts_worker s = W_sub \<Longrightarrow>
     track_step s (s\<lparr>ts_status := ts_status s - transmitting_data,
                     ts_worker := (if ts_status s = transmitting_data then W_idle else W_check)\<rparr>)"
| w_forward:
    "ts_worker s = W_fwd d \<Longrightarrow>
     track_step s (s\<lparr>ts_out := ts_out s @ [d], ts_worker := W_check\<rparr>)"

inductive control_step :: "'d track_sys \<Rightarrow> 'd track_sys \<Rightarrow> bool" where
  c_disable: "control_step s (s\<lparr>ts_enabled := False\<rparr>)"
| c_enable: "control_step s (s\<lparr>ts_enabled := True\<rparr>)"
| c_exit: "control_step s (s\<lparr>ts_exit := True\<rparr>)"

inductive track_full_step :: "'d track_sys \<Rightarrow> 'd track_sys \<Rightarrow> bool" where
  data_path: "track_step s s' \<Longrightarrow> track_full_step s s'"
| control_path: "control_step s s' \<Longrightarrow> track_full_step s s'"

inductive_cases track_stepE: "track_step s s'"
inductive_cases control_stepE: "control_step s s'"
inductive_cases track_full_stepE: "track_full_step s s'"

definition track_sys_start :: "'d track_sys \<Rightarrow> bool" where
  "track_sys_start s \<longleftrightarrow>
     s = \<lparr>ts_enabled = True, ts_exit = False, ts_status = no_more_data, ts_pending = 0, ts_queue = [],
          ts_out = [], ts_worker = W_idle, ts_listener = L_idle, ts_arrived = [], ts_calls = 0\<rparr>"

section \<open>Lemmas on the protocol\<close>

lemmas status_values = no_more_data_def transmitting_data_def new_data_arrived_def

text \<open>
  Who will run the transmission: a task in the pool, the thread inside \<^verbatim>\<open>transmit_\<close>, or a
  listener about to emit. While the track is enabled there is exactly one such token when the status
  is not zero, and none when it is.
\<close>

definition tokens :: "'d track_sys \<Rightarrow> nat" where
  "tokens s = ts_pending s + (if ts_worker s = W_idle then 0 else 1)
     + (if ts_listener s = L_emit then 1 else 0)"

definition track_inv :: "'d track_sys \<Rightarrow> bool" where
  "track_inv s \<longleftrightarrow> (ts_calls s < 2 ^ 30 \<longrightarrow>
     ts_enabled s \<and> \<not> ts_exit s \<and>
     unat (ts_status s) \<le> 2 * ts_calls s + 1 \<and>
     tokens s = (if ts_status s = 0 then 0 else 1) \<and>
     (ts_queue s \<noteq> [] \<and> ts_listener s \<in> {L_idle, L_emit} \<longrightarrow>
        ts_status s \<noteq> 0 \<and> (ts_worker s = W_sub \<longrightarrow> ts_status s \<noteq> 1)))"

lemma status_add:
  assumes "unat (w :: 32 word) \<le> 2 * n + 1" and "n < 2 ^ 30 - 1"
  shows "unat (w + 2) = unat w + 2"
  using assms by (simp add: unat_word_ariths)

lemma status_add_not:
  assumes "unat (w :: 32 word) \<le> 2 * n + 1" and "n < 2 ^ 30 - 1"
  shows "w + 2 \<noteq> 0" and "w + 2 \<noteq> 1"
  using status_add [OF assms] by (metis add_2_eq_Suc' nat.distinct(1) unat_0,
    metis One_nat_def Suc_eq_plus1 add_2_eq_Suc' nat.distinct(1) old.nat.inject unat_1)

lemma status_sub: "w \<noteq> 0 \<Longrightarrow> w \<noteq> 1 \<Longrightarrow> (w :: 32 word) - 1 \<noteq> 0"
  by simp

lemma calls_mono: "track_step s s' \<Longrightarrow> ts_calls s \<le> ts_calls s'"
  by (erule track_stepE) auto

lemma track_inv_step:
  assumes inv: "track_inv s" and step: "track_step s s'"
  shows "track_inv s'"
proof (cases "ts_calls s' < 2 ^ 30")
  case False
  then show ?thesis by (simp add: track_inv_def)
next
  case True
  with calls_mono [OF step] have "ts_calls s < 2 ^ 30" by simp
  with inv have i: "ts_enabled s" "\<not> ts_exit s" "unat (ts_status s) \<le> 2 * ts_calls s + 1"
    "tokens s = (if ts_status s = 0 then 0 else 1)"
    "ts_queue s \<noteq> [] \<and> ts_listener s \<in> {L_idle, L_emit} \<longrightarrow>
        ts_status s \<noteq> 0 \<and> (ts_worker s = W_sub \<longrightarrow> ts_status s \<noteq> 1)"
    by (auto simp: track_inv_def)
  from step show ?thesis
  proof (cases rule: track_step.cases)
    case l_add
    with True have "ts_calls s < 2 ^ 30 - 1" by simp
    note ne = status_add_not [OF i(3) this] and add = status_add [OF i(3) this]
    show ?thesis
      using l_add i ne add by (auto simp: track_inv_def tokens_def status_values split: if_splits)
  next
    case w_sub
    have "ts_status s \<noteq> 0" using i(4) w_sub by (auto simp: tokens_def split: if_splits)
    moreover from this have "unat (ts_status s - 1) \<le> unat (ts_status s)"
      by (simp add: unat_minus_one)
    ultimately show ?thesis
      using w_sub i status_sub [of "ts_status s"]
      by (auto simp: track_inv_def tokens_def status_values split: if_splits)
  qed (use i in \<open>auto simp: track_inv_def tokens_def status_values split: if_splits\<close>)
qed

lemma track_inv_start: "track_sys_start s \<Longrightarrow> track_inv s"
  by (simp add: track_sys_start_def track_inv_def tokens_def status_values)

interpretation track_protocol: invariant_system track_sys_start track_step track_inv
  by unfold_locales (rule track_inv_start track_inv_step; assumption)+

text \<open>Nothing is lost, duplicated or reordered between the reader and the writers.\<close>

definition in_flight :: "'d track_sys \<Rightarrow> 'd list" where
  "in_flight s = (case ts_worker s of W_fwd d \<Rightarrow> [d] | _ \<Rightarrow> [])"

definition track_fifo :: "'d track_sys \<Rightarrow> bool" where
  "track_fifo s \<longleftrightarrow> ts_arrived s = ts_out s @ in_flight s @ ts_queue s"

lemma track_fifo_step: "track_fifo s \<Longrightarrow> track_full_step s s' \<Longrightarrow> track_fifo s'"
  by (erule track_full_stepE; (erule track_stepE | erule control_stepE))
    (auto simp: track_fifo_def in_flight_def)

lemma track_fifo_start: "track_sys_start s \<Longrightarrow> track_fifo s"
  by (simp add: track_sys_start_def track_fifo_def in_flight_def)

interpretation track_order: invariant_system track_sys_start track_full_step track_fifo
  by unfold_locales (rule track_fifo_start track_fifo_step; assumption)+

text \<open>
  The status survives a disable. Once it is not zero with no token left, no step of any thread nor
  any enable or disable starts a transmission again.
\<close>

definition track_stuck :: "'d list \<Rightarrow> 'd track_sys \<Rightarrow> bool" where
  "track_stuck out s \<longleftrightarrow> (ts_calls s < 2 ^ 30 \<longrightarrow>
     ts_status s \<noteq> 0 \<and> unat (ts_status s) \<le> 2 * ts_calls s + 1 \<and> tokens s = 0 \<and> ts_out s = out)"

lemma full_calls_mono: "track_full_step s s' \<Longrightarrow> ts_calls s \<le> ts_calls s'"
  by (erule track_full_stepE) (auto dest: calls_mono elim: control_stepE)

lemma track_stuck_step:
  assumes inv: "track_stuck out s" and step: "track_full_step s s'"
  shows "track_stuck out s'"
proof (cases "ts_calls s' < 2 ^ 30")
  case False
  then show ?thesis by (simp add: track_stuck_def)
next
  case True
  with full_calls_mono [OF step] have "ts_calls s < 2 ^ 30" by simp
  with inv have i: "ts_status s \<noteq> 0" "unat (ts_status s) \<le> 2 * ts_calls s + 1" "tokens s = 0"
    "ts_out s = out" by (auto simp: track_stuck_def)
  from step show ?thesis
  proof (cases rule: track_full_step.cases)
    case control_path
    then show ?thesis using i by (auto simp: track_stuck_def tokens_def elim!: control_stepE)
  next
    case data_path
    then show ?thesis
    proof (cases rule: track_step.cases)
      case l_add
      with True have "ts_calls s < 2 ^ 30 - 1" by simp
      note ne = status_add_not [OF i(2) this] and add = status_add [OF i(2) this]
      show ?thesis
        using l_add i ne add by (auto simp: track_stuck_def tokens_def status_values split: if_splits)
    qed (use i in \<open>auto simp: track_stuck_def tokens_def status_values split: if_splits\<close>)
  qed
qed

section \<open>Properties\<close>

definition sample_track_sys :: "nat track_sys" where
  "sample_track_sys =
     \<lparr>ts_enabled = True, ts_exit = False, ts_status = no_more_data, ts_pending = 0, ts_queue = [],
      ts_out = [], ts_worker = W_idle, ts_listener = L_idle, ts_arrived = [], ts_calls = 0\<rparr>"

lemma sample_track_start: "track_sys_start sample_track_sys"
  by (simp add: track_sys_start_def sample_track_sys_def)

text \<open>The state after one sample arrived and its listener call is done: a task is pending.\<close>

lemma sample_track_announced:
  "reachable track_sys_start track_step
     (sample_track_sys\<lparr>ts_queue := [d], ts_arrived := [d], ts_status := 2, ts_calls := 1, ts_pending := 1\<rparr>)"
proof -
  note r0 = reach_init [of track_sys_start sample_track_sys track_step, OF sample_track_start]
  note r1 = reach_step [OF r0 l_arrive [of _ d], unfolded sample_track_sys_def, simplified]
  note r2 = reach_step [OF r1 l_check, simplified]
  note r3 = reach_step [OF r2 l_add, simplified status_values, simplified]
  note r4 = reach_step [OF r3 l_emit, simplified]
  then show ?thesis by (simp add: sample_track_sys_def status_values)
qed

text \<open>
  C8. No wake-up is lost while a track is enabled: whenever samples wait in the reader and no
  listener call is under way, a transmission is pending in the thread pool, running, or about to be
  emitted, and a running one will not leave on what it has read of the status. The counter is 32 bits
  wide; the statement covers runs of fewer than two to the thirty listener calls.
\<close>

theorem track_no_lost_wakeup:
  assumes "reachable track_sys_start track_step s" and "ts_calls s < 2 ^ 30"
    and "ts_queue s \<noteq> []" and "ts_listener s \<in> {L_idle, L_emit}"
  shows "(0 < ts_pending s \<or> ts_worker s \<noteq> W_idle \<or> ts_listener s = L_emit) \<and>
    ts_pending s + (if ts_worker s = W_idle then 0 else 1) + (if ts_listener s = L_emit then 1 else 0) = 1 \<and>
    (ts_worker s = W_sub \<longrightarrow> ts_status s \<noteq> transmitting_data)"
  using track_protocol.reachable_inv [OF assms(1)] assms(2-4)
  by (auto simp: track_inv_def tokens_def status_values split: if_splits)

theorem track_no_lost_wakeup_witness:
  "0 < ts_pending (sample_track_sys\<lparr>ts_queue := [5], ts_arrived := [5], ts_status := 2, ts_calls := 1,
      ts_pending := 1\<rparr>)"
  using track_no_lost_wakeup [OF sample_track_announced [of 5]] by (simp add: sample_track_sys_def)



text \<open>
  C10. A disabled track may never forward again after it is enabled: if the transmission finds the
  track disabled, it leaves without resetting the status. The state below is reachable, the track is
  enabled and a sample waits, and no step of any thread nor any further enable or disable, short of
  two to the thirty listener calls, forwards a sample.
\<close>

theorem track_stuck_after_disable:
  "\<exists>s. reachable track_sys_start track_full_step (s :: nat track_sys) \<and> ts_enabled s \<and> \<not> ts_exit s \<and>
     ts_queue s \<noteq> [] \<and>
     (\<forall>s'. steps track_full_step s s' \<longrightarrow> ts_calls s' < 2 ^ 30 \<longrightarrow> ts_out s' = ts_out s)"
proof -
  let ?a = "sample_track_sys\<lparr>ts_queue := [5], ts_arrived := [5], ts_status := 2, ts_calls := 1, ts_pending := 1\<rparr>"
  let ?s = "?a\<lparr>ts_pending := 0\<rparr>"
  have lift: "reachable track_sys_start track_step s \<Longrightarrow> reachable track_sys_start track_full_step s"
    for s :: "nat track_sys"
    by (induction rule: reachable.induct) (auto intro: reach_init reach_step data_path)
  note r0 = lift [OF sample_track_announced [of 5], unfolded sample_track_sys_def, simplified]
  note r1 = reach_step [OF r0 control_path [OF c_disable], simplified]
  note r2 = reach_step [OF r1 data_path [OF w_start], simplified]
  note r3 = reach_step [OF r2 data_path [OF w_check], simplified]
  note r4 = reach_step [OF r3 control_path [OF c_enable], simplified]
  then have r: "reachable track_sys_start track_full_step ?s" by (simp add: sample_track_sys_def)
  have "track_stuck [] ?s" by (simp add: track_stuck_def tokens_def sample_track_sys_def)
  then have "track_stuck [] s'" if "steps track_full_step ?s s'" for s'
    using steps_preserve [OF that, of "track_stuck []"] track_stuck_step by blast
  with r show ?thesis
    by (intro exI [of _ ?s]) (auto simp: track_stuck_def sample_track_sys_def)
qed

theorem track_stuck_after_disable_witness:
  "\<exists>s. reachable track_sys_start track_full_step (s :: nat track_sys) \<and> ts_enabled s \<and> ts_queue s \<noteq> []"
  using track_stuck_after_disable by blast

end
