(* ===== verification/Track_Run.thy ===== *)
theory Track_Run
  imports Track
begin

text \<open>
  What a transmission does between dummy readers and writers, the endpoints whose whole behaviour is
  in the repository: every sample waiting in the reader reaches every writer of the track, in order
  and byte for byte, the loop ends, and the payload pool is left as it was found.
\<close>

section \<open>One sample\<close>

definition sample_view :: "dummy_data_stored \<Rightarrow> octet list \<times> guid" where
  "sample_view d = (dds_payload d, dds_source_guid d)"

definition dummy_view :: "('cb, 'hr, 'hw) object_store \<Rightarrow> ref \<Rightarrow> (octet list \<times> guid) list option" where
  "dummy_view st r =
     (case writer_at st r of
        Some (WO_dummy w) \<Rightarrow> if bw_enabled w then Some (map sample_view (data_stored w)) else None
      | _ \<Rightarrow> None)"

definition data_view :: "fast_pool \<Rightarrow> data_received \<Rightarrow> octet list \<times> guid" where
  "data_view p data = (payload_bytes p (dr_payload data), source_guid (dr_properties data))"

lemma dummy_viewD:
  "dummy_view st r = Some l \<Longrightarrow>
   \<exists>w. writer_at st r = Some (WO_dummy w) \<and> bw_enabled w \<and> l = map sample_view (data_stored w)"
  by (auto simp: dummy_view_def split: option.splits writer_object.splits if_splits)

lemma dummy_write_view:
  assumes "writer_at st r = Some (WO_dummy w)" and "bw_enabled w"
  shows "\<exists>w'. iwriter_write E data (WO_dummy w, p) = Inr (RETCODE_OK, data, WO_dummy w', p) \<and>
    bw_enabled w' \<and> map sample_view (data_stored w') = map sample_view (data_stored w) @ [data_view p data]"
  using assms
  by (simp add: base_writer_write_def dummy_writer_write_def Let_def sample_view_def data_view_def)

lemma forward_all_dummy:
  assumes "distinct (map snd ws)" and "\<forall>r\<in>snd ` set ws. dummy_view st r \<noteq> None"
  shows "\<exists>st'. forward_all E ws data st p = Inr (data, st', p) \<and> reader_at st' = reader_at st \<and>
    (\<forall>r. dummy_view st' r =
       (if r \<in> snd ` set ws then map_option (\<lambda>l. l @ [data_view p data]) (dummy_view st r)
        else dummy_view st r))"
  using assms
proof (induction ws arbitrary: st)
  case (Cons e ws)
  obtain pid r where e: "e = (pid, r)" by fastforce
  obtain l where l: "dummy_view st r = Some l" using Cons.prems(2) e by auto
  then obtain w where w: "writer_at st r = Some (WO_dummy w)" "bw_enabled w"
    "l = map sample_view (data_stored w)" using dummy_viewD by blast
  obtain w' where w': "iwriter_write E data (WO_dummy w, p) = Inr (RETCODE_OK, data, WO_dummy w', p)"
    "bw_enabled w'" "map sample_view (data_stored w') = l @ [data_view p data]"
    using dummy_write_view [OF w(1,2), of E data p] w(3) by auto
  let ?st = "st\<lparr>writer_at := (writer_at st)(r \<mapsto> WO_dummy w')\<rparr>"
  have view: "dummy_view ?st j = (if j = r then Some (l @ [data_view p data]) else dummy_view st j)" for j
    using w' by (simp add: dummy_view_def)
  have r: "r \<notin> snd ` set ws" using Cons.prems(1) e by auto
  have "\<forall>j\<in>snd ` set ws. dummy_view ?st j \<noteq> None"
    using Cons.prems(2) e view by auto
  with Cons.IH [of ?st] Cons.prems(1) obtain st' where st':
    "forward_all E ws data ?st p = Inr (data, st', p)" "reader_at st' = reader_at ?st"
    "\<forall>j. dummy_view st' j = (if j \<in> snd ` set ws
       then map_option (\<lambda>l. l @ [data_view p data]) (dummy_view ?st j) else dummy_view ?st j)"
    by auto
  have "forward_all E (e # ws) data st p = Inr (data, st', p)"
    using w w' st' unfolding e by simp
  moreover have "dummy_view st' j = (if j \<in> snd ` set (e # ws)
       then map_option (\<lambda>l. l @ [data_view p data]) (dummy_view st j) else dummy_view st j)" for j
    using st'(3) view r l unfolding e by auto
  ultimately show ?case using st'(2) by auto
qed auto

text \<open>The allocator returns a fresh block for the current heap.\<close>

definition malloc_fresh :: "malloc \<Rightarrow> heap \<Rightarrow> bool" where
  "malloc_fresh malloc h \<longleftrightarrow> (\<forall>n. \<exists>a junk. malloc h n = Some (a, junk) \<and> h a = None)"

lemma payload_bytes_written:
  "payload_length t = of_nat (length bytes) \<Longrightarrow> length bytes < 2 ^ 32 \<Longrightarrow> payload_data t = Some a \<Longrightarrow>
   fast_heap p a = Some b \<Longrightarrow> block_bytes b = write_bytes bytes junk \<Longrightarrow> payload_bytes p t = bytes"
  by (simp add: payload_bytes_def write_bytes_def unsigned_of_nat take_bit_nat_eq_self)

definition pool_used :: "nat \<Rightarrow> fast_pool \<Rightarrow> fast_pool" where
  "pool_used n p = p\<lparr>reserve_count := reserve_count p + of_nat n,
                     release_count := release_count p + of_nat n\<rparr>"

lemma pool_used_simps [simp]:
  "fast_heap (pool_used n p) = fast_heap p"
  "pool_used 0 p = p"
  "pool_used n (pool_used m p) = pool_used (m + n) p"
  "pool_is_clean (pool_used n p) = pool_is_clean p"
  by (simp_all add: pool_used_def pool_is_clean_def add.assoc)

lemma unat_add64: "unat (w :: 64 word) + n < 2 ^ 64 \<Longrightarrow> unat (w + of_nat n) = unat w + n"
  by (simp add: unat_word_ariths unsigned_of_nat take_bit_nat_eq_self)

lemma fast_ok_pool_used:
  assumes "fast_ok p" and "unat (reserve_count p) + n < 2 ^ 64"
  shows "fast_ok (pool_used n p)"
proof -
  have "unat (release_count p) + n < 2 ^ 64" using assms by (simp add: fast_ok_def)
  with assms unat_add64 [of "reserve_count p" n] unat_add64 [of "release_count p" n]
  show ?thesis by (simp add: fast_ok_def pool_used_def)
qed

lemma dummy_take_sample:
  assumes q: "data_to_send r = d # rest" and len: "length (ddr_payload d) < 2 ^ 32"
    and fresh: "malloc_fresh malloc (fast_heap p)"
    and ok: "fast_ok p" and room: "unat (reserve_count p) + 1 < 2 ^ 64"
  shows "\<exists>data p1 n. dummy_reader_take malloc data_received_default (r, p) =
      (RETCODE_OK, data, r\<lparr>data_to_send := rest\<rparr>, p1) \<and>
    data_view p1 data = (ddr_payload d, ddr_source_guid d) \<and> n \<le> 1 \<and>
    (if payload_length (dr_payload data) > 0
     then \<exists>t. fast_release_payload p1 (dr_payload data) = Inr (True, pool_used n p, t)
     else p1 = pool_used n p)"
proof (cases "ddr_payload d = []")
  case True
  let ?data = "data_received_default\<lparr>dr_properties :=
      data_properties_default\<lparr>source_guid := ddr_source_guid d\<rparr>\<rparr>"
  from True show ?thesis
    using q by (intro exI [of _ ?data] exI [of _ p] exI [of _ 0])
      (simp add: dummy_reader_take_def Let_def fast_get_payload_def fast_reserve_def
        heap_write_def data_received_default_def data_view_def payload_bytes_def)
next
  case False
  let ?sz = "of_nat (length (ddr_payload d)) :: 32 word"
  have sz: "unat ?sz = length (ddr_payload d)"
    using len by (simp add: unsigned_of_nat take_bit_nat_eq_self)
  with False have nz: "?sz \<noteq> 0" "0 < ?sz" by (auto simp: word_gt_0 simp flip: unat_eq_0)
  obtain a junk where a: "malloc (fast_heap p) ?sz = Some (a, junk)" "fast_heap p a = None"
    using fresh unfolding malloc_fresh_def by blast
  let ?b = "\<lparr>block_refs = 1, block_bytes = write_bytes (ddr_payload d) junk\<rparr>"
  let ?p1 = "p\<lparr>reserve_count := reserve_count p + 1, fast_heap := (fast_heap p)(a \<mapsto> ?b)\<rparr>"
  let ?t = "\<lparr>payload_data = Some a, payload_length = ?sz, payload_max_size = ?sz, payload_pos = 0\<rparr>"
  let ?data = "data_received_default\<lparr>dr_payload := ?t,
      dr_properties := data_properties_default\<lparr>source_guid := ddr_source_guid d\<rparr>\<rparr>"
  have take: "dummy_reader_take malloc data_received_default (r, p) =
      (RETCODE_OK, ?data, r\<lparr>data_to_send := rest\<rparr>, ?p1)"
    using q a nz by (simp add: dummy_reader_take_def Let_def fast_get_payload_def fast_reserve_def
        heap_write_def data_received_default_def add_reserved_payload_def)
  have bytes: "data_view ?p1 ?data = (ddr_payload d, ddr_source_guid d)"
    using payload_bytes_written [of ?t "ddr_payload d" a ?p1 ?b junk] len
    by (simp add: data_view_def)
  have le: "unat (release_count p) \<le> unat (reserve_count p)"
    using ok by (simp add: fast_ok_def)
  then have "\<not> reserve_count p + 1 < release_count p + 1"
    using room unat_add64 [of "reserve_count p" 1] unat_add64 [of "release_count p" 1]
    by (simp add: word_less_nat_alt)
  then have "fast_release_payload ?p1 ?t = Inr (True, pool_used 1 p, payload_clear (payload_clear ?t))"
    using a by (simp add: fast_release_payload_def fast_release_def add_release_payload_def Let_def
        pool_used_def fun_upd_idem)
  then show ?thesis
    using take bytes nz by (intro exI [of _ ?data] exI [of _ ?p1] exI [of _ 1]) simp
qed

section \<open>The whole transmission\<close>

definition reader_sample :: "dummy_data_received \<Rightarrow> octet list \<times> guid" where
  "reader_sample d = (ddr_payload d, ddr_source_guid d)"

definition dummy_reader_at ::
    "('cb, 'hr, 'hw) object_store \<Rightarrow> ref \<Rightarrow> dummy_data_received list \<Rightarrow> bool" where
  "dummy_reader_at st r ds \<longleftrightarrow>
     (\<exists>rd. reader_at st r = Some (RO_dummy rd) \<and> br_enabled rd \<and> data_to_send rd = ds)"

lemma transmit_step_data:
  assumes "should_transmit t" and rd: "reader_at st (track_reader t) = Some (RO_dummy rd)" "br_enabled rd"
    and take: "dummy_reader_take (env_malloc E) data_received_default (rd, p) = (RETCODE_OK, data, rd', p1)"
    and fwd: "forward_all E (track_writers t) data
        (st\<lparr>reader_at := (reader_at st)(track_reader t \<mapsto> RO_dummy rd')\<rparr>) p1 = Inr (data, st2, p1)"
    and rel: "if payload_length (dr_payload data) > 0
              then \<exists>t. fast_release_payload p1 (dr_payload data) = Inr (True, p2, t) else p1 = p2"
  shows "transmit (Suc n) E t st p = transmit n E (t\<lparr>data_available_status := 1\<rparr>) st2 p2"
proof -
  have "ireader_take E data_received_default (RO_dummy rd, p) = (RETCODE_OK, data, RO_dummy rd', p1)"
    using take rd(2) by (simp add: base_reader_take_def)
  with assms(1) rd fwd rel show ?thesis
    by (subst transmit.simps) (auto simp: Let_def transmitting_data_def)
qed

lemma transmit_step_empty:
  assumes "should_transmit t" and "dummy_reader_at st (track_reader t) []"
  shows "\<exists>st'. transmit (Suc n) E t st p = Some (Inr (t\<lparr>data_available_status := 0\<rparr>, st', p)) \<and>
    writer_at st' = writer_at st \<and> dummy_reader_at st' (track_reader t) []"
proof -
  obtain rd where rd: "reader_at st (track_reader t) = Some (RO_dummy rd)" "br_enabled rd"
    "data_to_send rd = []" using assms(2) by (auto simp: dummy_reader_at_def)
  then have "ireader_take E data_received_default (RO_dummy rd, p)
      = (RETCODE_NO_DATA, data_received_default, RO_dummy rd, p)"
    by (simp add: base_reader_take_def dummy_reader_take_def Let_def)
  with assms rd show ?thesis
    by (subst transmit.simps) (simp add: Let_def transmitting_data_def dummy_reader_at_def)
qed

lemma transmit_dummy_sample:
  assumes "should_transmit t" and "dummy_reader_at st (track_reader t) (d # ds)"
    and "distinct (map snd (track_writers t))"
    and "\<forall>r\<in>snd ` set (track_writers t). dummy_view st r \<noteq> None" and "length (ddr_payload d) < 2 ^ 32"
    and "malloc_fresh (env_malloc E) (fast_heap p)" and "fast_ok p" and "unat (reserve_count p) + 1 < 2 ^ 64"
  shows "\<exists>st' k. transmit (Suc n) E t st p = transmit n E (t\<lparr>data_available_status := 1\<rparr>) st' (pool_used k p) \<and>
    k \<le> 1 \<and> dummy_reader_at st' (track_reader t) ds \<and>
    (\<forall>r. dummy_view st' r = (if r \<in> snd ` set (track_writers t)
       then map_option (\<lambda>l. l @ [reader_sample d]) (dummy_view st r) else dummy_view st r))"
proof -
  obtain rd where rd: "reader_at st (track_reader t) = Some (RO_dummy rd)" "br_enabled rd"
    "data_to_send rd = d # ds" using assms(2) by (auto simp: dummy_reader_at_def)
  obtain data p1 k where take: "dummy_reader_take (env_malloc E) data_received_default (rd, p) =
      (RETCODE_OK, data, rd\<lparr>data_to_send := ds\<rparr>, p1)"
    and view: "data_view p1 data = reader_sample d" and k: "k \<le> 1"
    and rel: "if payload_length (dr_payload data) > 0
       then \<exists>t. fast_release_payload p1 (dr_payload data) = Inr (True, pool_used k p, t)
       else p1 = pool_used k p"
    using dummy_take_sample [OF rd(3) assms(5-8)] by (auto simp: reader_sample_def)
  let ?st1 = "st\<lparr>reader_at := (reader_at st)(track_reader t \<mapsto> RO_dummy (rd\<lparr>data_to_send := ds\<rparr>))\<rparr>"
  have same: "dummy_view ?st1 r = dummy_view st r" for r by (simp add: dummy_view_def)
  obtain st2 where st2: "forward_all E (track_writers t) data ?st1 p1 = Inr (data, st2, p1)"
    "reader_at st2 = reader_at ?st1"
    "\<forall>r. dummy_view st2 r = (if r \<in> snd ` set (track_writers t)
       then map_option (\<lambda>l. l @ [reader_sample d]) (dummy_view st r) else dummy_view st r)"
    using forward_all_dummy [OF assms(3), of ?st1 E data p1] assms(4) same view by auto
  moreover have "transmit (Suc n) E t st p = transmit n E (t\<lparr>data_available_status := 1\<rparr>) st2 (pool_used k p)"
    by (rule transmit_step_data [OF assms(1) rd(1,2) take st2(1) rel])
  moreover have "dummy_reader_at st2 (track_reader t) ds" using st2(2) rd by (simp add: dummy_reader_at_def)
  ultimately show ?thesis using k by blast
qed

lemma transmit_dummy:
  assumes "should_transmit t" and "dummy_reader_at st (track_reader t) ds"
    and "distinct (map snd (track_writers t))"
    and "\<forall>r\<in>snd ` set (track_writers t). dummy_view st r \<noteq> None"
    and "\<forall>d\<in>set ds. length (ddr_payload d) < 2 ^ 32"
    and "malloc_fresh (env_malloc E) (fast_heap p)" and "fast_ok p"
    and "unat (reserve_count p) + length ds < 2 ^ 64" and "length ds < fuel"
  shows "\<exists>st' k. transmit fuel E t st p =
      Some (Inr (t\<lparr>data_available_status := 0\<rparr>, st', pool_used k p)) \<and> k \<le> length ds \<and>
    dummy_reader_at st' (track_reader t) [] \<and>
    (\<forall>r. dummy_view st' r = (if r \<in> snd ` set (track_writers t)
       then map_option (\<lambda>l. l @ map reader_sample ds) (dummy_view st r) else dummy_view st r))"
  using assms
proof (induction ds arbitrary: t st p fuel)
  case Nil
  then obtain n where n: "fuel = Suc n" by (cases fuel) auto
  from transmit_step_empty [OF Nil.prems(1,2), of n E p] obtain st' where st':
    "transmit fuel E t st p = Some (Inr (t\<lparr>data_available_status := 0\<rparr>, st', p))"
    "writer_at st' = writer_at st" "dummy_reader_at st' (track_reader t) []" using n by blast
  have "dummy_view st' r = dummy_view st r" for r using st'(2) by (simp add: dummy_view_def)
  moreover have "map_option (\<lambda>l. l @ []) (dummy_view st r) = dummy_view st r" for r
    by (cases "dummy_view st r") auto
  ultimately show ?case using st' by (intro exI [of _ st'] exI [of _ 0]) auto
next
  case (Cons d ds)
  obtain n where n: "fuel = Suc n" "length ds < n" using Cons.prems(9) by (cases fuel) auto
  have room: "unat (reserve_count p) + 1 < 2 ^ 64" and len: "length (ddr_payload d) < 2 ^ 32"
    using Cons.prems(5,8) by auto
  let ?t = "t\<lparr>data_available_status := 1\<rparr>"
  obtain st2 k where step: "transmit fuel E t st p = transmit n E ?t st2 (pool_used k p)" and k: "k \<le> 1"
    and rd: "dummy_reader_at st2 (track_reader t) ds"
    and view: "\<And>r. dummy_view st2 r = (if r \<in> snd ` set (track_writers t)
       then map_option (\<lambda>l. l @ [reader_sample d]) (dummy_view st r) else dummy_view st r)"
    using transmit_dummy_sample [OF Cons.prems(1-4) len Cons.prems(6,7) room, of n] n(1) by blast
  have "unat (reserve_count (pool_used k p)) = unat (reserve_count p) + k"
    using unat_add64 [of "reserve_count p" k] room k by (simp add: pool_used_def)
  then have cnt: "unat (reserve_count (pool_used k p)) + length ds < 2 ^ 64" using k Cons.prems(8) by simp
  have t: "should_transmit ?t" using Cons.prems(1) by (simp add: should_transmit_def)
  have ws: "\<forall>r\<in>snd ` set (track_writers ?t). dummy_view st2 r \<noteq> None" using view Cons.prems(4) by auto
  have ok: "fast_ok (pool_used k p)" using fast_ok_pool_used [OF Cons.prems(7)] room k by simp
  obtain st' j where st': "transmit n E ?t st2 (pool_used k p) =
      Some (Inr (t\<lparr>data_available_status := 0\<rparr>, st', pool_used j (pool_used k p)))"
    "j \<le> length ds" "dummy_reader_at st' (track_reader t) []"
    "\<And>r. dummy_view st' r = (if r \<in> snd ` set (track_writers t)
       then map_option (\<lambda>l. l @ map reader_sample ds) (dummy_view st2 r) else dummy_view st2 r)"
    using Cons.IH [OF t _ _ ws _ _ ok cnt n(2)] rd Cons.prems by auto
  have "dummy_view st' r = (if r \<in> snd ` set (track_writers t)
       then map_option (\<lambda>l. l @ map reader_sample (d # ds)) (dummy_view st r) else dummy_view st r)" for r
    using st'(4) view by (simp add: option.map_comp comp_def)
  with step st' k show ?case by (intro exI [of _ st'] exI [of _ "k + j"]) simp
qed

section \<open>Properties\<close>


definition sample_topic :: dds_topic where
  "sample_topic = dds_topic_of_names 1 ''t'' ''T''"

definition sample_data :: dummy_data_received where
  "sample_data = \<lparr>ddr_payload = [1, 2], ddr_source_guid = guid_unknown\<rparr>"

definition sample_store :: "(nat, unit, unit) object_store" where
  "sample_store =
     \<lparr>next_ref = 2,
      writer_at = [1 \<mapsto> WO_dummy \<lparr>bw_participant_id = PId ''b'', bw_topic = sample_topic, bw_enabled = True,
                                data_stored = []\<rparr>],
      reader_at = [0 \<mapsto> RO_dummy \<lparr>br_participant_id = PId ''a'', br_topic = sample_topic,
                                br_on_data_available = None, br_enabled = True, data_to_send = [sample_data]\<rparr>]\<rparr>"

definition sample_track :: "nat track" where
  "sample_track =
     \<lparr>reader_participant_id = PId ''a'', track_topic = sample_topic, track_reader = 0,
      track_writers = [(PId ''b'', 1)], track_enabled = True, track_exit = False,
      data_available_status = 0, transmit_task_id = 0, track_callback = 0\<rparr>"


end
