(* ===== verification/Track_Refinement.thy ===== *)
theory Track_Refinement
  imports Track_Run
begin

text \<open>
  The functions of a track against the interleaved protocol: \<open>data_available\<close> and \<open>transmit\<close>, run on dummy
  endpoints, are runs of the listener and of the worker of \<open>track_step\<close>. What holds for every interleaving of
  the protocol therefore holds around these runs.
\<close>

section \<open>Abstraction\<close>

text \<open>
  The protocol keeps what waits in the reader and what was forwarded; every writer of the track has received what it had
  before, \<open>base\<close>, and then what was forwarded.
\<close>

type_synonym sample = "octet list \<times> guid"

definition track_abs ::
    "(ref \<Rightarrow> sample list) \<Rightarrow> 'cb track \<Rightarrow> ('cb, 'hr, 'hw) object_store \<Rightarrow> sample track_sys \<Rightarrow> bool" where
  "track_abs base t st s \<longleftrightarrow>
     ts_enabled s = track_enabled t \<and> ts_exit s = track_exit t \<and> ts_status s = data_available_status t \<and>
     (\<exists>ds. dummy_reader_at st (track_reader t) ds \<and> ts_queue s = map reader_sample ds) \<and>
     (\<forall>r\<in>snd ` set (track_writers t). dummy_view st r = Some (base r @ ts_out s))"

section \<open>The worker alone\<close>

lemmas track_one = steps_one [where step = track_step]
lemmas track_next = steps_next [where step = track_step]

lemma worker_takes:
  "ts_worker s = W_take \<Longrightarrow> ts_status s = transmitting_data \<Longrightarrow> ts_enabled s \<Longrightarrow> \<not> ts_exit s \<Longrightarrow>
   steps track_step s (s\<lparr>ts_queue := [], ts_out := ts_out s @ ts_queue s, ts_status := no_more_data, ts_worker := W_idle\<rparr>)"
proof (induction "ts_queue s" arbitrary: s)
  case Nil
  let ?s = "s\<lparr>ts_worker := W_sub\<rparr>"
  have 1: "track_step s ?s" using w_take_none [of s] Nil by simp
  have 2: "track_step ?s (s\<lparr>ts_status := no_more_data, ts_worker := W_idle\<rparr>)"
    using w_sub [of ?s] Nil by (simp add: status_values)
  have "s\<lparr>ts_queue := [], ts_out := ts_out s @ ts_queue s, ts_status := no_more_data, ts_worker := W_idle\<rparr> =
      s\<lparr>ts_status := no_more_data, ts_worker := W_idle\<rparr>"
    using Nil(1) by (cases s) simp
  with track_next [OF track_one [OF 1] 2] show ?case by simp
next
  case (Cons d q)
  let ?a = "s\<lparr>ts_queue := q, ts_worker := W_fwd d\<rparr>"
  let ?b = "s\<lparr>ts_queue := q, ts_out := ts_out s @ [d], ts_worker := W_check\<rparr>"
  let ?c = "s\<lparr>ts_queue := q, ts_out := ts_out s @ [d], ts_worker := W_store\<rparr>"
  let ?d = "s\<lparr>ts_queue := q, ts_out := ts_out s @ [d], ts_status := transmitting_data, ts_worker := W_take\<rparr>"
  have a: "track_step s ?a" using w_take_data [of s d q] Cons by simp
  have b: "track_step ?a ?b" using w_forward [of ?a d] by simp
  have c: "track_step ?b ?c" using w_check [of ?b] Cons.prems by simp
  have d: "track_step ?c ?d" using w_store [of ?c] Cons.prems by simp
  note run = track_next [OF track_next [OF track_next [OF track_one [OF a] b] c] d]
  have "steps track_step ?d (?d\<lparr>ts_queue := [], ts_out := ts_out ?d @ ts_queue ?d, ts_status := no_more_data,
      ts_worker := W_idle\<rparr>)"
    by (rule Cons.hyps(1)) (use Cons.prems in simp_all)
  from steps_trans [OF this run] Cons.hyps(2) [symmetric] show ?case by simp
qed

lemma worker_transmits:
  assumes "ts_worker s = W_check" and "ts_enabled s" and "\<not> ts_exit s"
  shows "steps track_step s
    (s\<lparr>ts_queue := [], ts_out := ts_out s @ ts_queue s, ts_status := no_more_data, ts_worker := W_idle\<rparr>)"
proof -
  let ?c = "s\<lparr>ts_worker := W_store\<rparr>" and ?d = "s\<lparr>ts_status := transmitting_data, ts_worker := W_take\<rparr>"
  have c: "track_step s ?c" using w_check [of s] assms by simp
  have d: "track_step ?c ?d" using w_store [of ?c] by simp
  have "steps track_step ?d (?d\<lparr>ts_queue := [], ts_out := ts_out ?d @ ts_queue ?d, ts_status := no_more_data,
      ts_worker := W_idle\<rparr>)"
    by (rule worker_takes) (use assms in simp_all)
  from steps_trans [OF this track_next [OF track_one [OF c] d]] show ?thesis by simp
qed

lemma worker_leaves:
  assumes "ts_worker s = W_check" and "\<not> (ts_enabled s \<and> \<not> ts_exit s)"
  shows "steps track_step s (s\<lparr>ts_worker := W_idle\<rparr>)"
  using track_one [OF w_check [OF assms(1)]] assms(2) by (auto split: if_splits)

section \<open>The listener alone\<close>

text \<open>\<open>data_available\<close> is a run of the listener from its call to its return; the tasks it emits are pending.\<close>

lemma data_available_refines:
  assumes "track_abs base t st s" and "ts_listener s = L_called" and "data_available t = (es, t')"
  shows "\<exists>s'. steps track_step s s' \<and> track_abs base t' st s' \<and> ts_listener s' = L_idle \<and>
    ts_pending s' = ts_pending s + length es \<and> ts_worker s' = ts_worker s \<and> ts_queue s' = ts_queue s"
proof (cases "track_enabled t")
  case False
  then have e: "es = []" "t' = t" using assms(3) by (simp_all add: data_available_def)
  have "track_step s (s\<lparr>ts_listener := L_idle\<rparr>)"
    using l_check [OF assms(2)] assms(1) False by (simp add: track_abs_def)
  from track_one [OF this] assms(1) e show ?thesis
    by (intro exI [of _ "s\<lparr>ts_listener := L_idle\<rparr>"]) (simp add: track_abs_def)
next
  case True
  let ?a = "s\<lparr>ts_listener := L_checked\<rparr>"
  let ?z = "ts_status s = no_more_data"
  let ?b = "s\<lparr>ts_status := ts_status s + new_data_arrived, ts_calls := ts_calls s + 1,
      ts_listener := (if ?z then L_emit else L_idle)\<rparr>"
  let ?c = "?b\<lparr>ts_pending := ts_pending s + 1, ts_listener := L_idle\<rparr>"
  have st: "ts_status s = data_available_status t" using assms(1) by (simp add: track_abs_def)
  have a: "track_step s ?a" using l_check [OF assms(2)] assms(1) True by (simp add: track_abs_def)
  have b: "track_step ?a ?b" using l_add [of ?a] by simp
  note ab = track_next [OF track_one [OF a] b]
  have es: "es = (if ?z then [transmit_task_id t] else [])"
    and t': "t' = t\<lparr>data_available_status := data_available_status t + new_data_arrived\<rparr>"
    using assms(3) True st by (auto simp: data_available_def Let_def)
  show ?thesis
  proof (cases ?z)
    case True
    then have "track_step ?b ?c" using l_emit [of ?b] by simp
    from track_next [OF ab this] assms(1) es t' st True show ?thesis
      by (intro exI [of _ ?c]) (simp add: track_abs_def)
  next
    case False
    with ab assms(1) es t' st show ?thesis by (intro exI [of _ ?b]) (simp add: track_abs_def)
  qed
qed

section \<open>Properties\<close>

text \<open>
  C7. The transmission loop implements the protocol. Whatever state of a track and of its dummy endpoints a
  state of the protocol describes, with the worker at the top of its loop, the function ends, within fuel for the
  waiting samples, in a state that the protocol describes after a run of the worker alone back to idle, whether the
  track should transmit or not.
\<close>

theorem transmit_refines_worker:
  assumes "track_abs base t st s" and "ts_worker s = W_check"
    and "dummy_reader_at st (track_reader t) ds" and "distinct (map snd (track_writers t))"
    and "\<forall>d\<in>set ds. length (ddr_payload d) < 2 ^ 32"
    and "malloc_fresh (env_malloc E) (fast_heap p)" and "fast_ok p"
    and "unat (reserve_count p) + length ds < 2 ^ 64" and "length ds < fuel"
  shows "\<exists>t' st' p' s'. transmit fuel E t st p = Some (Inr (t', st', p')) \<and> steps track_step s s' \<and>
    track_abs base t' st' s' \<and> ts_worker s' = W_idle \<and>
    ts_pending s' = ts_pending s \<and> ts_listener s' = ts_listener s \<and> ts_arrived s' = ts_arrived s"
proof (cases "should_transmit t")
  case False
  then have "transmit fuel E t st p = Some (Inr (t, st, p))" by (subst transmit.simps) simp
  moreover have "steps track_step s (s\<lparr>ts_worker := W_idle\<rparr>)"
    by (rule worker_leaves) (use assms(1,2) False in \<open>auto simp: track_abs_def should_transmit_def\<close>)
  moreover have "track_abs base t st (s\<lparr>ts_worker := W_idle\<rparr>)" using assms(1) by (simp add: track_abs_def)
  ultimately show ?thesis by fastforce
next
  case True
  have v: "\<forall>r\<in>snd ` set (track_writers t). dummy_view st r \<noteq> None" using assms(1) by (simp add: track_abs_def)
  obtain st' k where tr: "transmit fuel E t st p = Some (Inr (t\<lparr>data_available_status := 0\<rparr>, st', pool_used k p))"
    "dummy_reader_at st' (track_reader t) []"
    "\<forall>r. dummy_view st' r = (if r \<in> snd ` set (track_writers t)
       then map_option (\<lambda>l. l @ map reader_sample ds) (dummy_view st r) else dummy_view st r)"
    using transmit_dummy [OF True assms(3,4) v assms(5-9)] by blast
  let ?s = "s\<lparr>ts_queue := [], ts_out := ts_out s @ ts_queue s, ts_status := no_more_data, ts_worker := W_idle\<rparr>"
  have "steps track_step s ?s"
    by (rule worker_transmits) (use assms(1,2) True in \<open>auto simp: track_abs_def should_transmit_def\<close>)
  moreover have "ts_queue s = map reader_sample ds"
    using assms(1,3) by (auto simp: track_abs_def dummy_reader_at_def)
  then have "track_abs base (t\<lparr>data_available_status := 0\<rparr>) st' ?s"
    using assms(1) tr(2,3) by (auto simp: track_abs_def no_more_data_def)
  ultimately show ?thesis using tr(1) by fastforce
qed

definition sample_waiting_sys :: "sample track_sys" where
  "sample_waiting_sys =
     \<lparr>ts_enabled = True, ts_exit = False, ts_status = 0, ts_pending = 0, ts_queue = [([1, 2], guid_unknown)],
      ts_out = [], ts_worker = W_check, ts_listener = L_idle, ts_arrived = [([1, 2], guid_unknown)], ts_calls = 1\<rparr>"

theorem transmit_refines_worker_witness:
  "\<exists>t' st' p' s'. transmit 2 sample_env sample_track sample_store fast_pool_new = Some (Inr (t', st', p')) \<and>
     steps track_step sample_waiting_sys s' \<and> track_abs (\<lambda>_. []) t' st' s' \<and> ts_worker s' = W_idle"
proof -
  have a: "track_abs (\<lambda>_. []) sample_track sample_store sample_waiting_sys" "ts_worker sample_waiting_sys = W_check"
    "dummy_reader_at sample_store (track_reader sample_track) [sample_data]"
    "distinct (map snd (track_writers sample_track))"
    by (simp_all add: track_abs_def sample_track_def sample_store_def sample_waiting_sys_def dummy_reader_at_def
        dummy_view_def reader_sample_def sample_data_def)
  have b: "\<forall>d\<in>set [sample_data]. length (ddr_payload d) < 2 ^ 32"
    "malloc_fresh (env_malloc sample_env) (fast_heap fast_pool_new)" "fast_ok fast_pool_new"
    "unat (reserve_count fast_pool_new) + length [sample_data] < 2 ^ 64" "length [sample_data] < 2"
    by (simp_all add: malloc_fresh_def sample_env_def fast_pool_new_def fast_ok_def sample_data_def)
  from transmit_refines_worker [OF a b] show ?thesis by blast
qed

end
