(* ===== verification/DDS_Bridge.thy ===== *)
theory DDS_Bridge
  imports Track
begin

text \<open>
  A bridge for one DDS topic (\<^verbatim>\<open>communication/DDSBridge\<close>): a writer and a reader in every
  participant and one track per participant, from its reader to the writers of the other
  participants, and to its own when it is a repeater. The world is what the bridges share: the
  participants, the store of endpoint objects and the thread pool, of which the model keeps the
  task ids handed out and the tasks emitted.
\<close>

section \<open>State\<close>

datatype callback = CB_track "string \<times> string" participant_id | CB_rpc string guid

record ('hr, 'hw) world =
  w_participants :: "participant participants_database"
  w_store :: "(callback, 'hr, 'hw) object_store"
  w_next_task :: task_id
  w_emitted :: "task_id list"

record dds_bridge =
  brg_topic :: dds_topic
  brg_writers :: "(participant_id, ref) smap"
  brg_readers :: "(participant_id, ref) smap"
  brg_tracks :: "(participant_id, callback track) smap"
  brg_enabled :: bool

section \<open>Operations\<close>

definition world_create_writer ::
    "('q, 's, 'hr, 'hw) rtps_env \<Rightarrow> participant_id \<Rightarrow> dds_topic \<Rightarrow> ('hr, 'hw) world \<Rightarrow>
     (ref \<times> ('hr, 'hw) world) result" where
  "world_create_writer E pid topic w =
     (case pdb_get_participant pid (w_participants w) of
        None \<Rightarrow> Inl NullDereference
      | Some p \<Rightarrow>
          rbind (create_writer E topic (p, w_store w)) (\<lambda>(r, p', st').
            Inr (r, w\<lparr>w_participants := smap_set id pid p' (w_participants w), w_store := st'\<rparr>)))"

definition world_create_reader ::
    "('q, 's, 'hr, 'hw) rtps_env \<Rightarrow> participant_id \<Rightarrow> dds_topic \<Rightarrow> ('hr, 'hw) world \<Rightarrow>
     (ref \<times> ('hr, 'hw) world) result" where
  "world_create_reader E pid topic w =
     (case pdb_get_participant pid (w_participants w) of
        None \<Rightarrow> Inl NullDereference
      | Some p \<Rightarrow>
          rbind (create_reader E topic (p, w_store w)) (\<lambda>(r, p', st').
            Inr (r, w\<lparr>w_participants := smap_set id pid p' (w_participants w), w_store := st'\<rparr>)))"

definition world_delete_endpoints ::
    "participant_id \<Rightarrow> ref option \<Rightarrow> ref option \<Rightarrow> ('hr, 'hw) world \<Rightarrow> ('hr, 'hw) world" where
  "world_delete_endpoints pid writer reader w =
     (case pdb_get_participant pid (w_participants w) of
        None \<Rightarrow> w
      | Some p \<Rightarrow>
         (let p1 = (case writer of Some r \<Rightarrow> delete_writer r p | None \<Rightarrow> p);
              p2 = (case reader of Some r \<Rightarrow> delete_reader r p1 | None \<Rightarrow> p1)
          in w\<lparr>w_participants := smap_set id pid p2 (w_participants w)\<rparr>))"

text \<open>
  The constructor. An exception of a participant leaves the constructor, but what the participants
  have created and registered before it stays: the world is returned in both cases.
\<close>

fun create_endpoints ::
    "('q, 's, 'hr, 'hw) rtps_env \<Rightarrow> dds_topic \<Rightarrow> participant_id list \<Rightarrow>
     (participant_id, ref) smap \<Rightarrow> (participant_id, ref) smap \<Rightarrow> ('hr, 'hw) world \<Rightarrow>
     ((participant_id, ref) smap \<times> (participant_id, ref) smap) result \<times> ('hr, 'hw) world" where
  "create_endpoints E topic [] ws rs w = (Inr (ws, rs), w)"
| "create_endpoints E topic (pid # ids) ws rs w =
     (case world_create_writer E pid topic w of
        Inl e \<Rightarrow> (Inl e, w)
      | Inr (wr, w1) \<Rightarrow>
         (case world_create_reader E pid topic w1 of
            Inl e \<Rightarrow> (Inl e, w1)
          | Inr (rd, w2) \<Rightarrow>
              create_endpoints E topic ids (smap_set id pid wr ws) (smap_set id pid rd rs) w2))"

definition track_targets ::
    "participant \<Rightarrow> participant_id \<Rightarrow> (participant_id, ref) smap \<Rightarrow> (participant_id, ref) smap" where
  "track_targets p pid ws = (if \<not> participant_is_repeater p then smap_erase id pid ws else ws)"

fun create_tracks ::
    "dds_topic \<Rightarrow> (participant_id, ref) smap \<Rightarrow> (participant_id, ref) smap \<Rightarrow> participant_id list \<Rightarrow>
     (participant_id, callback track) smap \<Rightarrow> ('hr, 'hw) world \<Rightarrow>
     (participant_id, callback track) smap result \<times> ('hr, 'hw) world" where
  "create_tracks topic ws rs [] ts w = (Inr ts, w)"
| "create_tracks topic ws rs (pid # ids) ts w =
     (case (pdb_get_participant pid (w_participants w), smap_find id pid rs) of
        (Some p, Some rd) \<Rightarrow>
          (let (es, t, st) = track_new topic pid rd (track_targets p pid ws) (w_next_task w)
                               (CB_track (dds_topic_key topic) pid) False (w_store w)
           in create_tracks topic ws rs ids (smap_set id pid t ts)
                (w\<lparr>w_store := st, w_next_task := w_next_task w + 1, w_emitted := w_emitted w @ es\<rparr>))
      | _ \<Rightarrow> (Inl NullDereference, w))"

text \<open>Enabling and disabling loop over the tracks in the order of the map.\<close>

fun tracks_enable ::
    "(participant_id, callback track) smap \<Rightarrow> ('hr, 'hw) world \<Rightarrow>
     (participant_id, callback track) smap \<times> ('hr, 'hw) world" where
  "tracks_enable [] w = ([], w)"
| "tracks_enable ((pid, t) # ts) w =
     (let (es, t', st) = track_enable (t, w_store w);
          (ts', w') = tracks_enable ts (w\<lparr>w_store := st, w_emitted := w_emitted w @ es\<rparr>)
      in ((pid, t') # ts', w'))"

fun tracks_disable ::
    "(participant_id, callback track) smap \<Rightarrow> ('hr, 'hw) world \<Rightarrow>
     (participant_id, callback track) smap \<times> ('hr, 'hw) world" where
  "tracks_disable [] w = ([], w)"
| "tracks_disable ((pid, t) # ts) w =
     (let (t', st) = track_disable (t, w_store w);
          (ts', w') = tracks_disable ts (w\<lparr>w_store := st\<rparr>)
      in ((pid, t') # ts', w'))"

definition dds_bridge_enable :: "dds_bridge \<times> ('hr, 'hw) world \<Rightarrow> dds_bridge \<times> ('hr, 'hw) world" where
  "dds_bridge_enable bw =
     (if \<not> brg_enabled (fst bw) then
        let (ts, w) = tracks_enable (brg_tracks (fst bw)) (snd bw)
        in ((fst bw)\<lparr>brg_tracks := ts, brg_enabled := True\<rparr>, w)
      else bw)"

definition dds_bridge_disable :: "dds_bridge \<times> ('hr, 'hw) world \<Rightarrow> dds_bridge \<times> ('hr, 'hw) world" where
  "dds_bridge_disable bw =
     (if brg_enabled (fst bw) then
        let (ts, w) = tracks_disable (brg_tracks (fst bw)) (snd bw)
        in ((fst bw)\<lparr>brg_tracks := ts, brg_enabled := False\<rparr>, w)
      else bw)"

definition dds_bridge_new ::
    "('q, 's, 'hr, 'hw) rtps_env \<Rightarrow> dds_topic \<Rightarrow> bool \<Rightarrow> ('hr, 'hw) world \<Rightarrow>
     dds_bridge result \<times> ('hr, 'hw) world" where
  "dds_bridge_new E topic enable w =
     (let ids = pdb_get_participants_ids (w_participants w) in
      case create_endpoints E topic ids [] [] w of
        (Inl e, w1) \<Rightarrow> (Inl e, w1)
      | (Inr (ws, rs), w1) \<Rightarrow>
         (case create_tracks topic ws rs ids [] w1 of
            (Inl e, w2) \<Rightarrow> (Inl e, w2)
          | (Inr ts, w2) \<Rightarrow>
             (let b = \<lparr>brg_topic = topic, brg_writers = ws, brg_readers = rs, brg_tracks = ts,
                       brg_enabled = False\<rparr>
              in if enable then let (b', w3) = dds_bridge_enable (b, w2) in (Inr b', w3)
                 else (Inr b, w2))))"

fun destroy_tracks ::
    "(participant_id, callback track) smap \<Rightarrow> ('hr, 'hw) world \<Rightarrow> ('hr, 'hw) world" where
  "destroy_tracks [] w = w"
| "destroy_tracks ((pid, t) # ts) w =
     destroy_tracks ts (w\<lparr>w_store := snd (track_destroy (t, w_store w))\<rparr>)"

definition dds_bridge_destroy :: "dds_bridge \<times> ('hr, 'hw) world \<Rightarrow> ('hr, 'hw) world" where
  "dds_bridge_destroy bw =
     (let (b, w) = dds_bridge_disable bw;
          w1 = destroy_tracks (brg_tracks b) w
      in fold (\<lambda>pid. world_delete_endpoints pid (smap_find id pid (brg_writers b))
                       (smap_find id pid (brg_readers b)))
           (pdb_get_participants_ids (w_participants w1)) w1)"

section \<open>A switch\<close>

text \<open>
  Readers, writers, tracks and bridges are all switched on and off with functions that do nothing
  when the object is already in that state. What their callers rely on:
\<close>

fun switch_all :: "('a \<Rightarrow> 'a) \<Rightarrow> ('a \<Rightarrow> 'a) \<Rightarrow> bool list \<Rightarrow> 'a \<Rightarrow> 'a" where
  "switch_all on off [] x = x"
| "switch_all on off (c # cs) x = switch_all on off cs (if c then on x else off x)"

locale switchable =
  fixes on :: "'a \<Rightarrow> 'a" and off :: "'a \<Rightarrow> 'a" and is_on :: "'a \<Rightarrow> bool"
  assumes is_on_on: "is_on (on x)"
    and not_is_on_off: "\<not> is_on (off x)"
    and on_idle: "is_on x \<Longrightarrow> on x = x"
    and off_idle: "\<not> is_on x \<Longrightarrow> off x = x"
begin

lemma on_on [simp]: "on (on x) = on x"
  by (rule on_idle [OF is_on_on])

lemma off_off [simp]: "off (off x) = off x"
  by (rule off_idle [OF not_is_on_off])

lemma last_switch_decides: "cs \<noteq> [] \<Longrightarrow> is_on (switch_all on off cs x) = last cs"
  by (induction cs arbitrary: x) (auto simp: is_on_on not_is_on_off)

end

interpretation dummy_writer_switch: switchable "base_writer_enable id" "base_writer_disable id"
    "bw_enabled :: dummy_writer \<Rightarrow> bool"
  by unfold_locales (auto simp: base_writer_enable_def base_writer_disable_def)

interpretation multi_writer_switch: switchable "base_writer_enable multi_writer_enable_hook"
    "base_writer_disable multi_writer_disable_hook" "bw_enabled :: 'h multi_writer \<Rightarrow> bool"
  by unfold_locales
    (auto simp: base_writer_enable_def base_writer_disable_def multi_writer_enable_hook_def
      multi_writer_disable_hook_def)

interpretation reader_switch: switchable "\<lambda>r. snd (base_reader_enable hook r)" base_reader_disable
    br_enabled for hook :: "('cb, 'x) base_reader_scheme \<Rightarrow> 'cb list"
  by unfold_locales (auto simp: base_reader_enable_def base_reader_disable_def Let_def)

interpretation bridge_switch: switchable dds_bridge_enable dds_bridge_disable "\<lambda>bw. brg_enabled (fst bw)"
  by unfold_locales
    (auto simp: dds_bridge_enable_def dds_bridge_disable_def case_prod_unfold Let_def)

section \<open>Lemmas on the construction\<close>

lemma create_writer_okD:
  assumes "create_writer E topic (p, st) = Inr (r, p', st')"
  shows "r = next_ref st \<and> next_ref st' = next_ref st + 1 \<and>
    (\<exists>wo. writer_at st' = (writer_at st)(r \<mapsto> wo)) \<and> reader_at st' = reader_at st \<and>
    participant_is_repeater p' = participant_is_repeater p \<and>
    participant_id_of p' = participant_id_of p"
  using assms
  by (cases p) (auto simp: store_new_writer_def Let_def rbind_eq_Inr_iff split: option.splits)

lemma create_reader_okD:
  assumes "create_reader E topic (p, st) = Inr (r, p', st')"
  shows "r = next_ref st \<and> next_ref st' = next_ref st + 1 \<and>
    (\<exists>ro. reader_at st' = (reader_at st)(r \<mapsto> ro)) \<and> writer_at st' = writer_at st \<and>
    participant_is_repeater p' = participant_is_repeater p \<and>
    participant_id_of p' = participant_id_of p"
  using assms
  by (cases p) (auto simp: store_new_reader_def Let_def rbind_eq_Inr_iff split: option.splits)

definition repeaters :: "participant participants_database \<Rightarrow> participant_id \<Rightarrow> bool option" where
  "repeaters db pid = map_option participant_is_repeater (pdb_get_participant pid db)"

definition refs_below :: "ref \<Rightarrow> (participant_id, ref) smap \<Rightarrow> bool" where
  "refs_below n m \<longleftrightarrow> (\<forall>e\<in>set m. snd e < n)"

text \<open>The state of the two endpoint loops that the tracks later rely on.\<close>

definition endpoints_ok ::
    "(participant_id, ref) smap \<Rightarrow> (participant_id, ref) smap \<Rightarrow> ('hr, 'hw) world \<Rightarrow> bool" where
  "endpoints_ok ws rs w \<longleftrightarrow> smap_ok id ws \<and> smap_ok id rs \<and>
     refs_below (next_ref (w_store w)) ws \<and> refs_below (next_ref (w_store w)) rs \<and>
     distinct (map snd ws) \<and> distinct (map snd rs) \<and>
     (\<forall>e\<in>set ws. writer_at (w_store w) (snd e) \<noteq> None) \<and>
     (\<forall>e\<in>set rs. reader_at (w_store w) (snd e) \<noteq> None) \<and>
     smap_ok id (w_participants w)"

lemma smap_set_new_set:
  "smap_ok id m \<Longrightarrow> smap_find id k m = None \<Longrightarrow> set (smap_set id k v m) = insert (k, v) (set m)"
  by (induction m) (auto simp: smap_ok_Cons split: if_splits)

lemma smap_set_new_distinct:
  assumes "smap_ok id m" and "smap_find id k m = None" and "distinct (map snd m)" and "v \<notin> snd ` set m"
  shows "distinct (map snd (smap_set id k v m))"
  using assms
proof (induction m)
  case (Cons e m)
  obtain k' v' where e: "e = (k', v')" by fastforce
  show ?case
  proof (cases "k < k'")
    case True
    with Cons.prems show ?thesis unfolding e by auto
  next
    case False
    with Cons.prems have ok: "smap_ok id m" "smap_find id k m = None" "k \<noteq> k'"
      unfolding e by (auto simp: smap_ok_Cons split: if_splits)
    moreover have "v' \<notin> snd ` set (smap_set id k v m)"
      using smap_set_new_set [OF ok(1,2)] Cons.prems unfolding e by auto
    ultimately show ?thesis using Cons False unfolding e by auto
  qed
qed simp

lemma smap_find_id_in: "smap_ok id m \<Longrightarrow> smap_find id k m = Some v \<longleftrightarrow> (k, v) \<in> set m"
  using smap_find_in_ok [of id m k v] smap_find_SomeD [of id k m v] by auto

lemma world_create_writer_ok:
  assumes "world_create_writer E pid topic w = Inr (r, w')" and "endpoints_ok ws rs w"
    and "smap_find id pid ws = None"
  shows "endpoints_ok (smap_set id pid r ws) rs w' \<and> repeaters (w_participants w') = repeaters (w_participants w)
    \<and> w_next_task w' = w_next_task w \<and> map fst (w_participants w') = map fst (w_participants w)"
proof -
  obtain p p' st' where p: "pdb_get_participant pid (w_participants w) = Some p"
    and c: "create_writer E topic (p, w_store w) = Inr (r, p', st')"
    and w': "w' = w\<lparr>w_participants := smap_set id pid p' (w_participants w), w_store := st'\<rparr>"
    using assms(1) by (auto simp: world_create_writer_def rbind_eq_Inr_iff split: option.splits)
  note d = create_writer_okD [OF c] and i = assms(2) [unfolded endpoints_ok_def]
  have fresh: "r \<notin> snd ` set ws" using i d by (auto simp: refs_below_def)
  note s = smap_set_new_set [of ws pid r] and sd = smap_set_new_distinct [of ws pid r]
  have "endpoints_ok (smap_set id pid r ws) rs w'"
    unfolding endpoints_ok_def using i d s sd fresh assms(3) w'
    by (auto simp: refs_below_def less_Suc_eq)
  moreover have "repeaters (w_participants w') = repeaters (w_participants w)"
    using w' d p by (auto simp: repeaters_def pdb_get_participant_def fun_eq_iff)
  moreover have "map fst (w_participants w') = map fst (w_participants w)"
    using w' p i smap_keys_set_existing [of id "w_participants w" pid p']
    by (simp add: pdb_get_participant_def)
  ultimately show ?thesis using w' by simp
qed

lemma world_create_reader_ok:
  assumes "world_create_reader E pid topic w = Inr (r, w')" and "endpoints_ok ws rs w"
    and "smap_find id pid rs = None"
  shows "endpoints_ok ws (smap_set id pid r rs) w' \<and> repeaters (w_participants w') = repeaters (w_participants w)
    \<and> w_next_task w' = w_next_task w \<and> map fst (w_participants w') = map fst (w_participants w)"
proof -
  obtain p p' st' where p: "pdb_get_participant pid (w_participants w) = Some p"
    and c: "create_reader E topic (p, w_store w) = Inr (r, p', st')"
    and w': "w' = w\<lparr>w_participants := smap_set id pid p' (w_participants w), w_store := st'\<rparr>"
    using assms(1) by (auto simp: world_create_reader_def rbind_eq_Inr_iff split: option.splits)
  note d = create_reader_okD [OF c] and i = assms(2) [unfolded endpoints_ok_def]
  have fresh: "r \<notin> snd ` set rs" using i d by (auto simp: refs_below_def)
  note s = smap_set_new_set [of rs pid r] and sd = smap_set_new_distinct [of rs pid r]
  have "endpoints_ok ws (smap_set id pid r rs) w'"
    unfolding endpoints_ok_def using i d s sd fresh assms(3) w'
    by (auto simp: refs_below_def less_Suc_eq)
  moreover have "repeaters (w_participants w') = repeaters (w_participants w)"
    using w' d p by (auto simp: repeaters_def pdb_get_participant_def fun_eq_iff)
  moreover have "map fst (w_participants w') = map fst (w_participants w)"
    using w' p i smap_keys_set_existing [of id "w_participants w" pid p']
    by (simp add: pdb_get_participant_def)
  ultimately show ?thesis using w' by simp
qed

lemma create_endpoints_ok:
  assumes "create_endpoints E topic ids ws rs w = (Inr (ws', rs'), w')" and "distinct ids"
    and "endpoints_ok ws rs w"
    and "\<forall>pid\<in>set ids. smap_find id pid ws = None \<and> smap_find id pid rs = None"
  shows "endpoints_ok ws' rs' w' \<and> repeaters (w_participants w') = repeaters (w_participants w) \<and>
    w_next_task w' = w_next_task w \<and> map fst (w_participants w') = map fst (w_participants w) \<and>
    (\<forall>pid. smap_find id pid ws' \<noteq> None \<longleftrightarrow> pid \<in> set ids \<or> smap_find id pid ws \<noteq> None) \<and>
    (\<forall>pid. smap_find id pid rs' \<noteq> None \<longleftrightarrow> pid \<in> set ids \<or> smap_find id pid rs \<noteq> None)"
  using assms
proof (induction ids arbitrary: ws rs w)
  case (Cons pid ids)
  obtain wr w1 rd w2 where c: "world_create_writer E pid topic w = Inr (wr, w1)"
    "world_create_reader E pid topic w1 = Inr (rd, w2)"
    and rest: "create_endpoints E topic ids (smap_set id pid wr ws) (smap_set id pid rd rs) w2
      = (Inr (ws', rs'), w')"
    using Cons.prems(1) by (auto split: sum.splits)
  have n: "smap_find id pid ws = None" "smap_find id pid rs = None" using Cons.prems(4) by auto
  note a = world_create_writer_ok [OF c(1) Cons.prems(3) n(1)]
  note b = world_create_reader_ok [OF c(2) conjunct1 [OF a] n(2)]
  have "\<forall>j\<in>set ids. smap_find id j (smap_set id pid wr ws) = None \<and> smap_find id j (smap_set id pid rd rs) = None"
    using Cons.prems(2,4) by auto
  with Cons.IH [OF rest _ conjunct1 [OF b]] Cons.prems(2) a b show ?case by auto
qed simp

text \<open>Every track runs from its participant's reader to the targets the participant calls for.\<close>

definition track_wired ::
    "dds_topic \<Rightarrow> (participant_id, ref) smap \<Rightarrow> (participant_id, ref) smap \<Rightarrow>
     (participant_id \<Rightarrow> bool option) \<Rightarrow> participant_id \<Rightarrow> callback track \<Rightarrow> bool" where
  "track_wired topic ws rs reps pid t \<longleftrightarrow>
     reader_participant_id t = pid \<and> track_topic t = topic \<and> smap_find id pid rs = Some (track_reader t) \<and>
     (\<exists>rep. reps pid = Some rep \<and> track_writers t = (if rep then ws else smap_erase id pid ws)) \<and>
     \<not> track_exit t"

lemma store_update_reader_simps [simp]:
  "writer_at (store_update_reader f r st) = writer_at st"
  "next_ref (store_update_reader f r st) = next_ref st"
  "reader_at (store_update_reader f r st) j \<noteq> None \<longleftrightarrow> reader_at st j \<noteq> None"
  by (auto simp: store_update_reader_def)

lemma create_tracks_wired:
  assumes "\<forall>pid\<in>set ids. smap_find id pid rs \<noteq> None \<and> repeaters (w_participants w) pid \<noteq> None"
    and "\<forall>pid t. smap_find id pid ts = Some t \<longrightarrow> P pid t"
    and "\<And>pid t. pid \<in> set ids \<Longrightarrow> track_wired topic ws rs (repeaters (w_participants w)) pid t \<Longrightarrow>
          \<not> track_enabled t \<Longrightarrow> data_available_status t = 0 \<Longrightarrow> P pid t"
  shows "\<exists>ts' w'. create_tracks topic ws rs ids ts w = (Inr ts', w') \<and>
    w_participants w' = w_participants w \<and> writer_at (w_store w') = writer_at (w_store w) \<and>
    (\<forall>r. reader_at (w_store w') r = None \<longleftrightarrow> reader_at (w_store w) r = None) \<and>
    w_emitted w' = w_emitted w \<and> (smap_ok id ts \<longrightarrow> smap_ok id ts') \<and>
    (\<forall>pid t. smap_find id pid ts' = Some t \<longrightarrow> P pid t) \<and>
    (\<forall>pid. smap_find id pid ts' \<noteq> None \<longleftrightarrow> pid \<in> set ids \<or> smap_find id pid ts \<noteq> None)"
  using assms
proof (induction ids arbitrary: ts w)
  case (Cons pid ids)
  obtain rd p where rd: "smap_find id pid rs = Some rd"
    and p: "pdb_get_participant pid (w_participants w) = Some p"
    using Cons.prems(1) by (auto simp: repeaters_def)
  obtain es t st where new: "track_new topic pid rd (track_targets p pid ws) (w_next_task w)
      (CB_track (dds_topic_key topic) pid) False (w_store w) = (es, t, st)"
    by (metis prod_cases3)
  then have es: "es = []" and wr: "writer_at st = writer_at (w_store w)"
    and re: "\<forall>r. reader_at st r = None \<longleftrightarrow> reader_at (w_store w) r = None"
    and t: "track_wired topic ws rs (repeaters (w_participants w)) pid t" "\<not> track_enabled t"
      "data_available_status t = 0"
    using rd p by (auto simp: track_new_def Let_def track_wired_def repeaters_def track_targets_def
        no_more_data_def store_update_reader_def split: if_splits)
  let ?w = "w\<lparr>w_store := st, w_next_task := w_next_task w + 1, w_emitted := w_emitted w @ es\<rparr>"
  have "P pid t" using Cons.prems(3) t by simp
  have "\<exists>ts' w'. create_tracks topic ws rs ids (smap_set id pid t ts) ?w = (Inr ts', w') \<and>
    w_participants w' = w_participants ?w \<and> writer_at (w_store w') = writer_at (w_store ?w) \<and>
    (\<forall>r. reader_at (w_store w') r = None \<longleftrightarrow> reader_at (w_store ?w) r = None) \<and>
    w_emitted w' = w_emitted ?w \<and> (smap_ok id (smap_set id pid t ts) \<longrightarrow> smap_ok id ts') \<and>
    (\<forall>j u. smap_find id j ts' = Some u \<longrightarrow> P j u) \<and>
    (\<forall>j. smap_find id j ts' \<noteq> None \<longleftrightarrow> j \<in> set ids \<or> smap_find id j (smap_set id pid t ts) \<noteq> None)"
    by (rule Cons.IH) (use Cons.prems \<open>P pid t\<close> in auto)
  with es wr re rd p new show ?case by auto
qed auto

section \<open>Lemmas on the switches\<close>

fun iwriter_switch :: "'h writer_object \<Rightarrow> bool option" where
  "iwriter_switch WO_blank = None"
| "iwriter_switch (WO_echo w) = None"
| "iwriter_switch (WO_dummy w) = Some (bw_enabled w)"
| "iwriter_switch (WO_simple w) = Some (bw_enabled w)"
| "iwriter_switch (WO_multi w) = Some (bw_enabled w)"

definition writer_on :: "('cb, 'hr, 'hw) object_store \<Rightarrow> ref \<Rightarrow> bool" where
  "writer_on st r \<longleftrightarrow> (\<exists>w. writer_at st r = Some w \<and> iwriter_on w)"

definition reader_on :: "('cb, 'hr, 'hw) object_store \<Rightarrow> ref \<Rightarrow> bool" where
  "reader_on st r \<longleftrightarrow> (\<exists>rd. reader_at st r = Some rd \<and> ireader_on rd)"

definition writer_off :: "('cb, 'hr, 'hw) object_store \<Rightarrow> ref \<Rightarrow> bool" where
  "writer_off st r \<longleftrightarrow> (\<forall>w. writer_at st r = Some w \<longrightarrow> iwriter_switch w \<noteq> Some True)"

lemma iwriter_on_enable [simp]: "iwriter_on (iwriter_enable w)"
  by (cases w) (auto simp: multi_writer_switch.is_on_on)

lemma iwriter_off_disable [simp]: "iwriter_switch (iwriter_disable w) \<noteq> Some True"
  by (cases w) (auto simp: multi_writer_switch.not_is_on_off)

lemma ireader_on_enable [simp]: "ireader_on (snd (ireader_enable rd))"
  by (cases rd) (auto simp: case_prod_unfold Let_def)

lemma writer_on_update_enable:
  "writer_on (store_update_writer iwriter_enable j st) r \<longleftrightarrow>
     (if r = j then writer_at st r \<noteq> None else writer_on st r)"
  by (auto simp: writer_on_def store_update_writer_def)

lemma writer_off_update_disable:
  "writer_off (store_update_writer iwriter_disable j st) r \<longleftrightarrow> r = j \<or> writer_off st r"
  by (auto simp: writer_off_def store_update_writer_def)

lemma writer_at_update [simp]:
  "writer_at (store_update_writer f j st) r = None \<longleftrightarrow> writer_at st r = None"
  by (auto simp: store_update_writer_def)

lemma reader_at_update_writer [simp]: "reader_at (store_update_writer f j st) = reader_at st"
  by (simp add: store_update_writer_def)

lemma enable_writers_fold:
  "writer_at (fold (\<lambda>e. store_update_writer iwriter_enable (snd e)) ws st) r = None \<longleftrightarrow> writer_at st r = None"
  "reader_at (fold (\<lambda>e. store_update_writer iwriter_enable (snd e)) ws st) = reader_at st"
  "writer_on (fold (\<lambda>e. store_update_writer iwriter_enable (snd e)) ws st) r \<longleftrightarrow>
     (if r \<in> snd ` set ws then writer_at st r \<noteq> None else writer_on st r)"
  by (induction ws arbitrary: st) (auto simp: writer_on_update_enable)

lemma writer_off_update_reader: "writer_off (store_update_reader f j st) r = writer_off st r"
  by (simp add: writer_off_def)

lemma writer_on_update_reader: "writer_on (store_update_reader f j st) r = writer_on st r"
  by (simp add: writer_on_def)

lemma reader_on_update_enable:
  "reader_on (store_update_reader (\<lambda>r. snd (ireader_enable r)) j st) r \<longleftrightarrow>
     (if r = j then reader_at st r \<noteq> None else reader_on st r)"
  by (auto simp: reader_on_def store_update_reader_def)

lemma disable_writers_fold:
  "reader_at (fold (\<lambda>e. store_update_writer iwriter_disable (snd e)) ws st) = reader_at st"
  "writer_off (fold (\<lambda>e. store_update_writer iwriter_disable (snd e)) ws st) r \<longleftrightarrow>
     r \<in> snd ` set ws \<or> writer_off st r"
  by (induction ws arbitrary: st) (auto simp: writer_off_update_disable)

lemma run_data_available_frame [simp]:
  "track_enabled (snd (run_data_available cbs t)) = track_enabled t"
  "track_writers (snd (run_data_available cbs t)) = track_writers t"
  "track_reader (snd (run_data_available cbs t)) = track_reader t"
  by (induction cbs arbitrary: t) (auto simp: data_available_def Let_def case_prod_unfold)

lemma track_enable_effect:
  assumes "track_enable (t, st) = (es, t', st')" and "\<not> track_enabled t"
  shows "track_enabled t' \<and> track_writers t' = track_writers t \<and> track_reader t' = track_reader t"
    and "\<And>r. writer_at st' r = None \<longleftrightarrow> writer_at st r = None"
    and "\<And>r. reader_at st' r = None \<longleftrightarrow> reader_at st r = None"
    and "\<And>r. writer_on st' r \<longleftrightarrow>
          (if r \<in> snd ` set (track_writers t) then writer_at st r \<noteq> None else writer_on st r)"
    and "\<And>r. reader_on st' r \<longleftrightarrow> (if r = track_reader t then reader_at st r \<noteq> None else reader_on st r)"
proof -
  let ?ws = "fold (\<lambda>e. store_update_writer iwriter_enable (snd e)) (track_writers t) st"
  have st': "st' = store_update_reader (\<lambda>r. snd (ireader_enable r)) (track_reader t) ?ws"
    and t': "\<exists>cbs. t' = snd (run_data_available cbs (t\<lparr>track_enabled := True\<rparr>))"
    using assms by (auto simp: track_enable_def Let_def case_prod_unfold)
  show "track_enabled t' \<and> track_writers t' = track_writers t \<and> track_reader t' = track_reader t"
    using t' by auto
  fix r
  show "writer_at st' r = None \<longleftrightarrow> writer_at st r = None"
    unfolding st' by (simp add: enable_writers_fold)
  show "reader_at st' r = None \<longleftrightarrow> reader_at st r = None"
    unfolding st' by (simp add: store_update_reader_def enable_writers_fold)
  show "writer_on st' r \<longleftrightarrow>
      (if r \<in> snd ` set (track_writers t) then writer_at st r \<noteq> None else writer_on st r)"
    unfolding st' writer_on_update_reader enable_writers_fold ..
  show "reader_on st' r \<longleftrightarrow> (if r = track_reader t then reader_at st r \<noteq> None else reader_on st r)"
    unfolding st' reader_on_update_enable by (simp add: reader_on_def enable_writers_fold)
qed

lemma track_disable_effect:
  assumes "track_disable (t, st) = (t', st')" and "track_enabled t"
  shows "\<not> track_enabled t' \<and> track_writers t' = track_writers t \<and> track_reader t' = track_reader t \<and>
      data_available_status t' = data_available_status t"
    and "\<And>r. writer_off st' r \<longleftrightarrow> r \<in> snd ` set (track_writers t) \<or> writer_off st r"
proof -
  have t': "t' = t\<lparr>track_enabled := False\<rparr>"
    and st': "st' = fold (\<lambda>e. store_update_writer iwriter_disable (snd e)) (track_writers t)
      (store_update_reader ireader_disable (track_reader t) st)"
    using assms by (auto simp: track_disable_def Let_def)
  show "\<not> track_enabled t' \<and> track_writers t' = track_writers t \<and> track_reader t' = track_reader t \<and>
      data_available_status t' = data_available_status t"
    unfolding t' by simp
  show "writer_off st' r \<longleftrightarrow> r \<in> snd ` set (track_writers t) \<or> writer_off st r" for r
    unfolding st' disable_writers_fold writer_off_update_reader ..
qed

lemma tracks_enable_effect:
  assumes "tracks_enable ts w = (ts', w')" and "\<forall>e\<in>set ts. \<not> track_enabled (snd e)"
    and "\<forall>e\<in>set ts. reader_at (w_store w) (track_reader (snd e)) \<noteq> None"
    and "\<forall>e\<in>set ts. \<forall>x\<in>set (track_writers (snd e)). writer_at (w_store w) (snd x) \<noteq> None"
  shows "map fst ts' = map fst ts \<and> (\<forall>e\<in>set ts'. track_enabled (snd e)) \<and>
    (\<forall>r. writer_on (w_store w) r \<longrightarrow> writer_on (w_store w') r) \<and>
    (\<forall>r. reader_on (w_store w) r \<longrightarrow> reader_on (w_store w') r) \<and>
    (\<forall>e\<in>set ts. reader_on (w_store w') (track_reader (snd e)) \<and>
       (\<forall>x\<in>set (track_writers (snd e)). writer_on (w_store w') (snd x)))"
  using assms
proof (induction ts arbitrary: w ts')
  case (Cons e ts)
  obtain pid t where e: "e = (pid, t)" by fastforce
  obtain es t1 st1 where en: "track_enable (t, w_store w) = (es, t1, st1)" by (metis prod_cases3)
  let ?w = "w\<lparr>w_store := st1, w_emitted := w_emitted w @ es\<rparr>"
  obtain ts2 where rest: "tracks_enable ts ?w = (ts2, w')" and ts': "ts' = (pid, t1) # ts2"
    using Cons.prems(1) en unfolding e by (auto split: prod.splits)
  have off: "\<not> track_enabled t" using Cons.prems(2) e by simp
  note eff = track_enable_effect [OF en off]
  note IH = Cons.IH [OF rest]
  have IH': "map fst ts2 = map fst ts \<and> (\<forall>e\<in>set ts2. track_enabled (snd e)) \<and>
    (\<forall>r. writer_on st1 r \<longrightarrow> writer_on (w_store w') r) \<and>
    (\<forall>r. reader_on st1 r \<longrightarrow> reader_on (w_store w') r) \<and>
    (\<forall>e\<in>set ts. reader_on (w_store w') (track_reader (snd e)) \<and>
       (\<forall>x\<in>set (track_writers (snd e)). writer_on (w_store w') (snd x)))"
    using IH Cons.prems eff by simp
  have own: "reader_on st1 (track_reader t)" "\<forall>x\<in>set (track_writers t). writer_on st1 (snd x)"
    using eff Cons.prems(3,4) e by auto
  have mono: "writer_on (w_store w) r \<Longrightarrow> writer_on st1 r" "reader_on (w_store w) r \<Longrightarrow> reader_on st1 r" for r
    using eff by (auto simp: writer_on_def reader_on_def)
  show ?case using IH' own mono eff(1) ts' unfolding e by auto
qed simp

lemma tracks_disable_effect:
  assumes "tracks_disable ts w = (ts', w')" and "\<forall>e\<in>set ts. track_enabled (snd e)"
  shows "map fst ts' = map fst ts \<and> (\<forall>e\<in>set ts'. \<not> track_enabled (snd e)) \<and>
    (\<forall>r. writer_off (w_store w) r \<longrightarrow> writer_off (w_store w') r) \<and>
    (\<forall>e\<in>set ts. \<forall>x\<in>set (track_writers (snd e)). writer_off (w_store w') (snd x))"
  using assms
proof (induction ts arbitrary: w ts')
  case (Cons e ts)
  obtain pid t where e: "e = (pid, t)" by fastforce
  obtain t1 st1 where en: "track_disable (t, w_store w) = (t1, st1)" by (metis surj_pair)
  obtain ts2 where rest: "tracks_disable ts (w\<lparr>w_store := st1\<rparr>) = (ts2, w')" and ts': "ts' = (pid, t1) # ts2"
    using Cons.prems(1) en unfolding e by (auto split: prod.splits)
  have on: "track_enabled t" using Cons.prems(2) e by simp
  from Cons.IH [OF rest] Cons.prems(2) track_disable_effect [OF en on] ts' show ?case
    unfolding e by auto
qed simp

section \<open>The bridge\<close>

definition bridge_wired :: "dds_bridge \<Rightarrow> ('hr, 'hw) world \<Rightarrow> bool" where
  "bridge_wired b w \<longleftrightarrow>
     smap_ok id (brg_tracks b) \<and>
     (\<forall>pid. smap_find id pid (brg_tracks b) \<noteq> None \<longleftrightarrow> repeaters (w_participants w) pid \<noteq> None) \<and>
     (\<forall>pid. smap_find id pid (brg_writers b) \<noteq> None \<longleftrightarrow> repeaters (w_participants w) pid \<noteq> None) \<and>
     (\<forall>pid t. smap_find id pid (brg_tracks b) = Some t \<longrightarrow>
        track_wired (brg_topic b) (brg_writers b) (brg_readers b) (repeaters (w_participants w)) pid t) \<and>
     distinct (map snd (brg_writers b)) \<and>
     (\<forall>e\<in>set (brg_writers b). writer_at (w_store w) (snd e) \<noteq> None) \<and>
     (\<forall>e\<in>set (brg_readers b). reader_at (w_store w) (snd e) \<noteq> None)"

definition tracks_fresh :: "dds_bridge \<Rightarrow> bool" where
  "tracks_fresh b \<longleftrightarrow> \<not> brg_enabled b \<and>
     (\<forall>e\<in>set (brg_tracks b). \<not> track_enabled (snd e) \<and> data_available_status (snd e) = 0)"

lemma repeaters_in_ids:
  "smap_ok id db \<Longrightarrow> repeaters db pid \<noteq> None \<longleftrightarrow> pid \<in> set (pdb_get_participants_ids db)"
  by (auto simp: repeaters_def pdb_get_participant_def pdb_ids_eq smap_find_id_in
      dest: smap_find_SomeD) (metis smap_find_id_in image_eqI fst_conv not_None_eq)

lemma dds_bridge_new_wired:
  assumes ok: "smap_ok id (w_participants w)" and new: "dds_bridge_new E topic False w = (Inr b, w')"
  shows "bridge_wired b w' \<and> tracks_fresh b \<and> brg_topic b = topic \<and>
    repeaters (w_participants w') = repeaters (w_participants w)"
proof -
  let ?ids = "pdb_get_participants_ids (w_participants w)"
  obtain ws rs w1 where c: "create_endpoints E topic ?ids [] [] w = (Inr (ws, rs), w1)"
    using new by (auto simp: dds_bridge_new_def Let_def split: prod.splits sum.splits)
  have ids: "distinct ?ids"
    using pdb_ids_eq [OF ok] smap_ok_distinct [OF ok] by (simp add: comp_def)
  have start: "endpoints_ok [] [] w" using ok by (simp add: endpoints_ok_def refs_below_def)
  note e = create_endpoints_ok [OF c ids start]
  have e': "endpoints_ok ws rs w1" "repeaters (w_participants w1) = repeaters (w_participants w)"
    "\<And>pid. smap_find id pid ws \<noteq> None \<longleftrightarrow> pid \<in> set ?ids"
    "\<And>pid. smap_find id pid rs \<noteq> None \<longleftrightarrow> pid \<in> set ?ids"
    using e by auto
  have in_ids: "repeaters (w_participants w1) pid \<noteq> None \<longleftrightarrow> pid \<in> set ?ids" for pid
    using e'(2) repeaters_in_ids [OF ok] by metis
  obtain ts w2 where ct: "create_tracks topic ws rs ?ids [] w1 = (Inr ts, w2)"
    and t: "w_participants w2 = w_participants w1" "writer_at (w_store w2) = writer_at (w_store w1)"
      "\<forall>r. reader_at (w_store w2) r = None \<longleftrightarrow> reader_at (w_store w1) r = None" "smap_ok id ts"
      "\<forall>pid t. smap_find id pid ts = Some t \<longrightarrow>
         track_wired topic ws rs (repeaters (w_participants w1)) pid t \<and> \<not> track_enabled t \<and>
         data_available_status t = 0"
      "\<forall>pid. smap_find id pid ts \<noteq> None \<longleftrightarrow> pid \<in> set ?ids"
    using create_tracks_wired [of ?ids rs w1 "[]" "\<lambda>pid t.
        track_wired topic ws rs (repeaters (w_participants w1)) pid t \<and> \<not> track_enabled t \<and>
        data_available_status t = 0" topic ws] e'(4) in_ids by auto
  have b: "b = \<lparr>brg_topic = topic, brg_writers = ws, brg_readers = rs, brg_tracks = ts,
      brg_enabled = False\<rparr>" and w': "w' = w2"
    using new c ct by (auto simp: dds_bridge_new_def Let_def)
  have "bridge_wired b w'"
    unfolding bridge_wired_def b w' using t e'(1,3,4) in_ids by (auto simp: endpoints_ok_def)
  moreover have "tracks_fresh b"
    unfolding tracks_fresh_def b using t(4,5) by (auto simp: smap_find_id_in)
  ultimately show ?thesis using b w' t(1) e'(2) by simp
qed

lemma dds_bridge_enable_on:
  assumes "bridge_wired b w" and "tracks_fresh b" and en: "dds_bridge_enable (b, w) = (b', w')"
  shows "brg_enabled b' \<and> (\<forall>e\<in>set (brg_tracks b'). track_enabled (snd e)) \<and>
    (\<forall>pid t. smap_find id pid (brg_tracks b) = Some t \<longrightarrow>
       reader_on (w_store w') (track_reader t) \<and>
       (\<forall>x\<in>set (track_writers t). writer_on (w_store w') (snd x)))"
proof -
  obtain ts where en': "tracks_enable (brg_tracks b) w = (ts, w')"
    and b': "b' = b\<lparr>brg_tracks := ts, brg_enabled := True\<rparr>"
    using en assms(2) by (auto simp: dds_bridge_enable_def tracks_fresh_def split: prod.splits)
  have tw: "track_wired (brg_topic b) (brg_writers b) (brg_readers b) (repeaters (w_participants w))
      (fst e) (snd e)" if "e \<in> set (brg_tracks b)" for e
    using assms(1) that smap_find_in_ok [of id "brg_tracks b" "fst e" "snd e"]
    by (simp add: bridge_wired_def)
  have rd: "reader_at (w_store w) (track_reader (snd e)) \<noteq> None" if "e \<in> set (brg_tracks b)" for e
    using tw [OF that] assms(1) smap_find_SomeD [of id "fst e" "brg_readers b" "track_reader (snd e)"]
    by (force simp: track_wired_def bridge_wired_def)
  have "set (track_writers (snd e)) \<subseteq> set (brg_writers b)" if "e \<in> set (brg_tracks b)" for e
    using tw [OF that] set_smap_erase [of id "fst e" "brg_writers b"] by (auto simp: track_wired_def split: if_splits)
  then have wr: "writer_at (w_store w) (snd x) \<noteq> None"
    if "e \<in> set (brg_tracks b)" "x \<in> set (track_writers (snd e))" for e x
    using that assms(1) unfolding bridge_wired_def by blast
  note eff = tracks_enable_effect [OF en']
  have "(\<forall>e\<in>set ts. track_enabled (snd e)) \<and>
    (\<forall>e\<in>set (brg_tracks b). reader_on (w_store w') (track_reader (snd e)) \<and>
       (\<forall>x\<in>set (track_writers (snd e)). writer_on (w_store w') (snd x)))"
    using eff assms(2) rd wr by (auto simp: tracks_fresh_def)
  then show ?thesis
    using b' smap_find_SomeD [of id _ "brg_tracks b"] by force
qed

text \<open>Tracks do not touch the participants.\<close>

lemma tracks_enable_participants: "tracks_enable ts w = (ts', w') \<Longrightarrow> w_participants w' = w_participants w"
  by (induction ts w arbitrary: ts' w' rule: tracks_enable.induct) (auto simp: Let_def split: prod.splits)

lemma tracks_disable_participants: "tracks_disable ts w = (ts', w') \<Longrightarrow> w_participants w' = w_participants w"
  by (induction ts w arbitrary: ts' w' rule: tracks_disable.induct) (auto simp: Let_def split: prod.splits)

lemma destroy_tracks_participants [simp]: "w_participants (destroy_tracks ts w) = w_participants w"
  by (induction ts w rule: destroy_tracks.induct) simp_all

section \<open>Properties\<close>

definition sample_participant :: "string \<Rightarrow> bool \<Rightarrow> participant" where
  "sample_participant name repeater =
     P_base \<lparr>pt_id = PId name, pt_kind = PK_dummy, pt_is_repeater = repeater, pt_writers = [], pt_readers = []\<rparr>"

definition sample_world :: "(unit, unit) world" where
  "sample_world =
     \<lparr>w_participants = [(PId ''a'', sample_participant ''a'' False), (PId ''b'', sample_participant ''b'' True)],
      w_store = object_store_empty, w_next_task = 0, w_emitted = []\<rparr>"

definition sample_bridge_topic :: dds_topic where
  "sample_bridge_topic = dds_topic_of_names 1 ''t'' ''T''"

lemma sample_world_ok: "smap_ok id (w_participants sample_world)"
  by (simp add: sample_world_def smap_ok_def less_participant_id_def)

lemma sample_bridge_created:
  "\<exists>b w'. dds_bridge_new sample_env sample_bridge_topic False sample_world = (Inr b, w')"
proof -
  have "case dds_bridge_new sample_env sample_bridge_topic False sample_world of (Inr b, w') \<Rightarrow> True | _ \<Rightarrow> False"
    by code_simp
  then show ?thesis by (auto split: prod.splits sum.splits)
qed



text \<open>
  Enabling a bridge right after its creation switches it on completely: every track, the reader
  of every track and every writer a track forwards to are enabled.
\<close>

lemma bridge_enable_complete:
  assumes "smap_ok id (w_participants w)" and "dds_bridge_new E topic False w = (Inr b, w1)"
    and "dds_bridge_enable (b, w1) = (b', w')"
  shows "brg_enabled b' \<and> (\<forall>e\<in>set (brg_tracks b'). track_enabled (snd e)) \<and>
    (\<forall>pid t. smap_find id pid (brg_tracks b) = Some t \<longrightarrow>
       reader_on (w_store w') (track_reader t) \<and>
       (\<forall>x\<in>set (track_writers t). writer_on (w_store w') (snd x)))"
  using dds_bridge_enable_on [OF _ _ assms(3)] dds_bridge_new_wired [OF assms(1,2)] by blast

text \<open>
  After any sequence of enables and disables a bridge is in the state of the last one, and repeating it
  changes nothing.
\<close>

lemma bridge_last_switch_decides:
  assumes "cs \<noteq> []"
  shows "brg_enabled (fst (switch_all dds_bridge_enable dds_bridge_disable cs bw)) = last cs \<and>
    dds_bridge_enable (dds_bridge_enable bw) = dds_bridge_enable bw \<and>
    dds_bridge_disable (dds_bridge_disable bw) = dds_bridge_disable bw"
  using bridge_switch.last_switch_decides [OF assms, of bw] by simp

end
