(* ===== verification/Service_Registry.thy ===== *)
theory Service_Registry
  imports Topics
begin

text \<open>
  The registry of pending requests of a proxy client (\<^verbatim>\<open>communication/rpc/ServiceRegistry\<close>): for
  the sequence number a request was forwarded with, the participant it came from and the identity
  its reply has to be related to.
\<close>

section \<open>Operations\<close>

type_synonym registry_entry = "participant_id \<times> sample_identity"

record service_registry =
  sr_topic :: rpc_topic
  sr_participant_id :: participant_id
  sr_enabled :: bool
  registry :: "(sequence_number, registry_entry) smap"

definition DEFAULT_MAX_ENTRIES :: nat where
  "DEFAULT_MAX_ENTRIES = 5000"

definition service_registry_new :: "rpc_topic \<Rightarrow> participant_id \<Rightarrow> service_registry" where
  "service_registry_new t p =
     \<lparr>sr_topic = t, sr_participant_id = p, sr_enabled = False, registry = []\<rparr>"

definition registry_enable :: "service_registry \<Rightarrow> service_registry" where
  "registry_enable r = r\<lparr>sr_enabled := True\<rparr>"

definition registry_disable :: "service_registry \<Rightarrow> service_registry" where
  "registry_disable r = r\<lparr>sr_enabled := False\<rparr>"

definition registry_add :: "sequence_number \<Rightarrow> registry_entry \<Rightarrow> service_registry \<Rightarrow> service_registry" where
  "registry_add idx new_entry r =
     (case smap_find id idx (registry r) of
        Some _ \<Rightarrow> r
      | None \<Rightarrow>
         (let m = smap_set id idx new_entry (registry r)
          in r\<lparr>registry := (if length m = DEFAULT_MAX_ENTRIES then tl m else m)\<rparr>))"

definition registry_get :: "sequence_number \<Rightarrow> service_registry \<Rightarrow> registry_entry" where
  "registry_get idx r =
     (case smap_find id idx (registry r) of
        Some e \<Rightarrow> e
      | None \<Rightarrow> (participant_id_invalid, sample_identity_unknown))"

definition registry_erase :: "sequence_number \<Rightarrow> service_registry \<Rightarrow> service_registry" where
  "registry_erase idx r =
     (case smap_find id idx (registry r) of
        Some _ \<Rightarrow> r\<lparr>registry := smap_erase id idx (registry r)\<rparr>
      | None \<Rightarrow> r)"

section \<open>Lemmas\<close>

definition registry_ok :: "service_registry \<Rightarrow> bool" where
  "registry_ok r \<longleftrightarrow> smap_ok id (registry r) \<and> length (registry r) < DEFAULT_MAX_ENTRIES"

lemma smap_ok_tl: "smap_ok key m \<Longrightarrow> smap_ok key (tl m)"
  by (cases m) (auto simp: smap_ok_def)

lemma registry_ok_add: "registry_ok r \<Longrightarrow> registry_ok (registry_add idx e r)"
  by (auto simp: registry_ok_def registry_add_def Let_def length_smap_set smap_ok_tl
      split: option.splits)

lemma registry_ok_erase: "registry_ok r \<Longrightarrow> registry_ok (registry_erase idx r)"
  using le_less_trans [OF length_filter_le]
  by (auto simp: registry_ok_def registry_erase_def smap_erase_def[of id idx "registry r"]
      split: option.splits dest: smap_ok_erase[of id _ idx] simp flip: smap_erase_def)

lemma registry_get_add_same:
  assumes "smap_find id idx (registry r) = None" and "length (registry r) < DEFAULT_MAX_ENTRIES - 1"
    and "smap_ok id (registry r)"
  shows "registry_get idx (registry_add idx e r) = e"
proof -
  have "length (smap_set id idx e (registry r)) \<noteq> DEFAULT_MAX_ENTRIES"
    using assms by (simp add: length_smap_set DEFAULT_MAX_ENTRIES_def)
  with assms(1) show ?thesis by (simp add: registry_get_def registry_add_def Let_def)
qed

lemma registry_get_erase_same: "registry_get idx (registry_erase idx r) = (participant_id_invalid, sample_identity_unknown)"
  by (auto simp: registry_get_def registry_erase_def split: option.splits)

lemma registry_get_erase_other: "j \<noteq> idx \<Longrightarrow> registry_get j (registry_erase idx r) = registry_get j r"
  by (auto simp: registry_get_def registry_erase_def split: option.splits)

lemma registry_enabled_simps [simp]:
  "sr_enabled (registry_add idx e r) = sr_enabled r"
  "sr_enabled (registry_erase idx r) = sr_enabled r"
  "sr_enabled (registry_enable r)"
  "registry (registry_enable r) = registry r"
  by (auto simp: registry_add_def registry_erase_def registry_enable_def Let_def split: option.splits)

lemma smap_ok_hd_min: "smap_ok id m \<Longrightarrow> m \<noteq> [] \<Longrightarrow> e \<in> set m \<Longrightarrow> fst (hd m) \<le> (fst e :: 'k :: linorder)"
  by (cases m) (auto simp: smap_ok_def)

section \<open>Properties\<close>

datatype registry_op = RO_add sequence_number registry_entry | RO_erase sequence_number

fun registry_apply :: "registry_op \<Rightarrow> service_registry \<Rightarrow> service_registry" where
  "registry_apply (RO_add idx e) r = registry_add idx e r"
| "registry_apply (RO_erase idx) r = registry_erase idx r"

text \<open>
  C28. Whatever sequence of requests and replies a registry sees from its creation on, it stays sorted
  and holds fewer than 5000 entries.
\<close>

theorem registry_stays_bounded:
  "registry_ok (fold registry_apply ops (service_registry_new t pid))"
proof (rule fold_invariant_rule [where P = registry_ok])
  show "registry_ok (service_registry_new t pid)"
    by (simp add: registry_ok_def service_registry_new_def DEFAULT_MAX_ENTRIES_def)
  show "registry_ok (registry_apply x s)" if "registry_ok s" for x s
    using that by (cases x) (auto intro: registry_ok_add registry_ok_erase)
qed

text \<open>
  A pending request is found again until its reply: with room in the registry, looking up the
  sequence number of an added request gives its entry, other requests keep theirs, and after the
  erase the lookup gives the invalid entry.
\<close>

lemma registry_add_get_erase:
  assumes "registry_ok r" and "smap_find id idx (registry r) = None"
    and "length (registry r) < DEFAULT_MAX_ENTRIES - 1"
  shows "registry_get idx (registry_add idx e r) = e \<and>
    registry_get idx (registry_erase idx (registry_add idx e r)) = (participant_id_invalid, sample_identity_unknown) \<and>
    (j = idx \<or> registry_get j (registry_add idx e r) = registry_get j r)"
proof -
  have "length (smap_set id idx e (registry r)) \<noteq> DEFAULT_MAX_ENTRIES"
    using assms by (simp add: registry_ok_def length_smap_set DEFAULT_MAX_ENTRIES_def)
  then have "j = idx \<or> registry_get j (registry_add idx e r) = registry_get j r"
    using assms(2) by (simp add: registry_get_def registry_add_def Let_def)
  with registry_get_add_same [OF assms(2,3)] registry_get_erase_same assms(1) show ?thesis
    by (simp add: registry_ok_def)
qed

end
