(* ===== verification/RPC_Bridge.thy ===== *)
theory RPC_Bridge
  imports DDS_Bridge Service_Registry
begin

text \<open>
  A bridge for one service (\<^verbatim>\<open>communication/rpc/RPCBridge\<close>). Every RTPS participant gets a proxy
  client (a request writer, a reply reader and a registry of pending requests) and a proxy server (a
  request reader and a reply writer). A request received by a proxy server is sent through the proxy
  clients of the participants with servers and remembered in their registries; a reply received by a
  proxy client goes back through the proxy server the registry names. The endpoints are created when
  the bridge is enabled for the first time; an exception there leaves what was created so far in
  place.
\<close>

section \<open>State\<close>

record rpc_bridge =
  rpc_topic :: rpc_topic
  rpc_enabled :: bool
  rpc_init :: bool
  request_writers :: "(participant_id, ref) smap"
  reply_writers :: "(participant_id, ref) smap"
  request_readers :: "(participant_id, ref) smap"
  reply_readers :: "(participant_id, ref) smap"
  service_registries :: "(participant_id, service_registry) smap"
  current_servers :: "(participant_id, guid_prefix list) smap"
  tasks_map :: "(guid, bool \<times> task_id) smap"

definition rpc_bridge_new :: "rpc_topic \<Rightarrow> rpc_bridge" where
  "rpc_bridge_new t =
     \<lparr>rpc_topic = t, rpc_enabled = False, rpc_init = False, request_writers = [], reply_writers = [],
      request_readers = [], reply_readers = [], service_registries = [], current_servers = [],
      tasks_map = []\<rparr>"

fun ireader_guid :: "('cb, 'h) reader_object \<Rightarrow> guid" where
  "ireader_guid (RO_simple r) = cr_guid r"
| "ireader_guid (RO_specific r) = cr_guid r"
| "ireader_guid _ = guid_unknown"

fun ireader_participant_id :: "('cb, 'h) reader_object \<Rightarrow> participant_id" where
  "ireader_participant_id (RO_simple r) = br_participant_id r"
| "ireader_participant_id (RO_specific r) = br_participant_id r"
| "ireader_participant_id (RO_dummy r) = br_participant_id r"
| "ireader_participant_id RO_blank = participant_id_invalid"

fun ireader_topic :: "('cb, 'h) reader_object \<Rightarrow> dds_topic option" where
  "ireader_topic (RO_simple r) = Some (br_topic r)"
| "ireader_topic (RO_specific r) = Some (br_topic r)"
| "ireader_topic (RO_dummy r) = Some (br_topic r)"
| "ireader_topic RO_blank = None"

section \<open>Creation of the proxies\<close>

type_synonym ('hr, 'hw) rpc_state = "rpc_bridge \<times> ('hr, 'hw) world"

definition create_slot :: "ref \<Rightarrow> ('hr, 'hw) rpc_state \<Rightarrow> ('hr, 'hw) rpc_state" where
  "create_slot r bw =
     (let b = fst bw; w = snd bw;
          g = (case reader_at (w_store w) r of Some rd \<Rightarrow> ireader_guid rd | None \<Rightarrow> guid_unknown)
      in (b\<lparr>tasks_map := smap_set guid_key g (False, w_next_task w) (tasks_map b)\<rparr>,
          w\<lparr>w_store := store_update_reader (ireader_set_callback (CB_rpc (service_name (rpc_topic b)) g)) r
                        (w_store w),
            w_next_task := w_next_task w + 1\<rparr>))"

definition create_proxy_client_nts ::
    "('q, 's, 'hr, 'hw) rtps_env \<Rightarrow> participant_id \<Rightarrow> ('hr, 'hw) rpc_state \<Rightarrow>
     exn option \<times> ('hr, 'hw) rpc_state" where
  "create_proxy_client_nts E pid bw =
     (let b = fst bw; w = snd bw in
      case world_create_writer E pid (request_topic (rpc_topic b)) w of
        Inl e \<Rightarrow> (Some e, b, w)
      | Inr (wr, w1) \<Rightarrow>
         (let b1 = b\<lparr>request_writers := smap_set id pid wr (request_writers b)\<rparr> in
          case world_create_reader E pid (reply_topic (rpc_topic b)) w1 of
            Inl e \<Rightarrow> (Some e, b1, w1)
          | Inr (rd, w2) \<Rightarrow>
             (let b2 = b1\<lparr>reply_readers := smap_set id pid rd (reply_readers b1)\<rparr>;
                  (b3, w3) = create_slot rd (b2, w2)
              in (None, b3\<lparr>service_registries := smap_set id pid
                             (service_registry_new (rpc_topic b) pid) (service_registries b3)\<rparr>, w3))))"

definition create_proxy_server_nts ::
    "('q, 's, 'hr, 'hw) rtps_env \<Rightarrow> participant_id \<Rightarrow> ('hr, 'hw) rpc_state \<Rightarrow>
     exn option \<times> ('hr, 'hw) rpc_state" where
  "create_proxy_server_nts E pid bw =
     (let b = fst bw; w = snd bw in
      case world_create_writer E pid (reply_topic (rpc_topic b)) w of
        Inl e \<Rightarrow> (Some e, b, w)
      | Inr (wr, w1) \<Rightarrow>
         (let b1 = b\<lparr>reply_writers := smap_set id pid wr (reply_writers b)\<rparr> in
          case world_create_reader E pid (request_topic (rpc_topic b)) w1 of
            Inl e \<Rightarrow> (Some e, b1, w1)
          | Inr (rd, w2) \<Rightarrow>
              (None, create_slot rd
                 (b1\<lparr>request_readers := smap_set id pid rd (request_readers b1)\<rparr>, w2))))"

definition servers_of :: "participant_id \<Rightarrow> rpc_bridge \<Rightarrow> guid_prefix list" where
  "servers_of pid b = (case smap_find id pid (current_servers b) of Some s \<Rightarrow> s | None \<Rightarrow> [])"

definition map_registry ::
    "(service_registry \<Rightarrow> service_registry) \<Rightarrow> participant_id \<Rightarrow> rpc_bridge \<Rightarrow> rpc_bridge" where
  "map_registry f pid b =
     (case smap_find id pid (service_registries b) of
        None \<Rightarrow> b
      | Some r \<Rightarrow> b\<lparr>service_registries := smap_set id pid (f r) (service_registries b)\<rparr>)"

text \<open>\<^verbatim>\<open>current_servers_[id]\<close> inserts an empty set for a participant without an entry.\<close>

definition touch_servers :: "participant_id \<Rightarrow> rpc_bridge \<Rightarrow> rpc_bridge" where
  "touch_servers pid b = b\<lparr>current_servers := smap_emplace id pid [] (current_servers b)\<rparr>"

fun init_loop ::
    "('q, 's, 'hr, 'hw) rtps_env \<Rightarrow> participant_id list \<Rightarrow> ('hr, 'hw) rpc_state \<Rightarrow>
     exn option \<times> ('hr, 'hw) rpc_state" where
  "init_loop E [] bw = (None, bw)"
| "init_loop E (pid # ids) bw =
     (case create_proxy_client_nts E pid bw of
        (Some e, bw1) \<Rightarrow> (Some e, bw1)
      | (None, bw1) \<Rightarrow>
         (case create_proxy_server_nts E pid bw1 of
            (Some e, bw2) \<Rightarrow> (Some e, bw2)
          | (None, (b2, w2)) \<Rightarrow>
             (let b3 = touch_servers pid b2
              in init_loop E ids
                   (if servers_of pid b3 \<noteq> [] then map_registry registry_enable pid b3 else b3, w2))))"

definition init_nts ::
    "('q, 's, 'hr, 'hw) rtps_env \<Rightarrow> ('hr, 'hw) rpc_state \<Rightarrow> exn option \<times> ('hr, 'hw) rpc_state" where
  "init_nts E bw =
     (let ids = pdb_get_rtps_participants_ids participant_is_rtps_kind (w_participants (snd bw)) in
      case init_loop E ids bw of
        (Some e, bw1) \<Rightarrow> (Some e, bw1)
      | (None, (b, w)) \<Rightarrow> (None, b\<lparr>rpc_init := True\<rparr>, w))"

section \<open>Switching, servers\<close>

definition servers_available :: "rpc_bridge \<Rightarrow> bool" where
  "servers_available b = list_ex (\<lambda>e. snd e \<noteq> []) (current_servers b)"

definition rpc_data_available :: "guid \<Rightarrow> ('hr, 'hw) rpc_state \<Rightarrow> ('hr, 'hw) rpc_state" where
  "rpc_data_available g bw =
     (let b = fst bw; w = snd bw in
      if rpc_enabled b then
        (case smap_find guid_key g (tasks_map b) of
           Some (queued, task) \<Rightarrow>
             if \<not> queued then
               (b\<lparr>tasks_map := smap_set guid_key g (True, task) (tasks_map b)\<rparr>,
                w\<lparr>w_emitted := w_emitted w @ [task]\<rparr>)
             else (b, w)
         | None \<Rightarrow>
             (b\<lparr>tasks_map := smap_set guid_key g (True, 0) (tasks_map b)\<rparr>, w\<lparr>w_emitted := w_emitted w @ [0]\<rparr>))
      else (b, w))"

text \<open>Enabling a reader may announce the data it already has.\<close>

definition rpc_enable_reader :: "ref \<Rightarrow> ('hr, 'hw) rpc_state \<Rightarrow> ('hr, 'hw) rpc_state" where
  "rpc_enable_reader r bw =
     (let b = fst bw; w = snd bw;
          cbs = (case reader_at (w_store w) r of Some rd \<Rightarrow> fst (ireader_enable rd) | None \<Rightarrow> []);
          w1 = w\<lparr>w_store := store_update_reader (\<lambda>rd. snd (ireader_enable rd)) r (w_store w)\<rparr>
      in fold (\<lambda>cb. case cb of CB_rpc s g \<Rightarrow> rpc_data_available g | CB_track k p \<Rightarrow> id) cbs (b, w1))"

definition world_map_writers ::
    "('hw writer_object \<Rightarrow> 'hw writer_object) \<Rightarrow> (participant_id, ref) smap \<Rightarrow> ('hr, 'hw) world \<Rightarrow>
     ('hr, 'hw) world" where
  "world_map_writers f m w = w\<lparr>w_store := fold (\<lambda>e. store_update_writer f (snd e)) m (w_store w)\<rparr>"

definition world_disable_readers ::
    "(participant_id, ref) smap \<Rightarrow> ('hr, 'hw) world \<Rightarrow> ('hr, 'hw) world" where
  "world_disable_readers m w =
     w\<lparr>w_store := fold (\<lambda>e. store_update_reader ireader_disable (snd e)) m (w_store w)\<rparr>"

definition rpc_bridge_enable ::
    "('q, 's, 'hr, 'hw) rtps_env \<Rightarrow> ('hr, 'hw) rpc_state \<Rightarrow> ('hr, 'hw) rpc_state" where
  "rpc_bridge_enable E bw =
     (if \<not> rpc_enabled (fst bw) \<and> servers_available (fst bw) then
        let (err, bw1) = (if \<not> rpc_init (fst bw) then init_nts E bw else (None, bw)) in
        case err of
          Some e \<Rightarrow> bw1
        | None \<Rightarrow>
           (let b = (fst bw1)\<lparr>rpc_enabled := True\<rparr>;
                w1 = world_map_writers iwriter_enable (request_writers b) (snd bw1);
                w2 = world_map_writers iwriter_enable (reply_writers b) w1;
                bw3 = fold (\<lambda>e. rpc_enable_reader (snd e)) (reply_readers b) (b, w2)
            in fold (\<lambda>e. rpc_enable_reader (snd e)) (request_readers b) bw3)
      else bw)"

definition rpc_bridge_disable :: "('hr, 'hw) rpc_state \<Rightarrow> ('hr, 'hw) rpc_state" where
  "rpc_bridge_disable bw =
     (let b = fst bw; w = snd bw in
      if rpc_enabled b then
        (b\<lparr>rpc_enabled := False\<rparr>,
         world_map_writers iwriter_disable (request_writers b)
           (world_map_writers iwriter_disable (reply_writers b)
             (world_disable_readers (reply_readers b)
               (world_disable_readers (request_readers b) w))))
      else bw)"

definition discovered_service ::
    "participant_id \<Rightarrow> guid_prefix \<Rightarrow> rpc_bridge \<Rightarrow> rpc_bridge result" where
  "discovered_service pid prefix b =
     (let b1 = b\<lparr>current_servers := smap_set id pid (sset_insert id prefix (servers_of pid b))
                                    (current_servers b)\<rparr>
      in if rpc_init b1 then
           (case smap_find id pid (service_registries b1) of
              None \<Rightarrow> Inl NullDereference
            | Some _ \<Rightarrow> Inr (map_registry registry_enable pid b1))
         else Inr b1)"

definition removed_service ::
    "participant_id \<Rightarrow> guid_prefix \<Rightarrow> ('hr, 'hw) rpc_state \<Rightarrow> ('hr, 'hw) rpc_state" where
  "removed_service pid prefix bw =
     (let b1 = (fst bw)\<lparr>current_servers := smap_set id pid (sset_erase id prefix (servers_of pid (fst bw)))
                                           (current_servers (fst bw))\<rparr>
      in if servers_of pid b1 = [] \<and> \<not> servers_available b1 then rpc_bridge_disable (b1, snd bw)
         else (b1, snd bw))"

section \<open>Transmission\<close>

type_synonym ('hr, 'hw) rpc_run = "rpc_bridge \<times> ('hr, 'hw) world \<times> fast_pool"

definition write_through ::
    "('q, 's, 'hr, 'hw) rtps_env \<Rightarrow> ref option \<Rightarrow> data_received \<Rightarrow> ('hr, 'hw) world \<Rightarrow> fast_pool \<Rightarrow>
     (return_code \<times> data_received \<times> ('hr, 'hw) world \<times> fast_pool) result" where
  "write_through E ro data w p =
     (case Option.bind ro (\<lambda>r. map_option (Pair r) (writer_at (w_store w) r)) of
        None \<Rightarrow> Inl NullDereference
      | Some (r, wo) \<Rightarrow>
          rbind (iwriter_write E data (wo, p)) (\<lambda>(ret, data', wo', p').
            Inr (ret, data',
                 w\<lparr>w_store := (w_store w)\<lparr>writer_at := (writer_at (w_store w))(r \<mapsto> wo')\<rparr>\<rparr>, p')))"

definition params_of :: "data_received \<Rightarrow> write_params" where
  "params_of data =
     (case dp_write_params (dr_properties data) of Some wp \<Rightarrow> wp | None \<Rightarrow> write_params_default)"

definition set_related :: "sample_identity \<Rightarrow> data_received \<Rightarrow> data_received" where
  "set_related si data =
     data\<lparr>dr_properties := (dr_properties data)
       \<lparr>dp_write_params := Some ((params_of data)\<lparr>wp_related_sample_identity := si\<rparr>)\<rparr>\<rparr>"

text \<open>The identity the reply to a request has to be related to.\<close>

definition reply_identity :: "data_received \<Rightarrow> sample_identity" where
  "reply_identity data =
     (wp_sample_identity (params_of data))
       \<lparr>sequence_no := origin_sequence_number (dr_properties data)\<rparr>"

definition forwards_request_to :: "participant_id \<Rightarrow> ('hr, 'hw) world \<Rightarrow> participant_id \<Rightarrow> service_registry \<Rightarrow> bool" where
  "forwards_request_to receiver w pid reg \<longleftrightarrow>
     \<not> ((receiver = pid \<and>
          \<not> (case pdb_get_participant pid (w_participants w) of
               Some p \<Rightarrow> participant_is_repeater p | None \<Rightarrow> False)) \<or>
        \<not> sr_enabled reg)"

fun request_loop ::
    "('q, 's, 'hr, 'hw) rtps_env \<Rightarrow> sample_identity \<Rightarrow> (participant_id, service_registry) smap \<Rightarrow>
     data_received \<Rightarrow> ('hr, 'hw) rpc_run \<Rightarrow> (data_received \<times> ('hr, 'hw) rpc_run) result" where
  "request_loop E reply_si [] data run = Inr (data, run)"
| "request_loop E reply_si ((pid, reg) # regs) data (b, w, p) =
     (if \<not> forwards_request_to (participant_receiver (dr_properties data)) w pid reg then
        request_loop E reply_si regs data (b, w, p)
      else case Option.bind (smap_find id pid (reply_readers b)) (reader_at (w_store w)) of
          None \<Rightarrow> Inl NullDereference
        | Some rd \<Rightarrow>
           (let si = (wp_related_sample_identity (params_of data))\<lparr>writer_guid := ireader_guid rd\<rparr> in
            case write_through E (smap_find id pid (request_writers b)) (set_related si data) w p of
              Inl e \<Rightarrow> Inl e
            | Inr (ret, data', w', p') \<Rightarrow>
                request_loop E reply_si regs data'
                  (if \<not> ret_ok ret then b
                   else map_registry (registry_add (sent_sequence_number data')
                          (participant_receiver (dr_properties data'), reply_si)) pid b,
                   w', p')))"

definition handle_request ::
    "('q, 's, 'hr, 'hw) rtps_env \<Rightarrow> data_received \<Rightarrow> ('hr, 'hw) rpc_run \<Rightarrow>
     (data_received \<times> ('hr, 'hw) rpc_run) result" where
  "handle_request E data run =
     (if reply_identity data = sample_identity_unknown then Inr (data, run)
      else request_loop E (reply_identity data) (service_registries (fst run)) data run)"

definition handle_reply ::
    "('q, 's, 'hr, 'hw) rtps_env \<Rightarrow> guid \<Rightarrow> participant_id \<Rightarrow> data_received \<Rightarrow> ('hr, 'hw) rpc_run \<Rightarrow>
     (data_received \<times> ('hr, 'hw) rpc_run) result" where
  "handle_reply E reader_guid reader_pid data run =
     (let b = fst run; w = fst (snd run); p = snd (snd run);
          si = wp_sample_identity (params_of data) in
      if writer_guid si \<noteq> reader_guid then Inr (data, run)
      else case smap_find id reader_pid (service_registries b) of
          None \<Rightarrow> Inl NullDereference
        | Some reg \<Rightarrow>
           (let entry = registry_get (sequence_no si) reg in
            if participant_id_is_valid (fst entry) then
              rbind (write_through E (smap_find id (fst entry) (reply_writers b))
                       (set_related (snd entry) data) w p) (\<lambda>(ret, data', w', p').
                Inr (data',
                     if \<not> ret_ok ret then b
                     else map_registry (registry_erase
                            (sequence_no (wp_sample_identity (params_of data')))) reader_pid b,
                     w', p'))
            else Inr (data, run)))"

definition handle_data ::
    "('q, 's, 'hr, 'hw) rtps_env \<Rightarrow> dds_topic \<Rightarrow> guid \<Rightarrow> participant_id \<Rightarrow> data_received \<Rightarrow>
     ('hr, 'hw) rpc_run \<Rightarrow> (data_received \<times> ('hr, 'hw) rpc_run) result" where
  "handle_data E topic g pid data run =
     (if is_request_topic topic then handle_request E data run
      else if is_reply_topic topic then handle_reply E g pid data run
      else Inl ShouldNotHappen)"

definition finish_task :: "guid \<Rightarrow> rpc_bridge \<Rightarrow> rpc_bridge" where
  "finish_task g b =
     b\<lparr>tasks_map := smap_set guid_key g
         (False, case smap_find guid_key g (tasks_map b) of Some (_, t) \<Rightarrow> t | None \<Rightarrow> 0) (tasks_map b)\<rparr>"

text \<open>\<^verbatim>\<open>transmit_\<close> for the RTPS reader at \<open>r\<close>; \<open>unread\<close> is its unread count.\<close>

fun ireader_unread :: "('q, 's, 'hr, 'hw) rtps_env \<Rightarrow> ('cb, 'hr) reader_object \<Rightarrow> 64 word" where
  "ireader_unread E (RO_simple r) = get_unread_count (env_reader_ops E) (cr_history r)"
| "ireader_unread E (RO_specific r) = get_unread_count (env_reader_ops E) (cr_history r)"
| "ireader_unread E _ = 0"

fun rpc_transmit ::
    "nat \<Rightarrow> ('q, 's, 'hr, 'hw) rtps_env \<Rightarrow> ref \<Rightarrow> ('hr, 'hw) rpc_run \<Rightarrow>
     (('hr, 'hw) rpc_run result) option" where
  "rpc_transmit fuel E r (b, w, p) =
     (case reader_at (w_store w) r of
        None \<Rightarrow> Some (Inl NullDereference)
      | Some rd \<Rightarrow>
         (if \<not> rpc_enabled b \<or> \<not> ireader_unread E rd > 0 then
            Some (Inr (finish_task (ireader_guid rd) b, w, p))
          else case fuel of
              0 \<Rightarrow> None
            | Suc n \<Rightarrow>
               (let (ret, data, rd', p1) = ireader_take E data_received_default (rd, p);
                    w1 = w\<lparr>w_store := (w_store w)\<lparr>reader_at := (reader_at (w_store w))(r \<mapsto> rd')\<rparr>\<rparr>
                in if \<not> ret_ok ret then rpc_transmit n E r (b, w1, p1)
                   else case ireader_topic rd of
                       None \<Rightarrow> Some (Inl ShouldNotHappen)
                     | Some topic \<Rightarrow>
                        (case handle_data E topic (ireader_guid rd) (ireader_participant_id rd) data
                                (b, w1, p1) of
                           Inl e \<Rightarrow> Some (Inl e)
                         | Inr (data', b2, w2, p2) \<Rightarrow>
                            (case fast_release_payload p2 (dr_payload data') of
                               Inl e \<Rightarrow> Some (Inl e)
                             | Inr (_, p3, _) \<Rightarrow> rpc_transmit n E r (b2, w2, p3))))))"

declare rpc_transmit.simps [simp del]

definition delete_if_found ::
    "(ref \<Rightarrow> participant \<Rightarrow> participant) \<Rightarrow> participant_id \<Rightarrow> (participant_id, ref) smap \<Rightarrow>
     ('hr, 'hw) world \<Rightarrow> ('hr, 'hw) world" where
  "delete_if_found del pid m w =
     (case (smap_find id pid m, pdb_get_participant pid (w_participants w)) of
        (Some r, Some p) \<Rightarrow> w\<lparr>w_participants := smap_set id pid (del r p) (w_participants w)\<rparr>
      | _ \<Rightarrow> w)"

definition rpc_bridge_destroy :: "('hr, 'hw) rpc_state \<Rightarrow> ('hr, 'hw) world" where
  "rpc_bridge_destroy bw =
     (let (b, w) = rpc_bridge_disable bw
      in fold (\<lambda>pid w. delete_if_found delete_reader pid (reply_readers b)
                 (delete_if_found delete_reader pid (request_readers b)
                   (delete_if_found delete_writer pid (reply_writers b)
                     (delete_if_found delete_writer pid (request_writers b) w))))
           (pdb_get_participants_ids (w_participants w)) w)"

section \<open>Lemmas on transmission\<close>

text \<open>A writer changes nothing of the sample but the sequence number it was sent with.\<close>

lemma common_writer_write_data:
  "dr_properties (fst (snd (common_writer_write H data we))) = dr_properties data \<and>
   dr_payload (fst (snd (common_writer_write H data we))) = dr_payload data"
  by (simp add: common_writer_write_def Let_def case_prod_unfold split: option.splits)

lemma base_writer_write_data [simp]:
  "dr_properties (fst (snd (base_writer_write (common_writer_write H) data we))) = dr_properties data"
  "dr_payload (fst (snd (base_writer_write (common_writer_write H) data we))) = dr_payload data"
  by (simp_all add: base_writer_write_def common_writer_write_data)

lemma multi_write_data:
  assumes "multi_write_checked E data (m, p) = Inr (ret, data', m', p')"
  shows "dr_properties data' = dr_properties data \<and> dr_payload data' = dr_payload data"
  using assms
  by (auto simp: multi_write_checked_def multi_writer_write_def Let_def rbind_eq_Inr_iff case_prod_unfold
      split: if_splits)

lemma iwriter_write_data:
  assumes "iwriter_write E data (w, p) = Inr (ret, data', w', p')"
  shows "dr_properties data' = dr_properties data \<and> dr_payload data' = dr_payload data"
proof (cases w)
  case (WO_multi m)
  with assms show ?thesis by (auto simp: rbind_eq_Inr_iff dest: multi_write_data)
next
  case (WO_simple m)
  with assms show ?thesis by (auto simp: Let_def case_prod_unfold)
qed (use assms in \<open>auto simp: blank_writer_write_def echo_writer_write_def base_writer_write_def
       dummy_writer_write_def Let_def split: prod.splits if_splits\<close>)

lemma write_through_effect:
  assumes "write_through E ro data w p = Inr (ret, data', w', p')"
  shows "dr_properties data' = dr_properties data" "dr_payload data' = dr_payload data"
    "w_participants w' = w_participants w" "reader_at (w_store w') = reader_at (w_store w)"
  using assms
  by (auto simp: write_through_def rbind_eq_Inr_iff split: option.splits dest: iwriter_write_data)

definition registry_of :: "rpc_bridge \<Rightarrow> participant_id \<Rightarrow> service_registry option" where
  "registry_of b pid = smap_find id pid (service_registries b)"

definition pending :: "rpc_bridge \<Rightarrow> participant_id \<Rightarrow> sequence_number \<Rightarrow> registry_entry option" where
  "pending b pid idx = Option.bind (registry_of b pid) (\<lambda>r. smap_find id idx (registry r))"

lemma registry_of_map:
  "registry_of (map_registry f pid b) j = (if j = pid then map_option f (registry_of b pid) else registry_of b j)"
  by (auto simp: registry_of_def map_registry_def split: option.splits)

lemma smap_find_tl:
  assumes "smap_find id k (tl m) = Some v" and "smap_ok id m"
  shows "smap_find id k m = Some v"
proof (cases m)
  case (Cons e l)
  obtain a b where e: "e = (a, b)" by fastforce
  from assms Cons have "smap_find id k l = Some v" by simp
  with smap_find_SomeD [OF this] assms(2) Cons show ?thesis unfolding e by (auto simp: smap_ok_Cons)
qed (use assms in simp)

text \<open>What a registry holds after an add was there before or is the new entry.\<close>

lemma registry_add_find:
  assumes "smap_find id k (registry (registry_add idx e r)) = Some v" and "smap_ok id (registry r)"
  shows "smap_find id k (registry r) = Some v \<or> k = idx \<and> v = e"
  using assms smap_find_tl [of k "smap_set id idx e (registry r)" v]
  by (auto simp: registry_add_def Let_def split: option.splits if_splits)

definition registries_ok :: "rpc_bridge \<Rightarrow> bool" where
  "registries_ok b \<longleftrightarrow> (\<forall>pid r. registry_of b pid = Some r \<longrightarrow> registry_ok r)"

lemma registries_ok_add:
  "registries_ok b \<Longrightarrow> registries_ok (map_registry (registry_add idx e) pid b)"
  unfolding registries_ok_def registry_of_map by (auto intro: registry_ok_add)

lemma registries_ok_erase:
  "registries_ok b \<Longrightarrow> registries_ok (map_registry (registry_erase idx) pid b)"
  unfolding registries_ok_def registry_of_map by (auto intro: registry_ok_erase)

lemma pending_add:
  assumes "pending (map_registry (registry_add idx e) pid b) j k = Some v" and "registries_ok b"
  shows "pending b j k = Some v \<or> j = pid \<and> k = idx \<and> v = e"
  using assms registry_add_find [of k idx e "the (registry_of b pid)" v]
  by (auto simp: pending_def registry_of_map registries_ok_def registry_ok_def
      split: if_splits option.splits Option.bind_splits)

lemma set_related_simps [simp]:
  "participant_receiver (dr_properties (set_related si data)) = participant_receiver (dr_properties data)"
  "dr_payload (set_related si data) = dr_payload data"
  "wp_sample_identity (params_of (set_related si data)) = wp_sample_identity (params_of data)"
  "wp_related_sample_identity (params_of (set_related si data)) = si"
  by (simp_all add: set_related_def params_of_def)

text \<open>
  A request: every entry the loop adds to a registry belongs to a participant the request may be
  forwarded to and names the participant that received it and the identity its reply needs.
\<close>

text \<open>One iteration that forwards: what is written, what is recorded, and where the loop goes on.\<close>

lemma request_loop_forward:
  assumes "request_loop E si ((pid, reg) # regs) data (b, w, p) = Inr res"
    and "forwards_request_to (participant_receiver (dr_properties data)) w pid reg"
  obtains rd ret d1 w1 p1 b1 where
    "Option.bind (smap_find id pid (reply_readers b)) (reader_at (w_store w)) = Some rd"
    "write_through E (smap_find id pid (request_writers b))
       (set_related ((wp_related_sample_identity (params_of data))\<lparr>writer_guid := ireader_guid rd\<rparr>) data) w p =
       Inr (ret, d1, w1, p1)"
    "b1 = (if \<not> ret_ok ret then b else map_registry (registry_add (sent_sequence_number d1)
       (participant_receiver (dr_properties data), si)) pid b)"
    "request_loop E si regs d1 (b1, w1, p1) = Inr res"
    "participant_receiver (dr_properties d1) = participant_receiver (dr_properties data)"
    "dr_payload d1 = dr_payload data" "w_participants w1 = w_participants w"
    "reader_at (w_store w1) = reader_at (w_store w)"
    "\<And>q r pid. forwards_request_to q w1 pid r = forwards_request_to q w pid r"
proof -
  obtain rd where rd: "Option.bind (smap_find id pid (reply_readers b)) (reader_at (w_store w)) = Some rd"
    using assms by (auto split: option.splits)
  let ?d0 = "set_related ((wp_related_sample_identity (params_of data))\<lparr>writer_guid := ireader_guid rd\<rparr>) data"
  obtain ret d1 w1 p1 where wt: "write_through E (smap_find id pid (request_writers b)) ?d0 w p = Inr (ret, d1, w1, p1)"
    using assms rd by (auto simp: Let_def split: sum.splits)
  note we = write_through_effect [OF wt]
  have rec: "participant_receiver (dr_properties d1) = participant_receiver (dr_properties data)" using we(1) by simp
  have f: "forwards_request_to q w1 pid r = forwards_request_to q w pid r" for q r pid
    using we(3) by (simp add: forwards_request_to_def)
  have "request_loop E si regs d1 (if \<not> ret_ok ret then b else map_registry (registry_add (sent_sequence_number d1)
      (participant_receiver (dr_properties d1), si)) pid b, w1, p1) = Inr res"
    using assms rd wt by (simp add: Let_def)
  from that [OF rd wt refl this [unfolded rec] rec _ we(3,4) f] we(2) show thesis by simp
qed

lemma request_loop_records:
  assumes "request_loop E si regs data (b, w, p) = Inr (data', b', w', p')" and "registries_ok b"
  shows "registries_ok b' \<and> w_participants w' = w_participants w \<and>
    dr_payload data' = dr_payload data \<and>
    (\<forall>pid k v. pending b' pid k = Some v \<longrightarrow> pending b pid k = Some v \<or>
       v = (participant_receiver (dr_properties data), si) \<and>
       (\<exists>reg. (pid, reg) \<in> set regs \<and>
          forwards_request_to (participant_receiver (dr_properties data)) w pid reg))"
  using assms
proof (induction regs arbitrary: data b w p)
  case (Cons pr regs)
  obtain pid reg where pr: "pr = (pid, reg)" by fastforce
  note prems = Cons.prems(1) [unfolded pr] Cons.prems(2)
  let ?rec = "participant_receiver (dr_properties data)"
  show ?case
  proof (cases "forwards_request_to ?rec w pid reg")
    case False
    with prems have "request_loop E si regs data (b, w, p) = Inr (data', b', w', p')" by simp
    from Cons.IH [OF this prems(2)] show ?thesis by (metis (no_types, lifting) list.set_intros(2))
  next
    case True
    then obtain ret d1 w1 p1 b1 where
      b1: "b1 = (if \<not> ret_ok ret then b else map_registry (registry_add (sent_sequence_number d1) (?rec, si)) pid b)"
      and rest: "request_loop E si regs d1 (b1, w1, p1) = Inr (data', b', w', p')"
      and d1: "participant_receiver (dr_properties d1) = ?rec" "dr_payload d1 = dr_payload data"
      and w1: "w_participants w1 = w_participants w" "\<And>q r. forwards_request_to ?rec w1 q r = forwards_request_to ?rec w q r"
      using request_loop_forward [OF prems(1)] by metis
    have ok1: "registries_ok b1" using prems(2) registries_ok_add by (simp add: b1)
    have p1: "pending b1 q k = Some v \<Longrightarrow> pending b q k = Some v \<or> q = pid \<and> v = (?rec, si)" for q k v
      using pending_add [OF _ prems(2), of "sent_sequence_number d1" "(?rec, si)" pid q k v]
      by (cases "ret_ok ret") (auto simp: b1)
    have "registries_ok b' \<and> w_participants w' = w_participants w1 \<and> dr_payload data' = dr_payload d1 \<and>
      (\<forall>q k v. pending b' q k = Some v \<longrightarrow> pending b1 q k = Some v \<or>
         v = (?rec, si) \<and> (\<exists>r. (q, r) \<in> set regs \<and> forwards_request_to ?rec w q r))"
      using Cons.IH [OF rest ok1] d1(1) w1(2) by simp
    with d1 w1 True p1 show ?thesis unfolding pr by auto blast+
  qed
qed simp

text \<open>
  A reply: it leaves through the proxy server of the participant the registry names, with the
  recorded identity; once it is written the entry is gone, so no later reply to the request leaves.
\<close>

definition reply_number :: "data_received \<Rightarrow> sequence_number" where
  "reply_number data = sequence_no (wp_sample_identity (params_of data))"

lemma handle_reply_written:
  assumes "writer_guid (wp_sample_identity (params_of data)) = g"
    and "pending b pid (reply_number data) = Some (rp, si)" and "participant_id_is_valid rp"
    and "write_through E (smap_find id rp (reply_writers b)) (set_related si data) w p = Inr (ret, data', w', p')"
  shows "handle_reply E g pid data (b, w, p) =
    Inr (data', if \<not> ret_ok ret then b else map_registry (registry_erase (reply_number data)) pid b, w', p')"
proof -
  obtain reg where reg: "smap_find id pid (service_registries b) = Some reg"
    and entry: "smap_find id (reply_number data) (registry reg) = Some (rp, si)"
    using assms(2) by (auto simp: pending_def registry_of_def split: Option.bind_splits)
  have "reply_number data' = reply_number data"
    using write_through_effect(1) [OF assms(4)] set_related_simps(3) [of si data]
    by (simp add: reply_number_def params_of_def)
  with reg entry assms show ?thesis
    by (simp add: handle_reply_def Let_def registry_get_def reply_number_def)
qed

lemma handle_reply_dropped:
  assumes "registry_of b pid \<noteq> None"
    and "writer_guid (wp_sample_identity (params_of data)) \<noteq> g \<or>
      pending b pid (reply_number data) = None"
  shows "handle_reply E g pid data (b, w, p) = Inr (data, b, w, p)"
  using assms
  by (auto simp: handle_reply_def Let_def registry_get_def pending_def registry_of_def reply_number_def
      participant_id_is_valid_def participant_id_invalid_def participant_id_is_valid_id_def
      split: option.splits)

lemma pending_erase:
  "pending (map_registry (registry_erase idx) pid b) j k =
     (if j = pid \<and> k = idx then None else pending b j k)"
  by (auto simp: pending_def registry_of_map registry_erase_def split: option.splits Option.bind_splits)

text \<open>
  What one proxy client did with a request: the sample, addressed from the reply reader of that
  client, was handed to its request writer, and the registry got the entry exactly when the write
  succeeded.
\<close>

definition request_sent ::
    "('q, 's, 'hr, 'hw) rtps_env \<Rightarrow> rpc_bridge \<Rightarrow> ('hr, 'hw) world \<Rightarrow> data_received \<Rightarrow> sample_identity \<Rightarrow>
     participant_id \<Rightarrow> service_registry option \<Rightarrow> bool" where
  "request_sent E b w data si pid new \<longleftrightarrow>
     (\<exists>rd d0 w0 p0 ret d1 w1 p1.
        Option.bind (smap_find id pid (reply_readers b)) (reader_at (w_store w)) = Some rd \<and>
        dr_payload d0 = dr_payload data \<and>
        writer_guid (wp_related_sample_identity (params_of d0)) = ireader_guid rd \<and>
        write_through E (smap_find id pid (request_writers b)) d0 w0 p0 = Inr (ret, d1, w1, p1) \<and>
        new = (if ret_ok ret
               then map_option (registry_add (sent_sequence_number d1)
                      (participant_receiver (dr_properties data), si)) (registry_of b pid)
               else registry_of b pid))"

lemma map_registry_fields [simp]:
  "request_writers (map_registry f pid b) = request_writers b"
  "reply_readers (map_registry f pid b) = reply_readers b"
  by (simp_all add: map_registry_def split: option.splits)

lemma request_sentI:
  assumes "Option.bind (smap_find id pid (reply_readers b)) (reader_at (w_store w)) = Some rd"
    and "write_through E (smap_find id pid (request_writers b))
       (set_related ((wp_related_sample_identity (params_of data))\<lparr>writer_guid := ireader_guid rd\<rparr>) data) w p =
       Inr (ret, d1, w1, p1)"
  shows "request_sent E b w data si pid
    (if ret_ok ret then map_option (registry_add (sent_sequence_number d1)
       (participant_receiver (dr_properties data), si)) (registry_of b pid) else registry_of b pid)"
  unfolding request_sent_def
  by (rule exI [of _ rd], rule exI, rule exI [of _ w], rule exI [of _ p], rule exI [of _ ret],
      rule exI [of _ d1], rule exI [of _ w1], rule exI [of _ p1], rule conjI [OF assms(1)],
      rule conjI, rule set_related_simps, rule conjI [OF _ conjI [OF assms(2)]]) simp_all

lemma request_loop_sends:
  assumes "request_loop E si regs data (b, w, p) = Inr (data', b', w', p')" and "distinct (map fst regs)"
  shows "(\<forall>pid. pid \<notin> fst ` set regs \<longrightarrow> registry_of b' pid = registry_of b pid) \<and>
    (\<forall>(pid, reg)\<in>set regs.
       if forwards_request_to (participant_receiver (dr_properties data)) w pid reg
       then request_sent E b w data si pid (registry_of b' pid)
       else registry_of b' pid = registry_of b pid)"
  using assms
proof (induction regs arbitrary: data b w p)
  case (Cons pr regs)
  obtain pid reg where pr: "pr = (pid, reg)" by fastforce
  note prems = Cons.prems [unfolded pr]
  let ?rec = "participant_receiver (dr_properties data)"
  show ?case
  proof (cases "forwards_request_to ?rec w pid reg")
    case False
    with prems have "request_loop E si regs data (b, w, p) = Inr (data', b', w', p')" by simp
    from Cons.IH [OF this] prems(2) False show ?thesis unfolding pr by auto
  next
    case True
    then obtain rd ret d1 w1 p1 b1 where
      rd: "Option.bind (smap_find id pid (reply_readers b)) (reader_at (w_store w)) = Some rd"
      and wt: "write_through E (smap_find id pid (request_writers b))
       (set_related ((wp_related_sample_identity (params_of data))\<lparr>writer_guid := ireader_guid rd\<rparr>) data) w p =
       Inr (ret, d1, w1, p1)"
      and b1: "b1 = (if \<not> ret_ok ret then b else map_registry (registry_add (sent_sequence_number d1) (?rec, si)) pid b)"
      and rest: "request_loop E si regs d1 (b1, w1, p1) = Inr (data', b', w', p')"
      and d1: "participant_receiver (dr_properties d1) = ?rec" "dr_payload d1 = dr_payload data"
      and w1: "reader_at (w_store w1) = reader_at (w_store w)"
        "\<And>q r. forwards_request_to ?rec w1 q r = forwards_request_to ?rec w q r"
      using request_loop_forward [OF prems(1)] by metis
    have other: "registry_of b1 q = registry_of b q" if "q \<noteq> pid" for q
      using that by (simp add: b1 registry_of_map)
    have fields: "request_writers b1 = request_writers b" "reply_readers b1 = reply_readers b" by (simp_all add: b1)
    have sent: "request_sent E b1 w1 d1 si q new \<Longrightarrow> request_sent E b w data si q new" if "q \<noteq> pid" for q new
      by (simp only: request_sent_def fields other [OF that] w1(1) d1)
    note IH = Cons.IH [OF rest]
    have nin: "pid \<notin> fst ` set regs" using prems(2) by auto
    then have "registry_of b' pid = registry_of b1 pid" using IH prems(2) by simp
    moreover have "request_sent E b w data si pid (registry_of b1 pid)"
      using request_sentI [OF rd wt, of si] by (cases "ret_ok ret") (simp_all add: b1 registry_of_map)
    moreover have "if forwards_request_to ?rec w q r then request_sent E b w data si q (registry_of b' q)
        else registry_of b' q = registry_of b q" if "(q, r) \<in> set regs" for q r
    proof -
      have "q \<noteq> pid" using that nin by force
      moreover have "if forwards_request_to ?rec w q r then request_sent E b1 w1 d1 si q (registry_of b' q)
        else registry_of b' q = registry_of b1 q" using IH prems(2) that d1(1) w1(2) by auto
      ultimately show ?thesis using sent other by presburger
    qed
    ultimately show ?thesis using True IH prems(2) other unfolding pr by auto
  qed
qed simp

section \<open>Properties\<close>


definition sample_rpc_bridge :: rpc_bridge where
  "sample_rpc_bridge =
     (rpc_bridge_new (rpc_topic_of ''add'' sample_bridge_topic sample_bridge_topic))
       \<lparr>request_writers := [(PId ''a'', 0)], reply_writers := [(PId ''b'', 0)], reply_readers := [(PId ''a'', 0)],
        service_registries :=
          [(PId ''a'', registry_enable (service_registry_new
              (rpc_topic_of ''add'' sample_bridge_topic sample_bridge_topic) (PId ''a'')))]\<rparr>"

definition sample_rpc_world :: "(unit, unit) world" where
  "sample_rpc_world =
     sample_world\<lparr>w_store := \<lparr>next_ref = 1, writer_at = [0 \<mapsto> WO_blank], reader_at = [0 \<mapsto> RO_blank]\<rparr>\<rparr>"

definition sample_request :: data_received where
  "sample_request =
     data_received_default\<lparr>dr_properties := data_properties_default
       \<lparr>participant_receiver := PId ''b'', origin_sequence_number := 7\<rparr>\<rparr>"


text \<open>
  C26. A reply addressed to a proxy client whose request is pending is handed to the proxy server of
  the participant that received the request, related to the identity recorded with it. When that
  write succeeds the entry, and no other, is gone, and the same reply taken again is dropped; when it
  fails the entry stays for another attempt.
\<close>

theorem reply_goes_back_once:
  assumes "writer_guid (wp_sample_identity (params_of data)) = g"
    and "pending b pid (reply_number data) = Some (rp, si)" and "participant_id_is_valid rp"
    and "write_through E (smap_find id rp (reply_writers b)) (set_related si data) w p = Inr (ret, data', w', p')"
  shows "\<exists>b'. handle_reply E g pid data (b, w, p) = Inr (data', b', w', p') \<and>
    (if ret_ok ret then
       (\<forall>j k. pending b' j k = (if j = pid \<and> k = reply_number data then None else pending b j k)) \<and>
       (\<forall>w2 p2. handle_reply E g pid data (b', w2, p2) = Inr (data, b', w2, p2))
     else b' = b)"
proof -
  let ?b' = "map_registry (registry_erase (reply_number data)) pid b"
  have "registry_of ?b' pid \<noteq> None"
    using assms(2) by (auto simp: registry_of_map pending_def split: Option.bind_splits)
  moreover have "pending ?b' pid (reply_number data) = None" by (simp add: pending_erase)
  ultimately have "handle_reply E g pid data (?b', w2, p2) = Inr (data, ?b', w2, p2)" for w2 p2
    by (intro handle_reply_dropped) auto
  with handle_reply_written [OF assms] show ?thesis by (auto simp: pending_erase)
qed

definition sample_answered_bridge :: rpc_bridge where
  "sample_answered_bridge =
     map_registry (registry_add (reply_number data_received_default) (PId ''b'', sample_identity_unknown)) (PId ''a'') sample_rpc_bridge"

theorem reply_goes_back_once_witness:
  "\<exists>b' data' w' p'.
     handle_reply sample_env guid_unknown (PId ''a'') data_received_default
       (sample_answered_bridge, sample_rpc_world, sample_fast_pool) = Inr (data', b', w', p') \<and>
     pending b' (PId ''a'') (reply_number data_received_default) = None"
proof -
  let ?d = "data_received_default"
  have g: "writer_guid (wp_sample_identity (params_of ?d)) = guid_unknown" by code_simp
  have p: "pending sample_answered_bridge (PId ''a'') (reply_number ?d) = Some (PId ''b'', sample_identity_unknown)"
    by code_simp
  have v: "participant_id_is_valid (PId ''b'')" by code_simp
  have "case write_through sample_env (smap_find id (PId ''b'') (reply_writers sample_answered_bridge))
      (set_related sample_identity_unknown ?d) sample_rpc_world sample_fast_pool of Inr (ret, _) \<Rightarrow> ret_ok ret | _ \<Rightarrow> False"
    by code_simp
  then obtain ret data' w' p' where w: "write_through sample_env (smap_find id (PId ''b'') (reply_writers sample_answered_bridge))
      (set_related sample_identity_unknown ?d) sample_rpc_world sample_fast_pool = Inr (ret, data', w', p')" "ret_ok ret"
    by (auto split: sum.splits)
  from reply_goes_back_once [OF g p v w(1)] w(2) show ?thesis by auto
qed

end
