(* ===== verification/Bridge_Lifecycle.thy ===== *)
theory Bridge_Lifecycle
  imports DDS_Bridge
begin

text \<open>
  Creating and destroying a bridge (\<^verbatim>\<open>DDSBridge\<close>): what its constructor registers in the participants is what its
  destructor takes out again.
\<close>

section \<open>Undoing an insertion\<close>

lemma smap_erase_absent: "smap_find key k m = None \<Longrightarrow> filter (\<lambda>e. key (fst e) \<noteq> key k) m = m"
  by (simp add: smap_find_None_iff)

lemma smap_erase_set_new: "smap_find key k m = None \<Longrightarrow> smap_erase key k (smap_set key k v m) = m"
proof (induction m)
  case (Cons e m)
  obtain k' v' where e: "e = (k', v')" by fastforce
  have "key k \<noteq> key k'" "smap_find key k m = None" using Cons.prems e by (auto split: if_splits)
  with Cons.IH smap_erase_absent [of key k m] show ?case by (auto simp: e smap_erase_def)
qed (simp add: smap_erase_def)

lemma find_only: "(x \<in> set xs \<and> P x) \<Longrightarrow> (\<And>y. y \<in> set xs \<Longrightarrow> P y \<Longrightarrow> y = x) \<Longrightarrow> List.find P xs = Some x"
  by (induction xs) auto

lemma erase_ref_new:
  assumes "smap_find dds_topic_key topic m = None" and "\<forall>e\<in>set m. snd e \<noteq> r"
  shows "erase_ref r (smap_emplace dds_topic_key topic r m) = m"
proof -
  let ?m = "smap_emplace dds_topic_key topic r m"
  have m: "?m = smap_set dds_topic_key topic r m" using assms(1) by (simp add: smap_emplace_def)
  have "set ?m = insert (topic, r) (set m)" using assms(1) by (simp add: m set_smap_set_new)
  then have "List.find (\<lambda>e. snd e = r) ?m = Some (topic, r)"
    using assms(2) by (intro find_only) auto
  then show ?thesis using assms(1) by (simp add: erase_ref_def m smap_erase_set_new)
qed

section \<open>One participant\<close>

text \<open>The endpoints registered with a participant are objects of the store.\<close>

fun refs_registered :: "ref \<Rightarrow> participant \<Rightarrow> bool" where
  "refs_registered n (P_base b) \<longleftrightarrow>
     (\<forall>e\<in>set (pt_writers b). snd e < n) \<and> (\<forall>e\<in>set (pt_readers b). snd e < n)"
| "refs_registered n p \<longleftrightarrow> True"

definition world_refs :: "('hr, 'hw) world \<Rightarrow> bool" where
  "world_refs w \<longleftrightarrow>
     (\<forall>q p. pdb_get_participant q (w_participants w) = Some p \<longrightarrow> refs_registered (next_ref (w_store w)) p)"

lemma created_then_deleted:
  assumes "create_writer E topic (p, st) = Inr (wr, p1, st1)" and "create_reader E topic (p1, st1) = Inr (rd, p2, st2)"
    and "refs_registered (next_ref st) p"
  shows "delete_reader rd (delete_writer wr p2) = p"
proof (cases p)
  case (P_base b)
  obtain wo where w: "smap_find dds_topic_key topic (pt_writers b) = None" "wr = next_ref st" "next_ref st1 = Suc (next_ref st)"
    "p1 = P_base (b\<lparr>pt_writers := smap_emplace dds_topic_key topic wr (pt_writers b)\<rparr>)" and "base_create_writer E b topic = Inr wo"
    using assms(1) P_base by (auto simp: rbind_eq_Inr_iff store_new_writer_def split: option.splits)
  have r: "smap_find dds_topic_key topic (pt_readers b) = None" "rd = next_ref st1"
    "p2 = P_base (b\<lparr>pt_writers := smap_emplace dds_topic_key topic wr (pt_writers b),
       pt_readers := smap_emplace dds_topic_key topic rd (pt_readers b)\<rparr>)"
    using assms(2) w(4) by (auto simp: rbind_eq_Inr_iff store_new_reader_def split: option.splits)
  have "\<forall>e\<in>set (pt_writers b). snd e \<noteq> wr" "\<forall>e\<in>set (pt_readers b). snd e \<noteq> rd"
    using assms(3) w(2,3) r(2) P_base by auto
  with w(1) r(1) show ?thesis by (simp add: r(3) erase_ref_new P_base)
qed (use assms in \<open>auto simp: Let_def split: prod.splits\<close>)

section \<open>The loops of the bridge\<close>

text \<open>A participant with the endpoints of the bridge taken out, as the destructor does.\<close>

definition without_endpoints ::
    "ref option \<Rightarrow> ref option \<Rightarrow> participant \<Rightarrow> participant" where
  "without_endpoints writer reader p =
     (let p1 = (case writer of Some r \<Rightarrow> delete_writer r p | None \<Rightarrow> p)
      in case reader of Some r \<Rightarrow> delete_reader r p1 | None \<Rightarrow> p1)"

lemma world_delete_without:
  "world_delete_endpoints pid writer reader w =
     (case pdb_get_participant pid (w_participants w) of
        None \<Rightarrow> w
      | Some p \<Rightarrow> w\<lparr>w_participants := smap_set id pid (without_endpoints writer reader p) (w_participants w)\<rparr>)"
  by (simp add: world_delete_endpoints_def without_endpoints_def Let_def split: option.split)

text \<open>Taking out what the constructor has added so far gives the participants it started with.\<close>

definition endpoints_added ::
    "(participant_id, ref) smap \<Rightarrow> (participant_id, ref) smap \<Rightarrow> ('hr, 'hw) world \<Rightarrow> ('hr, 'hw) world \<Rightarrow> bool" where
  "endpoints_added ws rs w0 w \<longleftrightarrow>
     next_ref (w_store w0) \<le> next_ref (w_store w) \<and>
     (\<forall>q. map_option (without_endpoints (smap_find id q ws) (smap_find id q rs))
             (pdb_get_participant q (w_participants w)) = pdb_get_participant q (w_participants w0))"

lemma refs_registered_mono: "refs_registered n p \<Longrightarrow> n \<le> m \<Longrightarrow> refs_registered m p"
  by (cases p) force+

lemma endpoints_added_step:
  assumes "world_create_writer E pid topic w = Inr (wr, w1)" and "world_create_reader E pid topic w1 = Inr (rd, w2)"
    and "smap_find id pid ws = None" and "smap_find id pid rs = None"
    and "endpoints_added ws rs w0 w" and "world_refs w0"
  shows "endpoints_added (smap_set id pid wr ws) (smap_set id pid rd rs) w0 w2"
proof -
  obtain p p1 st1 where p: "pdb_get_participant pid (w_participants w) = Some p"
    and c1: "create_writer E topic (p, w_store w) = Inr (wr, p1, st1)"
    and w1: "w1 = w\<lparr>w_participants := smap_set id pid p1 (w_participants w), w_store := st1\<rparr>"
    using assms(1) by (auto simp: world_create_writer_def rbind_eq_Inr_iff split: option.splits)
  have "pdb_get_participant pid (w_participants w1) = Some p1" by (simp add: w1 pdb_get_participant_def)
  then obtain p2 st2 where c2: "create_reader E topic (p1, st1) = Inr (rd, p2, st2)"
    and w2: "w2 = w1\<lparr>w_participants := smap_set id pid p2 (w_participants w1), w_store := st2\<rparr>"
    using assms(2) by (auto simp: world_create_reader_def rbind_eq_Inr_iff w1)
  have n: "next_ref st2 = next_ref (w_store w) + 2"
    using create_writer_okD [OF c1] create_reader_okD [OF c2] by simp
  have own: "pdb_get_participant pid (w_participants w0) = Some p"
    using assms(3,4,5) p by (metis endpoints_added_def option.map(2) without_endpoints_def option.case(1))
  then have "refs_registered (next_ref (w_store w)) p"
    using assms(5,6) refs_registered_mono [of "next_ref (w_store w0)" p]
    by (auto simp: world_refs_def endpoints_added_def)
  from created_then_deleted [OF c1 c2 this] have "without_endpoints (Some wr) (Some rd) p2 = p"
    by (simp add: without_endpoints_def)
  moreover have "pdb_get_participant q (w_participants w2) =
      (if q = pid then Some p2 else pdb_get_participant q (w_participants w))" for q
    by (simp add: w2 w1 pdb_get_participant_def)
  ultimately show ?thesis using assms(5) own n w2 unfolding endpoints_added_def by auto
qed

lemma create_endpoints_added:
  assumes "create_endpoints E topic ids ws rs w = (Inr (ws', rs'), w')" and "distinct ids"
    and "\<forall>pid\<in>set ids. smap_find id pid ws = None \<and> smap_find id pid rs = None"
    and "endpoints_added ws rs w0 w" and "world_refs w0"
  shows "endpoints_added ws' rs' w0 w'"
  using assms(1-4)
proof (induction ids arbitrary: ws rs w)
  case (Cons pid ids)
  obtain wr w1 rd w2 where c: "world_create_writer E pid topic w = Inr (wr, w1)"
    "world_create_reader E pid topic w1 = Inr (rd, w2)"
    and rest: "create_endpoints E topic ids (smap_set id pid wr ws) (smap_set id pid rd rs) w2 = (Inr (ws', rs'), w')"
    using Cons.prems(1) by (auto split: sum.splits)
  have "endpoints_added (smap_set id pid wr ws) (smap_set id pid rd rs) w0 w2"
    by (rule endpoints_added_step [OF c]) (use Cons.prems(3,4) assms(5) in auto)
  moreover have "\<forall>q\<in>set ids. smap_find id q (smap_set id pid wr ws) = None \<and> smap_find id q (smap_set id pid rd rs) = None"
    using Cons.prems(2,3) by auto
  ultimately show ?case using Cons.IH [OF rest] Cons.prems(2) by simp
qed (use assms(5) in simp)

lemma delete_fold_lookup:
  assumes "distinct ids"
  shows "pdb_get_participant q (w_participants (fold (\<lambda>pid. world_delete_endpoints pid (f pid) (g pid)) ids w)) =
    (if q \<in> set ids then map_option (without_endpoints (f q) (g q)) (pdb_get_participant q (w_participants w))
     else pdb_get_participant q (w_participants w))"
  using assms
proof (induction ids arbitrary: w)
  case (Cons pid ids)
  have "pdb_get_participant q (w_participants (world_delete_endpoints pid (f pid) (g pid) w)) =
      (if q = pid then map_option (without_endpoints (f q) (g q)) (pdb_get_participant q (w_participants w))
       else pdb_get_participant q (w_participants w))"
    by (auto simp: world_delete_without pdb_get_participant_def split: option.split)
  with Cons show ?case by auto
qed simp

text \<open>Switching a bridge and destroying its tracks leave its endpoints and the participants alone.\<close>

definition same_endpoints :: "dds_bridge \<times> ('hr, 'hw) world \<Rightarrow> dds_bridge \<times> ('hr, 'hw) world \<Rightarrow> bool" where
  "same_endpoints a b \<longleftrightarrow>
     brg_writers (fst a) = brg_writers (fst b) \<and> brg_readers (fst a) = brg_readers (fst b) \<and>
     w_participants (snd a) = w_participants (snd b)"

lemma switch_same_endpoints:
  "same_endpoints (dds_bridge_enable bw) bw" "same_endpoints (dds_bridge_disable bw) bw"
  by (auto simp: same_endpoints_def dds_bridge_enable_def dds_bridge_disable_def Let_def split: prod.split
      dest: tracks_enable_participants tracks_disable_participants)

lemma switch_all_same_endpoints: "same_endpoints (switch_all dds_bridge_enable dds_bridge_disable cs bw) bw"
proof (induction cs arbitrary: bw)
  case (Cons c cs)
  let ?bw = "if c then dds_bridge_enable bw else dds_bridge_disable bw"
  have "same_endpoints ?bw bw" using switch_same_endpoints [of bw] by simp
  with Cons.IH [of ?bw] show ?case by (simp add: same_endpoints_def)
qed (simp add: same_endpoints_def)

lemma create_tracks_participants:
  "create_tracks topic ws rs ids ts w = (res, w') \<Longrightarrow> w_participants w' = w_participants w"
  by (induction topic ws rs ids ts w arbitrary: res w' rule: create_tracks.induct)
    (auto simp: Let_def split: option.splits prod.splits)

lemma without_nothing [simp]: "without_endpoints None None p = p"
  by (simp add: without_endpoints_def)

lemma bridge_new_added:
  assumes "dds_bridge_new E topic enable w = (Inr b, w')" and "world_refs w" and ok: "smap_ok id (w_participants w)"
  shows "(\<forall>q. map_option (without_endpoints (smap_find id q (brg_writers b)) (smap_find id q (brg_readers b)))
      (pdb_get_participant q (w_participants w')) = pdb_get_participant q (w_participants w)) \<and>
    map fst (w_participants w') = map fst (w_participants w) \<and> smap_ok id (w_participants w')"
proof -
  let ?ids = "pdb_get_participants_ids (w_participants w)"
  obtain ws rs w1 where e: "create_endpoints E topic ?ids [] [] w = (Inr (ws, rs), w1)"
    using assms(1) by (auto simp: dds_bridge_new_def Let_def split: prod.splits sum.splits)
  obtain ts w2 where t: "create_tracks topic ws rs ?ids [] w1 = (Inr ts, w2)"
    using assms(1) e by (auto simp: dds_bridge_new_def Let_def split: prod.splits sum.splits)
  let ?b = "\<lparr>brg_topic = topic, brg_writers = ws, brg_readers = rs, brg_tracks = ts, brg_enabled = False\<rparr>"
  have "(b, w') = (if enable then dds_bridge_enable (?b, w2) else (?b, w2))"
    using assms(1) e t by (auto simp: dds_bridge_new_def Let_def split: prod.splits if_splits)
  then have same: "same_endpoints (b, w') (?b, w2)"
    using switch_same_endpoints(1) [of "(?b, w2)"] by (simp add: same_endpoints_def split: if_splits)
  have d: "distinct ?ids" using pdb_ids_eq [OF ok] smap_ok_distinct [OF ok] by simp
  have "map_option (without_endpoints None None) x = x" for x by (cases x) simp_all
  then have "endpoints_added [] [] w w" by (simp add: endpoints_added_def)
  then have added: "endpoints_added ws rs w w1" using create_endpoints_added [OF e d] assms(2) by simp
  have "endpoints_ok [] [] w" using ok by (simp add: endpoints_ok_def refs_below_def)
  from create_endpoints_ok [OF e d this]
  have "endpoints_ok ws rs w1" "map fst (w_participants w1) = map fst (w_participants w)" by simp_all
  with added same create_tracks_participants [OF t] show ?thesis
    by (simp add: endpoints_added_def same_endpoints_def endpoints_ok_def)
qed

lemma delete_fold_ids:
  assumes "smap_ok id (w_participants w)"
  shows "map fst (w_participants (fold (\<lambda>pid. world_delete_endpoints pid (f pid) (g pid)) ids w)) = map fst (w_participants w)"
  using assms
proof (induction ids arbitrary: w)
  case (Cons pid ids)
  let ?w = "world_delete_endpoints pid (f pid) (g pid) w"
  have "smap_ok id (w_participants ?w)" using Cons.prems by (simp add: world_delete_without split: option.split)
  moreover have "map fst (w_participants ?w) = map fst (w_participants w)"
    using Cons.prems smap_keys_set_existing [of id "w_participants w" pid]
    by (auto simp: world_delete_without pdb_get_participant_def smap_keys_def split: option.split)
  ultimately show ?case using Cons.IH [of ?w] by simp
qed simp

lemma smap_eqI:
  assumes "smap_ok id m" and "map fst m' = map fst m" and "\<And>k. smap_find id k m' = smap_find id k m"
  shows "m' = m"
  using assms
proof (induction m arbitrary: m')
  case (Cons e m)
  obtain k v where e: "e = (k, v)" by fastforce
  obtain v' r where m': "m' = (k, v') # r" "map fst r = map fst m" using Cons.prems(2) e by (cases m') auto
  have "smap_find id k m = None" using Cons.prems(1) e by (auto simp: smap_ok_Cons smap_find_None_iff)
  moreover have "smap_find id k r = None"
    using calculation m'(2) by (simp add: smap_find_None_iff) (metis image_iff image_set)
  ultimately have "smap_find id j r = smap_find id j m" for j
    using Cons.prems(3) [of j] by (simp add: m'(1) e split: if_splits)
  moreover have "v' = v" using Cons.prems(3) [of k] by (simp add: m'(1) e)
  ultimately show ?case using Cons.IH [OF _ m'(2)] Cons.prems(1) by (simp add: m'(1) e smap_ok_Cons)
qed simp

section \<open>Properties\<close>

text \<open>
  C19. A bridge leaves nothing behind. After a bridge was created, enabled and disabled any number of times and
  destroyed, the participants are exactly as they were before: every writer and reader the constructor registered
  with them is taken out again, and no other.
\<close>

theorem bridge_leaves_nothing_behind:
  assumes "smap_ok id (w_participants w)" and "world_refs w" and "dds_bridge_new E topic enable w = (Inr b, w')"
  shows "w_participants (dds_bridge_destroy (switch_all dds_bridge_enable dds_bridge_disable cs (b, w'))) = w_participants w"
proof -
  note n = bridge_new_added [OF assms(3,2,1)]
  obtain b1 w1 where s: "dds_bridge_disable (switch_all dds_bridge_enable dds_bridge_disable cs (b, w')) = (b1, w1)"
    by (metis surj_pair)
  then have "same_endpoints (b1, w1) (b, w')"
    using switch_same_endpoints(2) [of "switch_all dds_bridge_enable dds_bridge_disable cs (b, w')"]
      switch_all_same_endpoints [of cs "(b, w')"] by (simp add: same_endpoints_def)
  then have same: "brg_writers b1 = brg_writers b" "brg_readers b1 = brg_readers b" "w_participants w1 = w_participants w'"
    by (simp_all add: same_endpoints_def)
  let ?del = "fold (\<lambda>pid. world_delete_endpoints pid (smap_find id pid (brg_writers b)) (smap_find id pid (brg_readers b)))
    (pdb_get_participants_ids (w_participants w')) (destroy_tracks (brg_tracks b1) w1)"
  have d: "dds_bridge_destroy (switch_all dds_bridge_enable dds_bridge_disable cs (b, w')) = ?del"
    by (simp add: dds_bridge_destroy_def s same)
  have ids: "pdb_get_participants_ids (w_participants w') = map fst (w_participants w')" "distinct (map fst (w_participants w'))"
    using n pdb_ids_eq [of "w_participants w'"] smap_ok_distinct [of id "w_participants w'"] by simp_all
  note look = delete_fold_lookup [OF ids(2), where w = "destroy_tracks (brg_tracks b1) w1",
      folded ids(1), unfolded destroy_tracks_participants same(3) pdb_get_participant_def]
  have "smap_find id q (w_participants ?del) = smap_find id q (w_participants w)" for q
  proof (cases "q \<in> set (map fst (w_participants w'))")
    case True
    with n look [of q] ids(1) show ?thesis by (simp add: pdb_get_participant_def)
  next
    case False
    then have none: "smap_find id q (w_participants w') = None" by (force simp: smap_find_None_iff)
    moreover have "smap_find id q (w_participants w) = None"
      using n none unfolding pdb_get_participant_def by (metis option.map(1))
    ultimately show ?thesis using look [of q] False ids(1) by simp
  qed
  then have "w_participants ?del = w_participants w"
    by (intro smap_eqI [OF assms(1)]) (simp_all add: delete_fold_ids same(3) n)
  with d show ?thesis by simp
qed

theorem bridge_leaves_nothing_behind_witness:
  "\<exists>b w'. dds_bridge_new sample_env sample_bridge_topic False sample_world = (Inr b, w') \<and>
     w_participants w' \<noteq> w_participants sample_world \<and>
     w_participants (dds_bridge_destroy (switch_all dds_bridge_enable dds_bridge_disable [True, False, True] (b, w'))) =
       w_participants sample_world"
proof -
  have "case dds_bridge_new sample_env sample_bridge_topic False sample_world of
      (Inr b, w') \<Rightarrow> w_participants w' \<noteq> w_participants sample_world | _ \<Rightarrow> False"
    by code_simp
  then obtain b w' where b: "dds_bridge_new sample_env sample_bridge_topic False sample_world = (Inr b, w')"
    "w_participants w' \<noteq> w_participants sample_world"
    by (auto split: prod.splits sum.splits)
  have "world_refs sample_world"
    by (auto simp: world_refs_def sample_world_def pdb_get_participant_def sample_participant_def split: if_splits)
  from bridge_leaves_nothing_behind [OF sample_world_ok this b(1), of "[True, False, True]"] b show ?thesis by blast
qed

end
