(* ===== verification/Endpoint_Ownership.thy ===== *)
theory Endpoint_Ownership
  imports RPC_Bridge Bridge_Lifecycle
begin

text \<open>
  Who owns the endpoints of the participants. Bridges for topics (\<^verbatim>\<open>DDSBridge\<close>) and for services
  (\<^verbatim>\<open>RPCBridge\<close>) share the participants: each registers the writers and readers it creates with them and has
  them deleted in its destructor. The theory follows any number of bridges of both kinds, created,
  switched and destroyed in any order, with endpoints whose creation fails.
\<close>

section \<open>Registered endpoints\<close>

datatype side = Writing | Reading

fun side_map :: "side \<Rightarrow> participant \<Rightarrow> (dds_topic, ref) smap" where
  "side_map Writing (P_base b) = pt_writers b"
| "side_map Reading (P_base b) = pt_readers b"
| "side_map s p = []"

type_synonym registration = "side \<times> participant_id \<times> (string \<times> string) \<times> ref"

definition registered :: "('hr, 'hw) world \<Rightarrow> registration set" where
  "registered w = {(s, q, k, r). \<exists>p t. pdb_get_participant q (w_participants w) = Some p \<and>
     (t, r) \<in> set (side_map s p) \<and> k = dds_topic_key t}"

text \<open>The participants that register their endpoints; echo and blank participants do not.\<close>

definition base_ids :: "('hr, 'hw) world \<Rightarrow> participant_id set" where
  "base_ids w = {q. \<exists>b. pdb_get_participant q (w_participants w) = Some (P_base b)}"

definition at_base :: "('hr, 'hw) world \<Rightarrow> registration set" where
  "at_base w = {(s, q, k, r). q \<in> base_ids w}"

definition endpoints_wf :: "ref \<Rightarrow> participant \<Rightarrow> bool" where
  "endpoints_wf n p \<longleftrightarrow> (\<forall>s. smap_ok dds_topic_key (side_map s p) \<and> inj_on snd (set (side_map s p)) \<and>
     (\<forall>e\<in>set (side_map s p). snd e < n))"

definition world_wf :: "('hr, 'hw) world \<Rightarrow> bool" where
  "world_wf w \<longleftrightarrow> smap_ok id (w_participants w) \<and>
     (\<forall>q p. pdb_get_participant q (w_participants w) = Some p \<longrightarrow> endpoints_wf (next_ref (w_store w)) p)"

lemma world_wfD:
  assumes "world_wf w" and "pdb_get_participant q (w_participants w) = Some p"
  shows "smap_ok dds_topic_key (side_map s p)" and "inj_on snd (set (side_map s p))"
    and "e \<in> set (side_map s p) \<Longrightarrow> snd e < next_ref (w_store w)"
  using assms unfolding world_wf_def endpoints_wf_def by blast+

lemma registeredE:
  assumes "(s, q, k, r) \<in> registered w"
  obtains p t where "pdb_get_participant q (w_participants w) = Some p" and "(t, r) \<in> set (side_map s p)"
    and "k = dds_topic_key t"
  using assms by (auto simp: registered_def)

lemma registered_below: "world_wf w \<Longrightarrow> (s, q, k, r) \<in> registered w \<Longrightarrow> r < next_ref (w_store w)"
  using world_wfD(3) by (force elim: registeredE)

lemma registered_at_base: "(s, q, k, r) \<in> registered w \<Longrightarrow> q \<in> base_ids w"
proof -
  assume "(s, q, k, r) \<in> registered w"
  then obtain p t where p: "pdb_get_participant q (w_participants w) = Some p" "(t, r) \<in> set (side_map s p)"
    by (auto simp: registered_def)
  then show ?thesis by (cases p) (auto simp: base_ids_def)
qed

text \<open>A reference is registered under one topic only.\<close>

lemma registered_unique:
  assumes wf: "world_wf w" and "(s, q, k, r) \<in> registered w" and "(s, q, k', r) \<in> registered w"
  shows "k = k'"
proof -
  obtain p t where p: "pdb_get_participant q (w_participants w) = Some p" "(t, r) \<in> set (side_map s p)" "k = dds_topic_key t"
    using assms(2) by (rule registeredE)
  moreover obtain t' where "(t', r) \<in> set (side_map s p)" "k' = dds_topic_key t'"
    using assms(3) p(1) by (auto elim: registeredE)
  ultimately show ?thesis using inj_onD [OF world_wfD(2) [OF wf p(1), of s], of "(t, r)" "(t', r)"] by simp
qed

lemma registered_found:
  assumes wf: "world_wf w" and "(s, q, dds_topic_key topic, r) \<in> registered w"
    and p: "pdb_get_participant q (w_participants w) = Some p"
  shows "smap_find dds_topic_key topic (side_map s p) = Some r"
proof -
  obtain t where t: "(t, r) \<in> set (side_map s p)" "dds_topic_key topic = dds_topic_key t"
    using assms(2) p by (auto elim: registeredE)
  then have "smap_find dds_topic_key t (side_map s p) = Some r"
    using smap_find_in_ok [OF world_wfD(1) [OF wf p]] by blast
  with t(2) show ?thesis using smap_find_same_key [where key = dds_topic_key, OF t(2), of "side_map s p"] by simp
qed

section \<open>Growing and shrinking\<close>

text \<open>
  What creations and deletions do to the registrations: \<open>grows N\<close> adds the new registrations \<open>N\<close> of participants that
  register, with fresh references; \<open>shrinks D\<close> takes those of \<open>D\<close> out.
\<close>

definition grows :: "registration set \<Rightarrow> ('hr, 'hw) world \<Rightarrow> ('hr, 'hw) world \<Rightarrow> bool" where
  "grows N w w' \<longleftrightarrow> world_wf w' \<and> base_ids w' = base_ids w \<and>
     map fst (w_participants w') = map fst (w_participants w) \<and>
     next_ref (w_store w) \<le> next_ref (w_store w') \<and> registered w' = registered w \<union> (N \<inter> at_base w) \<and>
     (\<forall>s q k r. (s, q, k, r) \<in> N \<longrightarrow> next_ref (w_store w) \<le> r \<and> r < next_ref (w_store w'))"

definition shrinks :: "registration set \<Rightarrow> ('hr, 'hw) world \<Rightarrow> ('hr, 'hw) world \<Rightarrow> bool" where
  "shrinks D w w' \<longleftrightarrow> world_wf w' \<and> base_ids w' = base_ids w \<and>
     map fst (w_participants w') = map fst (w_participants w) \<and>
     next_ref (w_store w') = next_ref (w_store w) \<and> registered w' = registered w - D"

lemma grows_trans: "grows N w w1 \<Longrightarrow> grows M w1 w2 \<Longrightarrow> grows (N \<union> M) w w2"
  unfolding grows_def at_base_def by (safe; simp?) (fastforce+)?

lemma shrinks_trans: "shrinks D w w1 \<Longrightarrow> shrinks C w1 w2 \<Longrightarrow> shrinks (D \<union> C) w w2"
  unfolding shrinks_def by auto

text \<open>What touches only the objects of the store, not the registrations.\<close>

lemma same_participants:
  assumes "w_participants w' = w_participants w" and "next_ref (w_store w') = next_ref (w_store w)" and "world_wf w"
  shows "grows {} w w'" and "shrinks {} w w'"
  using assms by (simp_all add: grows_def shrinks_def world_wf_def base_ids_def registered_def)


text \<open>One participant of the world is replaced.\<close>

lemma registered_replace:
  assumes "pdb_get_participant pid (w_participants w) = Some p"
    and w': "w' = w\<lparr>w_participants := smap_set id pid p' (w_participants w), w_store := st'\<rparr>"
  shows "registered w' = {(s, q, k, r) \<in> registered w. q \<noteq> pid} \<union>
    {(s, q, k, r). q = pid \<and> (\<exists>t. (t, r) \<in> set (side_map s p') \<and> k = dds_topic_key t)}"
  by (auto simp: registered_def w' pdb_get_participant_def split: if_splits)

lemma world_wf_replace:
  assumes "world_wf w" and "endpoints_wf (next_ref st') p'" and "next_ref (w_store w) \<le> next_ref st'"
    and w': "w' = w\<lparr>w_participants := smap_set id pid p' (w_participants w), w_store := st'\<rparr>"
  shows "world_wf w'"
proof -
  have "endpoints_wf (next_ref st') p1" if "pdb_get_participant q (w_participants w) = Some p1" for q p1
    using assms(1,3) that unfolding world_wf_def endpoints_wf_def by (meson less_le_trans)
  with assms show ?thesis by (auto simp: world_wf_def pdb_get_participant_def)
qed

lemma frame_replace:
  assumes "world_wf w" and "pdb_get_participant pid (w_participants w) = Some p"
    and "\<And>b. p = P_base b \<Longrightarrow> \<exists>b'. p' = P_base b'" and "\<And>b'. p' = P_base b' \<Longrightarrow> \<exists>b. p = P_base b"
    and w': "w' = w\<lparr>w_participants := smap_set id pid p' (w_participants w), w_store := st'\<rparr>"
  shows "base_ids w' = base_ids w" and "map fst (w_participants w') = map fst (w_participants w)"
proof -
  show "base_ids w' = base_ids w"
    using assms(2-4) by (auto simp: base_ids_def w' pdb_get_participant_def)
  show "map fst (w_participants w') = map fst (w_participants w)"
    using assms(1,2) smap_keys_set_existing [of id "w_participants w" pid p']
    by (simp add: w' world_wf_def pdb_get_participant_def smap_keys_def)
qed

section \<open>Creation\<close>

text \<open>What \<^verbatim>\<open>create_writer\<close> and \<^verbatim>\<open>create_reader\<close> do to a participant, in the same words.\<close>

definition registers :: "side \<Rightarrow> dds_topic \<Rightarrow> ref \<Rightarrow> participant \<Rightarrow> participant \<Rightarrow> bool" where
  "registers s topic r p p' \<longleftrightarrow>
     (case p of
        P_base b \<Rightarrow> (\<exists>b'. p' = P_base b') \<and> smap_find dds_topic_key topic (side_map s p) = None \<and>
          side_map s p' = smap_set dds_topic_key topic r (side_map s p) \<and>
          (\<forall>s'. s' \<noteq> s \<longrightarrow> side_map s' p' = side_map s' p)
      | _ \<Rightarrow> p' = p)"

lemma side_map_update [simp]:
  "s \<noteq> Writing \<Longrightarrow> side_map s (P_base (b\<lparr>pt_writers := m\<rparr>)) = side_map s (P_base b)"
  "s \<noteq> Reading \<Longrightarrow> side_map s (P_base (b\<lparr>pt_readers := m\<rparr>)) = side_map s (P_base b)"
  by (cases s; simp)+

lemma create_writer_registers:
  "create_writer E topic (p, st) = Inr (r, p', st') \<Longrightarrow>
   registers Writing topic r p p' \<and> r = next_ref st \<and> next_ref st' = Suc (next_ref st)"
  by (cases p) (auto simp: registers_def store_new_writer_def Let_def rbind_eq_Inr_iff smap_emplace_def
      split: option.splits prod.splits)

lemma create_reader_registers:
  "create_reader E topic (p, st) = Inr (r, p', st') \<Longrightarrow>
   registers Reading topic r p p' \<and> r = next_ref st \<and> next_ref st' = Suc (next_ref st)"
  by (cases p) (auto simp: registers_def store_new_reader_def Let_def rbind_eq_Inr_iff smap_emplace_def
      split: option.splits prod.splits)


lemma registers_grows:
  assumes wf: "world_wf w" and p: "pdb_get_participant pid (w_participants w) = Some p"
    and reg: "registers s topic r p p'" and r: "r = next_ref (w_store w)" and n: "next_ref st' = Suc r"
    and w': "w' = w\<lparr>w_participants := smap_set id pid p' (w_participants w), w_store := st'\<rparr>"
  shows "grows {(s, pid, dds_topic_key topic, r)} w w'"
proof -
  note old = world_wfD [OF wf p]
  have ep: "endpoints_wf (next_ref st') p' \<and> registered w' = registered w \<union> ({(s, pid, dds_topic_key topic, r)} \<inter> at_base w)"
  proof (cases p)
    case (P_base b)
    then have new: "smap_find dds_topic_key topic (side_map s p) = None"
      and m: "side_map s p' = smap_set dds_topic_key topic r (side_map s p)"
      and other: "\<And>x. x \<noteq> s \<Longrightarrow> side_map x p' = side_map x p"
      using reg by (auto simp: registers_def)
    have ins: "set (side_map s p') = insert (topic, r) (set (side_map s p))"
      unfolding m using new by (rule set_smap_set_new)
    have "smap_ok dds_topic_key (side_map x p') \<and> inj_on snd (set (side_map x p')) \<and> (\<forall>e\<in>set (side_map x p'). snd e < Suc r)" for x
    proof (cases "x = s")
      case True
      moreover have "\<forall>e\<in>set (side_map s p). snd e < r" using old(3) r by blast
      ultimately show ?thesis using old(1,2) [of s] ins m
        by (auto simp: less_Suc_eq intro!: inj_on_insert [THEN iffD2])
    next
      case False
      with old(1,2) [of x] old(3) [of _ x] other r show ?thesis by (simp add: less_Suc_eq)
    qed
    moreover have "set (side_map x p') = (if x = s then insert (topic, r) (set (side_map x p)) else set (side_map x p))" for x
      using ins other by auto
    then have "registered w' = registered w \<union> {(s, pid, dds_topic_key topic, r)}"
      unfolding registered_replace [OF p w'] using p by (auto simp: registered_def split: if_splits)
    moreover have "pid \<in> base_ids w" using p P_base by (simp add: base_ids_def)
    ultimately show ?thesis by (simp add: endpoints_wf_def n at_base_def)
  qed (use p reg wf r n in \<open>auto simp: registers_def endpoints_wf_def registered_def w' at_base_def base_ids_def pdb_get_participant_def split: if_splits\<close>)
  have "p = P_base b \<Longrightarrow> \<exists>b'. p' = P_base b'" "p' = P_base b \<Longrightarrow> \<exists>b. p = P_base b" for b
    using reg by (auto simp: registers_def split: participant.splits)
  note f = frame_replace [OF wf p this w']
  have "world_wf w'" by (rule world_wf_replace [OF wf _ _ w']) (use ep r n in simp_all)
  with f ep r n show ?thesis by (simp add: grows_def w')
qed

lemma create_writer_grows:
  assumes "world_create_writer E pid topic w = Inr (r, w')" and "world_wf w"
  shows "grows {(Writing, pid, dds_topic_key topic, r)} w w'"
proof -
  obtain p p' st' where p: "pdb_get_participant pid (w_participants w) = Some p"
    and c: "create_writer E topic (p, w_store w) = Inr (r, p', st')"
    and w': "w' = w\<lparr>w_participants := smap_set id pid p' (w_participants w), w_store := st'\<rparr>"
    using assms(1) by (auto simp: world_create_writer_def rbind_eq_Inr_iff split: option.splits)
  from create_writer_registers [OF c] show ?thesis using registers_grows [OF assms(2) p _ _ _ w'] by blast
qed

lemma create_reader_grows:
  assumes "world_create_reader E pid topic w = Inr (r, w')" and "world_wf w"
  shows "grows {(Reading, pid, dds_topic_key topic, r)} w w'"
proof -
  obtain p p' st' where p: "pdb_get_participant pid (w_participants w) = Some p"
    and c: "create_reader E topic (p, w_store w) = Inr (r, p', st')"
    and w': "w' = w\<lparr>w_participants := smap_set id pid p' (w_participants w), w_store := st'\<rparr>"
    using assms(1) by (auto simp: world_create_reader_def rbind_eq_Inr_iff split: option.splits)
  from create_reader_registers [OF c] show ?thesis using registers_grows [OF assms(2) p _ _ _ w'] by blast
qed

section \<open>Deletion\<close>

lemma set_erase_ref:
  assumes "smap_ok dds_topic_key m" and "inj_on snd (set m)"
  shows "set (erase_ref r m) = {e \<in> set m. snd e \<noteq> r}"
proof (cases "List.find (\<lambda>e. snd e = r) m")
  case None
  then have "\<forall>e\<in>set m. snd e \<noteq> r" by (auto simp: find_None_iff)
  with None show ?thesis by (auto simp: erase_ref_def)
next
  case (Some e)
  then have e: "e \<in> set m" "snd e = r" by (auto simp: find_Some_iff)
  have "dds_topic_key (fst x) \<noteq> dds_topic_key (fst e) \<longleftrightarrow> snd x \<noteq> r" if x: "x \<in> set m" for x
  proof -
    have "dds_topic_key (fst x) = dds_topic_key (fst e) \<Longrightarrow> x = e"
      using smap_ok_distinct [OF assms(1)] x e(1) by (simp add: distinct_map inj_on_def)
    moreover have "snd x = r \<Longrightarrow> x = e" using inj_onD [OF assms(2) _ x e(1)] e(2) by simp
    ultimately show ?thesis using e(2) by blast
  qed
  moreover have "set (erase_ref r m) = {x \<in> set m. dds_topic_key (fst x) \<noteq> dds_topic_key (fst e)}"
    using Some by (simp add: erase_ref_def smap_erase_def)
  ultimately show ?thesis by blast
qed

lemma smap_ok_erase_ref: "smap_ok dds_topic_key m \<Longrightarrow> smap_ok dds_topic_key (erase_ref r m)"
  by (simp add: erase_ref_def split: option.split)

definition delete_endpoint :: "side \<Rightarrow> ref \<Rightarrow> participant \<Rightarrow> participant" where
  "delete_endpoint s = (case s of Writing \<Rightarrow> delete_writer | Reading \<Rightarrow> delete_reader)"

lemma side_map_delete: "side_map x (delete_endpoint s r p) = (if x = s then erase_ref r (side_map x p) else side_map x p)"
  by (cases p; cases s; cases x) (auto simp: delete_endpoint_def erase_ref_def)

text \<open>Deleting the endpoint a bridge keeps for a participant, if it keeps one.\<close>

lemma delete_if_found_shrinks:
  assumes wf: "world_wf w"
  shows "shrinks {(x, q, k, r). x = s \<and> q = pid \<and> smap_find id pid m = Some r} w
    (delete_if_found (delete_endpoint s) pid m w)"
proof (cases "smap_find id pid m")
  case (Some r)
  show ?thesis
  proof (cases "pdb_get_participant pid (w_participants w)")
    case None
    with wf Some show ?thesis by (auto simp: shrinks_def delete_if_found_def registered_def)
  next
    case p: (Some p)
    let ?p = "delete_endpoint s r p"
    let ?w = "w\<lparr>w_participants := smap_set id pid ?p (w_participants w), w_store := w_store w\<rparr>"
    note old = world_wfD [OF wf p]
    have set: "set (side_map x ?p) = {e \<in> set (side_map x p). x = s \<longrightarrow> snd e \<noteq> r}" for x
      using set_erase_ref [OF old(1,2)] by (auto simp: side_map_delete)
    have "endpoints_wf (next_ref (w_store w)) ?p"
      unfolding endpoints_wf_def set using old by (auto simp: side_map_delete smap_ok_erase_ref intro: inj_on_subset)
    from world_wf_replace [OF wf this le_refl refl, of pid] have "world_wf ?w" by simp
    moreover have "p = P_base b \<Longrightarrow> \<exists>b'. ?p = P_base b'" "?p = P_base b \<Longrightarrow> \<exists>b. p = P_base b" for b
      by (cases p; cases s; simp add: delete_endpoint_def)+
    note frame_replace [OF wf p this refl, where st' = "w_store w"]
    moreover have "registered ?w = registered w - {(x, q, k, y). x = s \<and> q = pid \<and> smap_find id pid m = Some y}"
      unfolding registered_replace [OF p refl] using p set Some by (auto simp: registered_def)
    ultimately show ?thesis using Some p by (simp add: shrinks_def delete_if_found_def)
  qed
qed (use wf in \<open>auto simp: shrinks_def delete_if_found_def\<close>)


lemma fold_shrinks:
  assumes "\<And>pid w. world_wf w \<Longrightarrow> shrinks (D pid) w (f pid w)" and "world_wf w"
  shows "shrinks (\<Union>pid\<in>set ids. D pid) w (fold f ids w)"
  using assms(2)
proof (induction ids arbitrary: w)
  case Nil
  then show ?case by (simp add: same_participants)
next
  case (Cons pid ids)
  have s: "shrinks (D pid) w (f pid w)" by (rule assms(1)) (rule Cons.prems)
  then have "world_wf (f pid w)" by (simp add: shrinks_def)
  from shrinks_trans [OF s Cons.IH [OF this]] show ?case by simp
qed

section \<open>Bridges as owners\<close>

datatype bridge = B_dds dds_bridge | B_rpc rpc_bridge

fun owned_maps :: "bridge \<Rightarrow> (side \<times> dds_topic \<times> (participant_id, ref) smap) list" where
  "owned_maps (B_dds b) = [(Writing, brg_topic b, brg_writers b), (Reading, brg_topic b, brg_readers b)]"
| "owned_maps (B_rpc b) =
     [(Writing, request_topic (rpc_topic b), request_writers b), (Writing, reply_topic (rpc_topic b), reply_writers b),
      (Reading, request_topic (rpc_topic b), request_readers b), (Reading, reply_topic (rpc_topic b), reply_readers b)]"

definition entries_of :: "(side \<times> dds_topic \<times> (participant_id, ref) smap) list \<Rightarrow> registration set" where
  "entries_of ms = {(s, q, k, r). \<exists>topic m. (s, topic, m) \<in> set ms \<and> (q, r) \<in> set m \<and> k = dds_topic_key topic}"

definition owned :: "bridge \<Rightarrow> registration set" where
  "owned b = entries_of (owned_maps b)"

definition maps_sorted :: "bridge \<Rightarrow> bool" where
  "maps_sorted b \<longleftrightarrow> (\<forall>(s, topic, m)\<in>set (owned_maps b). smap_ok id m)"

fun destroy_bridge :: "bridge \<Rightarrow> ('hr, 'hw) world \<Rightarrow> ('hr, 'hw) world" where
  "destroy_bridge (B_dds b) w = dds_bridge_destroy (b, w)"
| "destroy_bridge (B_rpc b) w = rpc_bridge_destroy (b, w)"

text \<open>What the destructors ask the participants to delete.\<close>

definition kept_for :: "bridge \<Rightarrow> participant_id \<Rightarrow> registration set" where
  "kept_for b pid = {(s, q, k, r). q = pid \<and> (\<exists>topic m. (s, topic, m) \<in> set (owned_maps b) \<and> smap_find id pid m = Some r)}"

lemma in_kept_for:
  "(s, q, k, r) \<in> kept_for b pid \<longleftrightarrow> q = pid \<and> (\<exists>topic m. (s, topic, m) \<in> set (owned_maps b) \<and> smap_find id pid m = Some r)"
  by (simp add: kept_for_def)

lemma in_owned:
  "(s, q, k, r) \<in> owned b \<longleftrightarrow> (\<exists>topic m. (s, topic, m) \<in> set (owned_maps b) \<and> (q, r) \<in> set m \<and> k = dds_topic_key topic)"
  by (simp add: owned_def entries_of_def)

lemma smap_set_same: "smap_find id k m = Some v \<Longrightarrow> smap_ok id m \<Longrightarrow> smap_set id k v m = m"
  by (rule smap_eqI) (auto simp: smap_keys_set_existing smap_keys_def)

lemma smap_set_twice: "smap_set id k v (smap_set id k u m) = smap_set id k v m"
  by (induction m) auto

lemma world_delete_as_found:
  assumes "world_wf w"
  shows "world_delete_endpoints pid (smap_find id pid ws) (smap_find id pid rs) w =
    delete_if_found (delete_endpoint Reading) pid rs (delete_if_found (delete_endpoint Writing) pid ws w)"
  using assms smap_set_same [of pid "w_participants w"]
  by (auto simp: world_delete_endpoints_def delete_if_found_def delete_endpoint_def world_wf_def pdb_get_participant_def Let_def
      smap_set_twice split: option.splits)


section \<open>Operations that keep the endpoints\<close>

text \<open>Switches, notifications of servers and of data change no map of endpoints and no participant.\<close>

definition store_only :: "('hr, 'hw) world \<Rightarrow> ('hr, 'hw) world \<Rightarrow> bool" where
  "store_only w w' \<longleftrightarrow> w_participants w' = w_participants w \<and> next_ref (w_store w') = next_ref (w_store w)"

definition keeps_dds :: "dds_bridge \<times> ('hr, 'hw) world \<Rightarrow> dds_bridge \<times> ('hr, 'hw) world \<Rightarrow> bool" where
  "keeps_dds a b \<longleftrightarrow> owned_maps (B_dds (fst b)) = owned_maps (B_dds (fst a)) \<and> store_only (snd a) (snd b)"

definition keeps_rpc :: "('hr, 'hw) rpc_state \<Rightarrow> ('hr, 'hw) rpc_state \<Rightarrow> bool" where
  "keeps_rpc a b \<longleftrightarrow> owned_maps (B_rpc (fst b)) = owned_maps (B_rpc (fst a)) \<and> store_only (snd a) (snd b)"

lemma next_ref_update [simp]:
  "next_ref (store_update_writer f r st) = next_ref st" "next_ref (store_update_reader h r st) = next_ref st"
  by (simp_all add: store_update_writer_def store_update_reader_def)

lemma next_ref_fold_writers [simp]: "next_ref (fold (\<lambda>e. store_update_writer f (g e)) m st) = next_ref st"
  by (induction m arbitrary: st) simp_all

lemma next_ref_fold_readers [simp]: "next_ref (fold (\<lambda>e. store_update_reader f (g e)) m st) = next_ref st"
  by (induction m arbitrary: st) simp_all

lemma track_next_ref:
  "track_enable (t, st) = (es, t', st') \<Longrightarrow> next_ref st' = next_ref st"
  "track_disable (t, st) = (t', st') \<Longrightarrow> next_ref st' = next_ref st"
  "next_ref (snd (track_destroy (t, st))) = next_ref st"
  by (auto simp: track_enable_def track_disable_def track_destroy_def Let_def split: if_splits prod.splits)

lemma tracks_store_only:
  "tracks_enable ts w = (ts', w') \<Longrightarrow> store_only w w'"
  "tracks_disable ts w = (ts', w') \<Longrightarrow> store_only w w'"
  "store_only w (destroy_tracks ts w)"
proof -
  show "tracks_enable ts w = (ts', w') \<Longrightarrow> store_only w w'"
    by (induction ts w arbitrary: ts' w' rule: tracks_enable.induct)
      (auto simp: store_only_def Let_def split: prod.splits dest!: track_next_ref(1))
  show "tracks_disable ts w = (ts', w') \<Longrightarrow> store_only w w'"
    by (induction ts w arbitrary: ts' w' rule: tracks_disable.induct)
      (auto simp: store_only_def Let_def split: prod.splits dest!: track_next_ref(2))
  show "store_only w (destroy_tracks ts w)"
    by (induction ts w rule: destroy_tracks.induct) (simp_all add: store_only_def track_next_ref(3))
qed

lemma dds_switch_keeps: "keeps_dds bw (dds_bridge_enable bw)" "keeps_dds bw (dds_bridge_disable bw)"
  by (auto simp: keeps_dds_def dds_bridge_enable_def dds_bridge_disable_def store_only_def Let_def split: prod.split
      dest: tracks_store_only(1,2) [unfolded store_only_def])

lemma keeps_rpc_refl [simp]: "keeps_rpc bw bw"
  by (simp add: keeps_rpc_def store_only_def)

lemma keeps_rpc_trans: "keeps_rpc a b \<Longrightarrow> keeps_rpc b c \<Longrightarrow> keeps_rpc a c"
  by (simp add: keeps_rpc_def store_only_def)

lemma keeps_rpc_fold:
  assumes "\<And>x bw. keeps_rpc bw (f x bw)"
  shows "keeps_rpc bw (fold f xs bw)"
proof (induction xs arbitrary: bw)
  case (Cons x xs)
  from keeps_rpc_trans [OF assms Cons.IH] show ?case by simp
qed simp

lemma data_available_keeps: "keeps_rpc bw (rpc_data_available g bw)"
  by (auto simp: keeps_rpc_def store_only_def rpc_data_available_def Let_def split: option.split)

lemma enable_reader_keeps: "keeps_rpc bw (rpc_enable_reader r bw)"
proof -
  let ?w = "(snd bw)\<lparr>w_store := store_update_reader (\<lambda>rd. snd (ireader_enable rd)) r (w_store (snd bw))\<rparr>"
  have a: "keeps_rpc bw (fst bw, ?w)" by (simp add: keeps_rpc_def store_only_def)
  have b: "keeps_rpc bw' ((case cb of CB_rpc s g \<Rightarrow> rpc_data_available g | CB_track k p \<Rightarrow> id) bw')" for cb bw'
    by (cases cb) (simp_all add: data_available_keeps)
  show ?thesis
    unfolding rpc_enable_reader_def Let_def by (rule keeps_rpc_trans [OF a keeps_rpc_fold [OF b]])
qed

lemma rpc_disable_keeps: "keeps_rpc bw (rpc_bridge_disable bw)"
  by (simp add: keeps_rpc_def store_only_def rpc_bridge_disable_def Let_def world_map_writers_def world_disable_readers_def)

lemma map_registry_maps [simp]: "owned_maps (B_rpc (map_registry f pid b)) = owned_maps (B_rpc b)"
  by (simp add: map_registry_def split: option.split)

lemma discovered_service_maps: "discovered_service pid g b = Inr b' \<Longrightarrow> owned_maps (B_rpc b') = owned_maps (B_rpc b)"
  by (auto simp: discovered_service_def Let_def simp del: owned_maps.simps split: if_splits option.splits) simp_all

lemma removed_service_keeps: "keeps_rpc bw (removed_service pid g bw)"
proof -
  let ?b = "(fst bw)\<lparr>current_servers := smap_set id pid (sset_erase id g (servers_of pid (fst bw))) (current_servers (fst bw))\<rparr>"
  have "keeps_rpc bw (?b, snd bw)" by (simp add: keeps_rpc_def store_only_def)
  with keeps_rpc_trans [OF this rpc_disable_keeps] show ?thesis by (simp add: removed_service_def Let_def)
qed

section \<open>Destruction\<close>

text \<open>The destructors: a change of the store, then a loop over the participants.\<close>

lemma destroy_loop_shrinks:
  assumes so: "store_only w w1" and wf: "world_wf w" and step: "\<And>pid v. world_wf v \<Longrightarrow> shrinks (D pid) v (f pid v)"
  shows "shrinks (\<Union>pid\<in>fst ` set (w_participants w). D pid) w
    (fold f (pdb_get_participants_ids (w_participants w1)) w1)"
proof -
  have same: "shrinks {} w w1" using so wf by (intro same_participants) (simp_all add: store_only_def)
  then have wf1: "world_wf w1" by (simp add: shrinks_def)
  have ids: "set (pdb_get_participants_ids (w_participants w1)) = fst ` set (w_participants w)"
    using so wf pdb_ids_eq [of "w_participants w"] by (simp add: store_only_def world_wf_def)
  from shrinks_trans [OF same fold_shrinks [OF step wf1]] show ?thesis unfolding ids [symmetric] by simp
qed

lemma dds_destroy_kept:
  assumes wf: "world_wf w"
  shows "shrinks (\<Union>pid\<in>fst ` set (w_participants w). kept_for (B_dds b) pid) w (dds_bridge_destroy (b, w))"
proof -
  obtain b1 w1 where d: "dds_bridge_disable (b, w) = (b1, w1)" by (metis surj_pair)
  let ?w = "destroy_tracks (brg_tracks b1) w1"
  have maps: "owned_maps (B_dds b1) = owned_maps (B_dds b)" and so: "store_only w ?w"
    using dds_switch_keeps(2) [of "(b, w)"] d tracks_store_only(3) [of w1 "brg_tracks b1"]
    by (simp_all add: keeps_dds_def store_only_def)
  have step: "shrinks (kept_for (B_dds b) pid) v
      (world_delete_endpoints pid (smap_find id pid (brg_writers b1)) (smap_find id pid (brg_readers b1)) v)"
    if "world_wf v" for pid v
  proof -
    note a = delete_if_found_shrinks [OF that, of Writing pid "brg_writers b1"]
    then have "world_wf (delete_if_found (delete_endpoint Writing) pid (brg_writers b1) v)" by (simp add: shrinks_def)
    note b = delete_if_found_shrinks [OF this, of Reading pid "brg_readers b1"]
    have "kept_for (B_dds b) pid = {(x, q, k, r). x = Writing \<and> q = pid \<and> smap_find id pid (brg_writers b1) = Some r} \<union>
        {(x, q, k, r). x = Reading \<and> q = pid \<and> smap_find id pid (brg_readers b1) = Some r}"
      unfolding kept_for_def maps [symmetric] by auto
    with shrinks_trans [OF a b] show ?thesis by (simp add: world_delete_as_found [OF that])
  qed
  from destroy_loop_shrinks [OF so wf step] show ?thesis by (simp add: dds_bridge_destroy_def d Let_def)
qed

lemma rpc_destroy_kept:
  assumes wf: "world_wf w"
  shows "shrinks (\<Union>pid\<in>fst ` set (w_participants w). kept_for (B_rpc b) pid) w (rpc_bridge_destroy (b, w))"
proof -
  obtain b1 w1 where d: "rpc_bridge_disable (b, w) = (b1, w1)" by (metis surj_pair)
  have maps: "owned_maps (B_rpc b1) = owned_maps (B_rpc b)" and so: "store_only w w1"
    using rpc_disable_keeps [of "(b, w)"] d by (simp_all add: keeps_rpc_def)
  let ?del = "\<lambda>pid v. delete_if_found delete_reader pid (reply_readers b1) (delete_if_found delete_reader pid (request_readers b1)
      (delete_if_found delete_writer pid (reply_writers b1) (delete_if_found delete_writer pid (request_writers b1) v)))"
  have step: "shrinks (kept_for (B_rpc b) pid) v (?del pid v)" if "world_wf v" for pid v
  proof -
    have sd: "shrinks {(x, q, k, r). x = s \<and> q = pid \<and> smap_find id pid m = Some r} u
        (delete_if_found (delete_endpoint s) pid m u) \<and> world_wf (delete_if_found (delete_endpoint s) pid m u)"
      if "world_wf u" for s m u
      using delete_if_found_shrinks [OF that, of s pid m] by (simp add: shrinks_def)
    note 1 = sd [OF that, of Writing "request_writers b1"]
    note 2 = sd [OF conjunct2 [OF 1], of Writing "reply_writers b1"]
    note 3 = sd [OF conjunct2 [OF 2], of Reading "request_readers b1"]
    note 4 = sd [OF conjunct2 [OF 3], of Reading "reply_readers b1"]
    note all = shrinks_trans [OF shrinks_trans [OF shrinks_trans [OF conjunct1 [OF 1] conjunct1 [OF 2]] conjunct1 [OF 3]] conjunct1 [OF 4]]
    have kept: "kept_for (B_rpc b) pid = {(x, q, k, r). x = Writing \<and> q = pid \<and> smap_find id pid (request_writers b1) = Some r} \<union>
        {(x, q, k, r). x = Writing \<and> q = pid \<and> smap_find id pid (reply_writers b1) = Some r} \<union>
        {(x, q, k, r). x = Reading \<and> q = pid \<and> smap_find id pid (request_readers b1) = Some r} \<union>
        {(x, q, k, r). x = Reading \<and> q = pid \<and> smap_find id pid (reply_readers b1) = Some r}"
      unfolding kept_for_def maps [symmetric] by auto
    show ?thesis using all unfolding kept by (simp only: delete_endpoint_def side.case)
  qed
  from destroy_loop_shrinks [OF so wf step] show ?thesis by (simp add: rpc_bridge_destroy_def d Let_def)
qed


text \<open>A destructor takes out exactly what the bridge owns.\<close>

lemma destroy_shrinks_owned:
  assumes wf: "world_wf w" and sorted: "maps_sorted b" and own: "owned b \<inter> at_base w \<subseteq> registered w"
  shows "shrinks (owned b) w (destroy_bridge b w)"
proof -
  let ?D = "\<Union>pid\<in>fst ` set (w_participants w). kept_for b pid"
  have "shrinks ?D w (destroy_bridge b w)"
    using dds_destroy_kept [OF wf] rpc_destroy_kept [OF wf] by (cases b) simp_all
  moreover have "(s, q, k, r) \<in> ?D \<longleftrightarrow> (s, q, k, r) \<in> owned b" if x: "(s, q, k, r) \<in> registered w" for s q k r
  proof -
    have q: "q \<in> base_ids w" "q \<in> fst ` set (w_participants w)"
      using registered_at_base [OF x] smap_find_SomeD [of id q "w_participants w"]
      by (force simp: base_ids_def pdb_get_participant_def)+
    have find: "smap_find id q m = Some r \<longleftrightarrow> (q, r) \<in> set m" if "(s, topic, m) \<in> set (owned_maps b)" for topic m
      using sorted that smap_find_id_in by (fastforce simp: maps_sorted_def)
    have "(s, q, k, r) \<in> ?D \<longleftrightarrow> (s, q, k, r) \<in> kept_for b q" unfolding UN_iff in_kept_for using q(2) by blast
    also have "\<dots> \<longleftrightarrow> (\<exists>topic m. (s, topic, m) \<in> set (owned_maps b) \<and> smap_find id q m = Some r)"
      unfolding in_kept_for by simp
    also have "\<dots> \<longleftrightarrow> (\<exists>topic m. (s, topic, m) \<in> set (owned_maps b) \<and> (q, r) \<in> set m)" using find by blast
    finally have D: "(s, q, k, r) \<in> ?D \<longleftrightarrow> (\<exists>topic m. (s, topic, m) \<in> set (owned_maps b) \<and> (q, r) \<in> set m)" .
    have "k = dds_topic_key topic" if "(s, topic, m) \<in> set (owned_maps b)" "(q, r) \<in> set m" for topic m
    proof -
      have "(s, q, dds_topic_key topic, r) \<in> owned b" using that unfolding in_owned by blast
      then have "(s, q, dds_topic_key topic, r) \<in> registered w" using own q(1) by (auto simp: at_base_def)
      from registered_unique [OF wf x this] show ?thesis .
    qed
    then show ?thesis unfolding D in_owned by blast
  qed
  then have "x \<in> ?D \<longleftrightarrow> x \<in> owned b" if "x \<in> registered w" for x using that by (cases x) blast
  then have "registered w - ?D = registered w - owned b" by blast
  ultimately show ?thesis by (simp add: shrinks_def)
qed

section \<open>Construction of a bridge for a topic\<close>

lemma entries_of_set:
  assumes "smap_find id pid m = None"
  shows "entries_of (ms @ (s, topic, smap_set id pid r m) # ms') =
    insert (s, pid, dds_topic_key topic, r) (entries_of (ms @ (s, topic, m) # ms'))"
  using set_smap_set_new [of id pid m r] assms by (auto simp: entries_of_def)

lemma entries_of_empty: "entries_of [(s, topic, []), (s', topic', [])] = {}"
  by (auto simp: entries_of_def)

lemma create_endpoints_grows:
  assumes "create_endpoints E topic ids ws rs w = (res, w')" and "distinct ids" and "world_wf w"
    and "\<forall>pid\<in>set ids. smap_find id pid ws = None \<and> smap_find id pid rs = None"
  shows "\<exists>N. grows N w w' \<and> (\<forall>ws' rs'. res = Inr (ws', rs') \<longrightarrow>
    entries_of [(Writing, topic, ws'), (Reading, topic, rs')] = entries_of [(Writing, topic, ws), (Reading, topic, rs)] \<union> N \<and>
    (smap_ok id ws \<and> smap_ok id rs \<longrightarrow> smap_ok id ws' \<and> smap_ok id rs'))"
  using assms
proof (induction ids arbitrary: ws rs w)
  case Nil
  then show ?case by (intro exI [of _ "{}"]) (auto simp: same_participants)
next
  case (Cons pid ids)
  show ?case
  proof (cases "world_create_writer E pid topic w")
    case (Inl e)
    with Cons.prems show ?thesis by (intro exI [of _ "{}"]) (auto simp: same_participants)
  next
    case (Inr a)
    then obtain wr w1 where c1: "world_create_writer E pid topic w = Inr (wr, w1)" by (cases a) simp
    note g1 = create_writer_grows [OF c1 Cons.prems(3)]
    then have wf1: "world_wf w1" by (simp add: grows_def)
    show ?thesis
    proof (cases "world_create_reader E pid topic w1")
      case (Inl e)
      with Cons.prems(1) c1 g1 show ?thesis by auto
    next
      case (Inr a)
      then obtain rd w2 where c2: "world_create_reader E pid topic w1 = Inr (rd, w2)" by (cases a) simp
      note g2 = grows_trans [OF g1 create_reader_grows [OF c2 wf1]]
      then have wf2: "world_wf w2" by (simp add: grows_def)
      have n: "smap_find id pid ws = None" "smap_find id pid rs = None" using Cons.prems(4) by auto
      have ent: "entries_of [(Writing, topic, smap_set id pid wr ws), (Reading, topic, smap_set id pid rd rs)] =
          entries_of [(Writing, topic, ws), (Reading, topic, rs)] \<union>
          ({(Writing, pid, dds_topic_key topic, wr)} \<union> {(Reading, pid, dds_topic_key topic, rd)})"
        using entries_of_set [OF n(1), of "[]" Writing topic wr "[(Reading, topic, smap_set id pid rd rs)]"]
          entries_of_set [OF n(2), of "[(Writing, topic, ws)]" Reading topic rd "[]"] by (simp add: insert_commute)
      have rest: "create_endpoints E topic ids (smap_set id pid wr ws) (smap_set id pid rd rs) w2 = (res, w')"
        using Cons.prems(1) c1 c2 by simp
      have "\<forall>q\<in>set ids. smap_find id q (smap_set id pid wr ws) = None \<and> smap_find id q (smap_set id pid rd rs) = None"
        using Cons.prems(2,4) by auto
      from Cons.IH [OF rest _ wf2 this] Cons.prems(2) obtain N where N: "grows N w2 w'"
        "\<forall>ws' rs'. res = Inr (ws', rs') \<longrightarrow> entries_of [(Writing, topic, ws'), (Reading, topic, rs')] =
           entries_of [(Writing, topic, smap_set id pid wr ws), (Reading, topic, smap_set id pid rd rs)] \<union> N \<and>
         (smap_ok id ws \<and> smap_ok id rs \<longrightarrow> smap_ok id ws' \<and> smap_ok id rs')" by auto
      from grows_trans [OF g2 N(1)] N(2) show ?thesis unfolding ent by (auto simp: Un_assoc)
    qed
  qed
qed

lemma create_tracks_store_only: "create_tracks topic ws rs ids ts w = (res, w') \<Longrightarrow> store_only w w'"
  by (induction topic ws rs ids ts w arbitrary: res w' rule: create_tracks.induct)
    (auto simp: store_only_def track_new_def Let_def split: option.splits prod.splits)

lemma dds_new_grows:
  assumes "dds_bridge_new E topic enable w = (res, w')" and wf: "world_wf w"
  shows "\<exists>N. grows N w w' \<and> (\<forall>b. res = Inr b \<longrightarrow> owned (B_dds b) = N \<and> maps_sorted (B_dds b))"
proof -
  let ?ids = "pdb_get_participants_ids (w_participants w)"
  obtain cr w1 where e: "create_endpoints E topic ?ids [] [] w = (cr, w1)" by (metis surj_pair)
  have ids: "distinct ?ids" 
    using wf pdb_ids_eq [of "w_participants w"] smap_ok_distinct [of id "w_participants w"] by (simp add: world_wf_def)
  obtain N where g: "grows N w w1" and N: "\<And>ws rs. cr = Inr (ws, rs) \<Longrightarrow>
      entries_of [(Writing, topic, ws), (Reading, topic, rs)] = N \<and> smap_ok id ws \<and> smap_ok id rs"
    using create_endpoints_grows [OF e ids wf] by (auto simp: entries_of_empty)
  then have wf1: "world_wf w1" by (simp add: grows_def)
  have keep: "grows N w v" if "store_only w1 v" for v
    using grows_trans [OF g same_participants(1) [OF _ _ wf1, of v]] that by (simp add: store_only_def)
  show ?thesis
  proof (cases cr)
    case (Inl x)
    with assms(1) e g show ?thesis by (auto simp: dds_bridge_new_def)
  next
    case (Inr a)
    obtain ws rs where a: "cr = Inr (ws, rs)" using Inr by (cases a) simp
    obtain tr w2 where t: "create_tracks topic ws rs ?ids [] w1 = (tr, w2)" by (metis surj_pair)
    note so = create_tracks_store_only [OF t]
    show ?thesis
    proof (cases tr)
      case (Inl x)
      with assms(1) e a t keep [OF so] show ?thesis by (auto simp: dds_bridge_new_def)
    next
      case (Inr ts)
      let ?b = "\<lparr>brg_topic = topic, brg_writers = ws, brg_readers = rs, brg_tracks = ts, brg_enabled = False\<rparr>"
      obtain b where b: "res = Inr b" "(b, w') = (if enable then dds_bridge_enable (?b, w2) else (?b, w2))"
        using assms(1) e a t Inr by (auto simp: dds_bridge_new_def Let_def split: prod.splits if_splits)
      have "keeps_dds (?b, w2) (b, w')"
        using b(2) dds_switch_keeps(1) [of "(?b, w2)"] by (auto simp: keeps_dds_def store_only_def split: if_splits)
      then have m: "owned_maps (B_dds b) = owned_maps (B_dds ?b)" and "store_only w1 w'"
        using so by (simp_all add: keeps_dds_def store_only_def)
      have "owned (B_dds b) = N" "maps_sorted (B_dds b)"
        unfolding owned_def maps_sorted_def m using N [OF a] by simp_all
      with keep [OF \<open>store_only w1 w'\<close>] b(1) show ?thesis by blast
    qed
  qed
qed

section \<open>The endpoints of a bridge for a service\<close>

text \<open>A participant creates an endpoint only for a topic it has none for.\<close>

lemma create_writer_new:
  assumes "world_create_writer E pid topic w = Inr (r, w')" and "world_wf w" and "pid \<in> base_ids w"
  shows "(Writing, pid, dds_topic_key topic, x) \<notin> registered w"
proof -
  obtain b where "pdb_get_participant pid (w_participants w) = Some (P_base b)" using assms(3) by (auto simp: base_ids_def)
  with assms(1) registered_found [OF assms(2), of Writing pid topic x] show ?thesis
    by (auto simp: world_create_writer_def rbind_eq_Inr_iff split: option.splits)
qed

lemma create_reader_new:
  assumes "world_create_reader E pid topic w = Inr (r, w')" and "world_wf w" and "pid \<in> base_ids w"
  shows "(Reading, pid, dds_topic_key topic, x) \<notin> registered w"
proof -
  obtain b where "pdb_get_participant pid (w_participants w) = Some (P_base b)" using assms(3) by (auto simp: base_ids_def)
  with assms(1) registered_found [OF assms(2), of Reading pid topic x] show ?thesis
    by (auto simp: world_create_reader_def rbind_eq_Inr_iff split: option.splits)
qed

text \<open>
  A bridge all of whose endpoints are registered; a run of its operations after which this is still the case and
  that has registered nothing but the endpoints the bridge gained.
\<close>

definition rpc_owner :: "('hr, 'hw) rpc_state \<Rightarrow> bool" where
  "rpc_owner bw \<longleftrightarrow> world_wf (snd bw) \<and> owned (B_rpc (fst bw)) \<subseteq> registered (snd bw) \<and> maps_sorted (B_rpc (fst bw))"

definition gained :: "('hr, 'hw) rpc_state \<Rightarrow> ('hr, 'hw) rpc_state \<Rightarrow> bool" where
  "gained bw bw' \<longleftrightarrow> rpc_owner bw' \<and>
     (\<exists>N. N \<subseteq> at_base (snd bw) \<and> grows N (snd bw) (snd bw') \<and> owned (B_rpc (fst bw')) = owned (B_rpc (fst bw)) \<union> N)"

lemma gained_trans:
  assumes "gained a b" and "gained b c"
  shows "gained a c"
proof -
  obtain N where N: "N \<subseteq> at_base (snd a)" "grows N (snd a) (snd b)" "owned (B_rpc (fst b)) = owned (B_rpc (fst a)) \<union> N"
    using assms(1) unfolding gained_def by blast
  obtain M where M: "M \<subseteq> at_base (snd b)" "grows M (snd b) (snd c)" "owned (B_rpc (fst c)) = owned (B_rpc (fst b)) \<union> M"
    using assms(2) unfolding gained_def by blast
  have "at_base (snd b) = at_base (snd a)" using N(2) by (simp add: grows_def at_base_def)
  then have "N \<union> M \<subseteq> at_base (snd a)" "owned (B_rpc (fst c)) = owned (B_rpc (fst a)) \<union> (N \<union> M)" using N M by auto
  with grows_trans [OF N(2) M(2)] assms(2) show ?thesis unfolding gained_def by blast
qed

lemma gained_keeps:
  assumes "rpc_owner bw" and "keeps_rpc bw bw'"
  shows "gained bw bw'"
proof -
  have so: "w_participants (snd bw') = w_participants (snd bw)" "next_ref (w_store (snd bw')) = next_ref (w_store (snd bw))"
    and m: "owned_maps (B_rpc (fst bw')) = owned_maps (B_rpc (fst bw))"
    using assms(2) by (simp_all add: keeps_rpc_def store_only_def)
  have g: "grows {} (snd bw) (snd bw')" using same_participants(1) [OF so] assms(1) by (simp add: rpc_owner_def)
  with assms(1) m show ?thesis
    unfolding gained_def rpc_owner_def owned_def maps_sorted_def by (auto simp: grows_def simp del: owned_maps.simps)
qed

text \<open>Putting a new endpoint into one of the four maps.\<close>

lemma gained_endpoint:
  assumes own: "rpc_owner (b, w)" and g: "grows {(s, pid, dds_topic_key topic, r)} w w'" and base: "pid \<in> base_ids w"
    and new: "\<And>x. (s, pid, dds_topic_key topic, x) \<notin> registered w"
    and maps: "owned_maps (B_rpc b) = ms @ (s, topic, m) # ms'" "owned_maps (B_rpc b') = ms @ (s, topic, smap_set id pid r m) # ms'"
  shows "gained (b, w) (b', w')"
proof -
  have "(pid, x) \<notin> set m" for x
  proof
    assume "(pid, x) \<in> set m"
    then have "(s, pid, dds_topic_key topic, x) \<in> owned (B_rpc b)" unfolding in_owned maps(1) by auto
    with own new [of x] show False unfolding rpc_owner_def by auto
  qed
  then have "smap_find id pid m = None" by (auto simp: smap_find_None_iff)
  then have o': "owned (B_rpc b') = owned (B_rpc b) \<union> {(s, pid, dds_topic_key topic, r)}"
    unfolding owned_def maps by (simp add: entries_of_set)
  moreover have "\<forall>(s, topic, m)\<in>set (ms @ (s, topic, m) # ms'). smap_ok id m"
    using own unfolding rpc_owner_def maps_sorted_def fst_conv maps(1) by blast
  then have "maps_sorted (B_rpc b')" unfolding maps_sorted_def maps(2) by auto
  moreover have "registered w' = registered w \<union> {(s, pid, dds_topic_key topic, r)}"
    using g base by (simp add: grows_def at_base_def)
  ultimately have "rpc_owner (b', w')" using own g by (auto simp: rpc_owner_def grows_def)
  moreover have "{(s, pid, dds_topic_key topic, r)} \<subseteq> at_base w" using base by (simp add: at_base_def)
  ultimately show ?thesis using g o' unfolding gained_def fst_conv snd_conv by blast
qed


lemmas gained_writer = gained_endpoint [OF _ create_writer_grows _ create_writer_new]
lemmas gained_reader = gained_endpoint [OF _ create_reader_grows _ create_reader_new]

lemma create_slot_keeps_maps: "keeps_rpc bw (create_slot r bw)"
  by (simp add: keeps_rpc_def store_only_def create_slot_def Let_def)

lemma gained_base: "gained bw bw' \<Longrightarrow> base_ids (snd bw') = base_ids (snd bw)"
  by (auto simp: gained_def grows_def)

lemma gained_owner: "gained bw bw' \<Longrightarrow> rpc_owner bw'"
  by (simp add: gained_def)

lemma gained_refl: "rpc_owner bw \<Longrightarrow> gained bw bw"
  by (rule gained_keeps) simp_all

lemma proxy_client_gained:
  assumes "create_proxy_client_nts E pid (b, w) = (err, bw')" and own: "rpc_owner (b, w)" and base: "pid \<in> base_ids w"
  shows "gained (b, w) bw'"
proof (cases "world_create_writer E pid (request_topic (rpc_topic b)) w")
  case (Inl e)
  with assms(1) gained_refl [OF own] show ?thesis by (simp add: create_proxy_client_nts_def)
next
  case (Inr a)
  then obtain wr w1 where c1: "world_create_writer E pid (request_topic (rpc_topic b)) w = Inr (wr, w1)" by (cases a) simp
  let ?b1 = "b\<lparr>request_writers := smap_set id pid wr (request_writers b)\<rparr>"
  have wf: "world_wf w" using own by (simp add: rpc_owner_def)
  have g1: "gained (b, w) (?b1, w1)"
    by (rule gained_writer [OF own c1 wf base c1 wf base, where ms = "[]"]) simp_all
  have base1: "pid \<in> base_ids w1" and wf1: "world_wf w1"
    using gained_base [OF g1] gained_owner [OF g1] base by (simp_all add: rpc_owner_def)
  show ?thesis
  proof (cases "world_create_reader E pid (reply_topic (rpc_topic b)) w1")
    case (Inl e)
    with assms(1) c1 g1 show ?thesis by (simp add: create_proxy_client_nts_def Let_def)
  next
    case (Inr a)
    then obtain rd w2 where c2: "world_create_reader E pid (reply_topic (rpc_topic b)) w1 = Inr (rd, w2)" by (cases a) simp
    let ?b2 = "?b1\<lparr>reply_readers := smap_set id pid rd (reply_readers ?b1)\<rparr>"
    have "gained (?b1, w1) (?b2, w2)"
      by (rule gained_reader [OF gained_owner [OF g1] c2 wf1 base1 c2 wf1 base1,
            where ms = "butlast (owned_maps (B_rpc ?b1))"]) simp_all
    note g2 = gained_trans [OF g1 this]
    obtain b3 w3 where s: "create_slot rd (?b2, w2) = (b3, w3)" by (metis surj_pair)
    have "bw' = (b3\<lparr>service_registries := smap_set id pid (service_registry_new (rpc_topic b) pid) (service_registries b3)\<rparr>, w3)"
      using assms(1) c1 c2 s by (simp add: create_proxy_client_nts_def Let_def)
    moreover have "keeps_rpc (?b2, w2) (b3, w3)" using create_slot_keeps_maps [of "(?b2, w2)" rd] s by simp
    ultimately have "keeps_rpc (?b2, w2) bw'" by (simp add: keeps_rpc_def)
    from gained_trans [OF g2 gained_keeps [OF gained_owner [OF g2] this]] show ?thesis .
  qed
qed

lemma proxy_server_gained:
  assumes "create_proxy_server_nts E pid (b, w) = (err, bw')" and own: "rpc_owner (b, w)" and base: "pid \<in> base_ids w"
  shows "gained (b, w) bw'"
proof (cases "world_create_writer E pid (reply_topic (rpc_topic b)) w")
  case (Inl e)
  with assms(1) gained_refl [OF own] show ?thesis by (simp add: create_proxy_server_nts_def)
next
  case (Inr a)
  then obtain wr w1 where c1: "world_create_writer E pid (reply_topic (rpc_topic b)) w = Inr (wr, w1)" by (cases a) simp
  let ?b1 = "b\<lparr>reply_writers := smap_set id pid wr (reply_writers b)\<rparr>"
  have wf: "world_wf w" using own by (simp add: rpc_owner_def)
  have g1: "gained (b, w) (?b1, w1)"
    by (rule gained_writer [OF own c1 wf base c1 wf base, where ms = "[hd (owned_maps (B_rpc b))]"]) simp_all
  have base1: "pid \<in> base_ids w1" and wf1: "world_wf w1"
    using gained_base [OF g1] gained_owner [OF g1] base by (simp_all add: rpc_owner_def)
  show ?thesis
  proof (cases "world_create_reader E pid (request_topic (rpc_topic b)) w1")
    case (Inl e)
    with assms(1) c1 g1 show ?thesis by (simp add: create_proxy_server_nts_def Let_def)
  next
    case (Inr a)
    then obtain rd w2 where c2: "world_create_reader E pid (request_topic (rpc_topic b)) w1 = Inr (rd, w2)" by (cases a) simp
    let ?b2 = "?b1\<lparr>request_readers := smap_set id pid rd (request_readers ?b1)\<rparr>"
    have "gained (?b1, w1) (?b2, w2)"
      by (rule gained_reader [OF gained_owner [OF g1] c2 wf1 base1 c2 wf1 base1,
            where ms = "take 2 (owned_maps (B_rpc ?b1))"]) simp_all
    note g2 = gained_trans [OF g1 this]
    have "bw' = create_slot rd (?b2, w2)" using assms(1) c1 c2 by (simp add: create_proxy_server_nts_def Let_def)
    with gained_trans [OF g2 gained_keeps [OF gained_owner [OF g2] create_slot_keeps_maps]] show ?thesis by simp
  qed
qed


lemma init_loop_gained:
  "init_loop E ids bw = (err, bw') \<Longrightarrow> rpc_owner bw \<Longrightarrow> set ids \<subseteq> base_ids (snd bw) \<Longrightarrow> gained bw bw'"
proof (induction ids arbitrary: bw)
  case Nil
  then show ?case by (simp add: gained_refl)
next
  case (Cons pid ids)
  obtain b w where bw: "bw = (b, w)" by fastforce
  obtain e1 bw1 where c: "create_proxy_client_nts E pid (b, w) = (e1, bw1)" by (metis surj_pair)
  obtain b1 w1 where bw1: "bw1 = (b1, w1)" by fastforce
  have base: "pid \<in> base_ids w" using Cons.prems(3) by (simp add: bw)
  have g1: "gained bw bw1" using proxy_client_gained [OF c] Cons.prems(2) base by (simp add: bw)
  obtain e2 b2 w2 where v: "create_proxy_server_nts E pid (b1, w1) = (e2, b2, w2)" by (metis surj_pair)
  have base1: "pid \<in> base_ids w1" using gained_base [OF g1] base by (simp add: bw bw1)
  have g2: "gained bw (b2, w2)"
    using gained_trans [OF g1] proxy_server_gained [OF v] gained_owner [OF g1] base1 by (simp add: bw1)
  let ?b3 = "touch_servers pid b2"
  let ?b4 = "if servers_of pid ?b3 \<noteq> [] then map_registry registry_enable pid ?b3 else ?b3"
  have "keeps_rpc (b2, w2) (?b4, w2)"
    unfolding keeps_rpc_def store_only_def by (simp del: owned_maps.simps) (simp add: touch_servers_def)
  note g4 = gained_trans [OF g2 gained_keeps [OF gained_owner [OF g2] this]]
  show ?case
  proof (cases "e1 = None \<and> e2 = None")
    case True
    then have rest: "init_loop E ids (?b4, w2) = (err, bw')"
      using Cons.prems(1) c v by (simp add: bw bw1 Let_def)
    have "gained (?b4, w2) bw'"
      using Cons.IH [OF rest gained_owner [OF g4]] gained_base [OF g4] Cons.prems(3) by simp
    from gained_trans [OF g4 this] show ?thesis .
  next
    case False
    with Cons.prems(1) c v g1 g2 show ?thesis by (auto simp: bw bw1 split: option.splits)
  qed
qed

lemma init_nts_gained:
  assumes "init_nts E bw = (err, bw')" and own: "rpc_owner bw"
  shows "gained bw bw'"
proof -
  let ?ids = "pdb_get_rtps_participants_ids participant_is_rtps_kind (w_participants (snd bw))"
  have ok: "smap_ok id (w_participants (snd bw))" using own by (simp add: rpc_owner_def world_wf_def)
  have "q \<in> base_ids (snd bw)" if q: "q \<in> set ?ids" for q
  proof -
    obtain p where p: "(q, p) \<in> set (w_participants (snd bw))" "participant_is_rtps_kind p"
      using q by (auto simp: pdb_rtps_ids_eq [OF ok])
    then have "pdb_get_participant q (w_participants (snd bw)) = Some p"
      using smap_find_in_ok [OF ok] by (simp add: pdb_get_participant_def)
    with p(2) show ?thesis by (cases p) (auto simp: base_ids_def)
  qed
  then have ids: "set ?ids \<subseteq> base_ids (snd bw)" by blast
  obtain e b w where l: "init_loop E ?ids bw = (e, b, w)" by (metis surj_pair)
  note g = init_loop_gained [OF l own ids]
  have "keeps_rpc (b, w) bw'" using assms(1) l by (cases e) (auto simp: init_nts_def keeps_rpc_def store_only_def)
  from gained_trans [OF g gained_keeps [OF gained_owner [OF g] this]] show ?thesis .
qed

lemma rpc_enable_gained:
  assumes own: "rpc_owner bw"
  shows "gained bw (rpc_bridge_enable E bw)"
proof (cases "\<not> rpc_enabled (fst bw) \<and> servers_available (fst bw)")
  case True
  obtain err bw1 where i: "(if \<not> rpc_init (fst bw) then init_nts E bw else (None, bw)) = (err, bw1)" by (metis surj_pair)
  have g: "gained bw bw1"
    using i init_nts_gained [OF _ own, of E err bw1] gained_refl [OF own] by (cases "rpc_init (fst bw)") simp_all
  show ?thesis
  proof (cases err)
    case (Some e)
    with True i g show ?thesis by (simp add: rpc_bridge_enable_def)
  next
    case None
    let ?b = "(fst bw1)\<lparr>rpc_enabled := True\<rparr>"
    let ?w = "world_map_writers iwriter_enable (reply_writers ?b) (world_map_writers iwriter_enable (request_writers ?b) (snd bw1))"
    have k: "keeps_rpc bw1 (?b, ?w)" by (simp add: keeps_rpc_def store_only_def world_map_writers_def)
    have f: "keeps_rpc a (fold (\<lambda>e. rpc_enable_reader (snd e)) m a)" for m and a :: "('a, 'b) rpc_state"
      by (rule keeps_rpc_fold) (rule enable_reader_keeps)
    from None True i have "rpc_bridge_enable E bw = fold (\<lambda>e. rpc_enable_reader (snd e)) (request_readers ?b)
        (fold (\<lambda>e. rpc_enable_reader (snd e)) (reply_readers ?b) (?b, ?w))"
      by (simp add: rpc_bridge_enable_def Let_def)
    with keeps_rpc_trans [OF keeps_rpc_trans [OF k f] f] have "keeps_rpc bw1 (rpc_bridge_enable E bw)" by simp
    from gained_trans [OF g gained_keeps [OF gained_owner [OF g] this]] show ?thesis .
  qed
qed (use gained_refl [OF own] in \<open>auto simp: rpc_bridge_enable_def\<close>)

end
