(* ===== verification/Bridge_System.thy ===== *)
theory Bridge_System
  imports Endpoint_Ownership
begin

text \<open>
  All bridges of a router together: bridges for topics and for services over the same participants,
  created, switched and destroyed in any order, with constructors that fail. Every endpoint the participants
  have registered has one owner.
\<close>

section \<open>Many bridges\<close>

text \<open>
  The live bridges, the world they share and, as a history for the statements, what failed constructors
  have left registered.
\<close>

record ('hr, 'hw) bridge_sys =
  sys_bridges :: "bridge list"
  sys_world :: "('hr, 'hw) world"
  sys_left :: "registration set"

definition rpc_operation ::
    "('q, 's, 'hr, 'hw) rtps_env \<Rightarrow> ('hr, 'hw) rpc_state \<Rightarrow> ('hr, 'hw) rpc_state \<Rightarrow> bool" where
  "rpc_operation E bw bw' \<longleftrightarrow>
     bw' = rpc_bridge_enable E bw \<or> bw' = rpc_bridge_disable bw \<or>
     (\<exists>pid g b. discovered_service pid g (fst bw) = Inr b \<and> bw' = (b, snd bw)) \<or>
     (\<exists>pid g. bw' = removed_service pid g bw) \<or> (\<exists>g. bw' = rpc_data_available g bw)"

inductive bridge_step ::
    "('q, 's, 'hr, 'hw) rtps_env \<Rightarrow> ('hr, 'hw) bridge_sys \<Rightarrow> ('hr, 'hw) bridge_sys \<Rightarrow> bool"
  for E :: "('q, 's, 'hr, 'hw) rtps_env" where
  dds_created:
    "dds_bridge_new E topic enable (sys_world s) = (Inr b, w') \<Longrightarrow>
     bridge_step E s (s\<lparr>sys_bridges := B_dds b # sys_bridges s, sys_world := w'\<rparr>)"
| dds_failed:
    "dds_bridge_new E topic enable (sys_world s) = (Inl e, w') \<Longrightarrow>
     bridge_step E s (s\<lparr>sys_world := w', sys_left := sys_left s \<union> (registered w' - registered (sys_world s))\<rparr>)"
| dds_switched:
    "sys_bridges s = xs @ B_dds b # ys \<Longrightarrow>
     (b', w') = (if c then dds_bridge_enable (b, sys_world s) else dds_bridge_disable (b, sys_world s)) \<Longrightarrow>
     bridge_step E s (s\<lparr>sys_bridges := xs @ B_dds b' # ys, sys_world := w'\<rparr>)"
| rpc_created: "bridge_step E s (s\<lparr>sys_bridges := B_rpc (rpc_bridge_new t) # sys_bridges s\<rparr>)"
| rpc_operated:
    "sys_bridges s = xs @ B_rpc b # ys \<Longrightarrow> rpc_operation E (b, sys_world s) (b', w') \<Longrightarrow>
     bridge_step E s (s\<lparr>sys_bridges := xs @ B_rpc b' # ys, sys_world := w'\<rparr>)"
| destroyed:
    "sys_bridges s = xs @ b # ys \<Longrightarrow>
     bridge_step E s (s\<lparr>sys_bridges := xs @ ys, sys_world := destroy_bridge b (sys_world s)\<rparr>)"
| data_path: "store_only (sys_world s) w' \<Longrightarrow> bridge_step E s (s\<lparr>sys_world := w'\<rparr>)"

definition bridge_init :: "('hr, 'hw) bridge_sys \<Rightarrow> bool" where
  "bridge_init s \<longleftrightarrow> sys_bridges s = [] \<and> sys_left s = {} \<and> world_wf (sys_world s) \<and> registered (sys_world s) = {}"

definition owned_all :: "bridge list \<Rightarrow> registration set" where
  "owned_all bs = (\<Union>b\<in>set bs. owned b)"

definition disjoint_owners :: "bridge list \<Rightarrow> bool" where
  "disjoint_owners = sorted_wrt (\<lambda>a b. owned a \<inter> owned b = {})"

definition refs_under :: "ref \<Rightarrow> registration set" where
  "refs_under n = {(s, q, k, r). r < n}"

definition ownership :: "bridge list \<Rightarrow> ('hr, 'hw) world \<Rightarrow> registration set \<Rightarrow> bool" where
  "ownership bs w L \<longleftrightarrow>
     world_wf w \<and> registered w = owned_all bs \<inter> at_base w \<union> L \<and> owned_all bs \<inter> L = {} \<and> disjoint_owners bs \<and>
     owned_all bs \<subseteq> refs_under (next_ref (w_store w)) \<and> (\<forall>b\<in>set bs. maps_sorted b) \<and>
     (\<forall>b. B_rpc b \<in> set bs \<longrightarrow> owned (B_rpc b) \<subseteq> at_base w)"

lemma owned_all_simps [simp]:
  "owned_all [] = {}" "owned_all (b # bs) = owned b \<union> owned_all bs" "owned_all (bs @ cs) = owned_all bs \<union> owned_all cs"
  by (auto simp: owned_all_def)

lemma disjoint_owners_simps [simp]:
  "disjoint_owners []" "disjoint_owners (b # bs) \<longleftrightarrow> owned b \<inter> owned_all bs = {} \<and> disjoint_owners bs"
  "disjoint_owners (bs @ cs) \<longleftrightarrow> disjoint_owners bs \<and> disjoint_owners cs \<and> owned_all bs \<inter> owned_all cs = {}"
  by (auto simp: disjoint_owners_def owned_all_def sorted_wrt_append)

lemma registered_under: "world_wf w \<Longrightarrow> registered w \<subseteq> refs_under (next_ref (w_store w))"
  using registered_below by (auto simp: refs_under_def)

lemma grows_fresh: "grows N w w' \<Longrightarrow> N \<inter> refs_under (next_ref (w_store w)) = {} \<and>
    N \<subseteq> refs_under (next_ref (w_store w')) \<and>
    refs_under (next_ref (w_store w)) \<subseteq> refs_under (next_ref (w_store w')) \<and> at_base w' = at_base w"
  by (fastforce simp: grows_def refs_under_def at_base_def)

text \<open>One bridge takes the place of some others and gains what is new.\<close>

lemma ownership_grow:
  assumes o: "ownership (xs @ bs @ ys) w L" and g: "grows N w w'" and b: "owned b' = owned_all bs \<union> N" "maps_sorted b'"
    and rpc: "\<And>c. b' = B_rpc c \<Longrightarrow> owned b' \<subseteq> at_base w"
  shows "ownership (xs @ b' # ys) w' L"
proof -
  note f = grows_fresh [OF g]
  have "L \<subseteq> refs_under (next_ref (w_store w))" using o registered_under by (auto simp: ownership_def)
  then have fresh: "N \<inter> L = {}" "N \<inter> owned_all (xs @ ys) = {}" using f o by (auto simp: ownership_def)
  have "registered w' = owned_all (xs @ b' # ys) \<inter> at_base w' \<union> L"
    using o g f b(1) by (auto simp: ownership_def grows_def)
  moreover have "owned_all (xs @ b' # ys) \<inter> L = {}" using o fresh b(1) by (auto simp: ownership_def)
  moreover have "disjoint_owners (xs @ b' # ys)" using o fresh b(1) by (auto simp: ownership_def)
  moreover have "owned_all (xs @ b' # ys) \<subseteq> refs_under (next_ref (w_store w'))" using o f b(1) by (auto simp: ownership_def)
  moreover have "\<forall>x\<in>set (xs @ b' # ys). maps_sorted x" using o b(2) by (auto simp: ownership_def)
  moreover have "\<forall>c. B_rpc c \<in> set (xs @ b' # ys) \<longrightarrow> owned (B_rpc c) \<subseteq> at_base w'" using o rpc f by (auto simp: ownership_def)
  moreover have "world_wf w'" using g by (simp add: grows_def)
  ultimately show ?thesis unfolding ownership_def by blast
qed

lemma ownership_destroy:
  assumes o: "ownership (xs @ b # ys) w L"
  shows "ownership (xs @ ys) (destroy_bridge b w) L"
proof -
  have d: "shrinks (owned b) w (destroy_bridge b w)"
    by (rule destroy_shrinks_owned) (use o in \<open>auto simp: ownership_def\<close>)
  then have at: "at_base (destroy_bridge b w) = at_base w" by (simp add: shrinks_def at_base_def)
  have "owned b \<inter> L = {}" "owned b \<inter> owned_all (xs @ ys) = {}" using o by (auto simp: ownership_def)
  then have "registered (destroy_bridge b w) = owned_all (xs @ ys) \<inter> at_base w \<union> L"
    using o d by (auto simp: ownership_def shrinks_def)
  then show ?thesis using o d at by (auto simp: ownership_def shrinks_def)
qed

lemma ownership_left:
  assumes "ownership bs w L" and "grows N w w'"
  shows "ownership bs w' (L \<union> (registered w' - registered w))"
proof -
  note f = grows_fresh [OF assms(2)]
  have new: "registered w' - registered w \<subseteq> N" "registered w \<subseteq> registered w'" "world_wf w'"
    using assms(2) by (auto simp: grows_def)
  then have "owned_all bs \<inter> (registered w' - registered w) = {}" using assms(1) f by (auto simp: ownership_def)
  then show ?thesis using assms(1) f new by (auto simp: ownership_def)
qed

lemma ownership_world:
  assumes "ownership bs w L" and "store_only w w'"
  shows "ownership bs w' L"
proof -
  have "grows {} w w'"
    using assms by (intro same_participants(1)) (simp_all add: ownership_def store_only_def)
  then have g: "world_wf w'" "at_base w' = at_base w" "registered w' = registered w" by (auto simp: grows_def at_base_def)
  moreover have "next_ref (w_store w') = next_ref (w_store w)" using assms(2) by (simp add: store_only_def)
  ultimately show ?thesis using assms(1) unfolding ownership_def by simp
qed

lemma ownership_same_maps:
  assumes "ownership (xs @ b # ys) w L" and "owned_maps b' = owned_maps b" and "store_only w w'"
    and "\<And>c. b' = B_rpc c \<Longrightarrow> \<exists>c. b = B_rpc c"
  shows "ownership (xs @ b' # ys) w' L"
proof -
  have "grows {} w w'"
    using assms(1,3) by (intro same_participants(1)) (simp_all add: ownership_def store_only_def)
  moreover have "owned b' = owned_all [b] \<union> {}" "maps_sorted b'"
    using assms(1,2) by (auto simp: owned_def maps_sorted_def ownership_def)
  moreover have "owned b' \<subseteq> at_base w" if "b' = B_rpc c" for c
    using assms(1,4) that calculation(2) by (auto simp: ownership_def)
  ultimately show ?thesis using ownership_grow [of xs "[b]" ys w L "{}" w' b'] assms(1) by simp
qed

text \<open>The operations of a bridge for a service, as an owner among others.\<close>

lemma ownership_rpc_owner: "ownership (xs @ B_rpc b # ys) w L \<Longrightarrow> rpc_owner (b, w)"
  by (auto simp: ownership_def rpc_owner_def)

lemma rpc_operation_gained:
  assumes "rpc_owner bw" and "rpc_operation E bw bw'"
  shows "gained bw bw'"
proof -
  have "keeps_rpc bw bw'" if "discovered_service pid g (fst bw) = Inr b" "bw' = (b, snd bw)" for pid g b
    unfolding keeps_rpc_def store_only_def that(2) fst_conv snd_conv using discovered_service_maps [OF that(1)] by blast
  then have "bw' = rpc_bridge_enable E bw \<or> keeps_rpc bw bw'"
    using assms(2) rpc_disable_keeps removed_service_keeps data_available_keeps unfolding rpc_operation_def by blast
  then show ?thesis using rpc_enable_gained [OF assms(1)] gained_keeps [OF assms(1)] by blast
qed

lemma ownership_rpc:
  assumes o: "ownership (xs @ B_rpc b # ys) w L" and "rpc_operation E (b, w) (b', w')"
  shows "ownership (xs @ B_rpc b' # ys) w' L"
proof -
  note g = rpc_operation_gained [OF ownership_rpc_owner [OF o] assms(2)]
  then obtain N where N: "N \<subseteq> at_base w" "grows N w w'" "owned (B_rpc b') = owned (B_rpc b) \<union> N" by (auto simp: gained_def)
  have "maps_sorted (B_rpc b')" using g by (simp add: gained_def rpc_owner_def)
  moreover have "owned (B_rpc b) \<subseteq> at_base w" using o by (auto simp: ownership_def)
  ultimately show ?thesis using ownership_grow [of xs "[B_rpc b]" ys w L N w' "B_rpc b'"] o N by auto
qed

definition sys_ok :: "('hr, 'hw) bridge_sys \<Rightarrow> bool" where
  "sys_ok s \<longleftrightarrow> ownership (sys_bridges s) (sys_world s) (sys_left s)"

lemma sys_ok_step:
  assumes ok: "sys_ok s" and "bridge_step E s s'"
  shows "sys_ok s'"
  using assms(2)
proof (cases rule: bridge_step.cases)
  case (dds_created topic enable b w')
  obtain N where "grows N (sys_world s) w'" "owned (B_dds b) = N" "maps_sorted (B_dds b)"
    using dds_new_grows [OF dds_created(2)] ok by (auto simp: sys_ok_def ownership_def)
  with ownership_grow [of "[]" "[]" "sys_bridges s" "sys_world s" "sys_left s" N w' "B_dds b"] ok
  show ?thesis by (simp add: sys_ok_def dds_created(1))
next
  case (dds_failed topic enable e w')
  obtain N where "grows N (sys_world s) w'"
    using dds_new_grows [OF dds_failed(2)] ok by (auto simp: sys_ok_def ownership_def)
  with ownership_left ok show ?thesis by (auto simp: sys_ok_def dds_failed(1))
next
  case (dds_switched xs b ys b' w' c)
  have "keeps_dds (b, sys_world s) (b', w')"
    using dds_switched(3) dds_switch_keeps [of "(b, sys_world s)"] by (metis (full_types))
  with ownership_same_maps [of xs "B_dds b" ys "sys_world s" "sys_left s" "B_dds b'" w'] ok dds_switched(2)
  show ?thesis by (simp add: sys_ok_def dds_switched(1) keeps_dds_def)
next
  case (rpc_created t)
  have "grows {} (sys_world s) (sys_world s)" "owned (B_rpc (rpc_bridge_new t)) = {}" "maps_sorted (B_rpc (rpc_bridge_new t))"
    using ok by (auto simp: sys_ok_def ownership_def same_participants owned_def entries_of_def maps_sorted_def rpc_bridge_new_def)
  with ownership_grow [of "[]" "[]" "sys_bridges s" "sys_world s" "sys_left s" "{}" "sys_world s" "B_rpc (rpc_bridge_new t)"] ok
  show ?thesis by (simp add: sys_ok_def rpc_created)
next
  case (rpc_operated xs b ys b' w')
  with ownership_rpc [OF _ rpc_operated(3)] ok show ?thesis by (simp add: sys_ok_def)
next
  case (destroyed xs b ys)
  with ownership_destroy ok show ?thesis by (simp add: sys_ok_def)
next
  case (data_path w')
  with ownership_world ok show ?thesis by (simp add: sys_ok_def)
qed

interpretation bridge_system: invariant_system bridge_init "bridge_step E" sys_ok
proof
  show "sys_ok s" if "bridge_init s" for s
    using that by (simp add: bridge_init_def sys_ok_def ownership_def)
qed (rule sys_ok_step)


section \<open>A constructor that fails\<close>

lemma other_participant_creates:
  assumes "world_wf w" and "pid \<in> fst ` set (w_participants w)" and "pid \<notin> base_ids w"
  shows "\<exists>wr w1 rd w2. world_create_writer E pid topic w = Inr (wr, w1) \<and> world_create_reader E pid topic w1 = Inr (rd, w2)"
proof -
  obtain p where p: "pdb_get_participant pid (w_participants w) = Some p"
    using assms(1,2) smap_find_in_ok [of id "w_participants w" pid] by (fastforce simp: world_wf_def pdb_get_participant_def)
  with assms(3) have nb: "p \<noteq> P_base b" for b by (auto simp: base_ids_def)
  show ?thesis
  proof (cases p)
    case (P_base b)
    with nb show ?thesis by blast
  qed (use p in \<open>simp_all add: world_create_writer_def world_create_reader_def pdb_get_participant_def Let_def split: prod.split\<close>)
qed


lemma other_participant_registers_nothing:
  assumes "world_create_writer E pid topic w = Inr (wr, w1)" and "world_create_reader E pid topic w1 = Inr (rd, w2)"
    and "world_wf w" and "pid \<notin> base_ids w"
  shows "world_wf w2 \<and> registered w2 = registered w \<and> base_ids w2 = base_ids w \<and>
    map fst (w_participants w2) = map fst (w_participants w)"
proof -
  note g1 = create_writer_grows [OF assms(1,3)]
  then have "world_wf w1" by (simp add: grows_def)
  from grows_trans [OF g1 create_reader_grows [OF assms(2) this]] assms(4) show ?thesis
    by (auto simp: grows_def at_base_def)
qed

text \<open>If anything was registered, the first participant that registers has a writer for the topic.\<close>

lemma endpoints_registered_first:
  assumes "create_endpoints E topic ids ws rs w = (res, w')" and "world_wf w" and "registered w' \<noteq> registered w"
    and "distinct ids" and "\<forall>pid\<in>set ids. smap_find id pid ws = None \<and> smap_find id pid rs = None"
  shows "\<exists>pre pid post r. ids = pre @ pid # post \<and> set pre \<inter> base_ids w = {} \<and> pid \<in> base_ids w \<and>
    (Writing, pid, dds_topic_key topic, r) \<in> registered w'"
  using assms
proof (induction ids arbitrary: ws rs w)
  case (Cons pid ids)
  obtain wr w1 where c1: "world_create_writer E pid topic w = Inr (wr, w1)"
    using Cons.prems(1,3) by (cases "world_create_writer E pid topic w") auto
  note g1 = create_writer_grows [OF c1 Cons.prems(2)]
  then have wf1: "world_wf w1" by (simp add: grows_def)
  have ws: "\<forall>q\<in>set ids. smap_find id q (smap_set id pid x ws) = None \<and> smap_find id q (smap_set id pid y rs) = None" for x y
    using Cons.prems(4,5) by auto
  have rest: "registered w1 \<subseteq> registered w'"
  proof (cases "world_create_reader E pid topic w1")
    case (Inl e)
    with Cons.prems(1) c1 show ?thesis by simp
  next
    case (Inr a)
    then obtain rd w2 where c2: "world_create_reader E pid topic w1 = Inr (rd, w2)" by (cases a) simp
    note g2 = create_reader_grows [OF c2 wf1]
    have e: "create_endpoints E topic ids (smap_set id pid wr ws) (smap_set id pid rd rs) w2 = (res, w')"
      using Cons.prems(1) c1 c2 by simp
    have "world_wf w2" using g2 by (simp add: grows_def)
    from create_endpoints_grows [OF e _ this ws] Cons.prems(4) obtain M where "grows M w2 w'" by auto
    with g2 show ?thesis by (auto simp: grows_def)
  qed
  show ?case
  proof (cases "pid \<in> base_ids w")
    case True
    then have "(Writing, pid, dds_topic_key topic, wr) \<in> registered w'" using g1 rest by (auto simp: grows_def at_base_def)
    with True show ?thesis by (intro exI [of _ "[]"] exI [of _ pid] exI [of _ ids] exI [of _ wr]) simp
  next
    case False
    have "registered w1 = registered w" using g1 False by (auto simp: grows_def at_base_def)
    then obtain rd w2 where c2: "world_create_reader E pid topic w1 = Inr (rd, w2)"
      using Cons.prems(1,3) c1 by (cases "world_create_reader E pid topic w1") auto
    have e: "create_endpoints E topic ids (smap_set id pid wr ws) (smap_set id pid rd rs) w2 = (res, w')"
      using Cons.prems(1) c1 c2 by simp
    note n = other_participant_registers_nothing [OF c1 c2 Cons.prems(2) False]
    from Cons.IH [OF e _ _ _ ws] n Cons.prems(3,4) obtain pre q post r where
      "ids = pre @ q # post" "set pre \<inter> base_ids w = {}" "q \<in> base_ids w" "(Writing, q, dds_topic_key topic, r) \<in> registered w'"
      by auto
    with False show ?thesis by (intro exI [of _ "pid # pre"] exI [of _ q] exI [of _ post] exI [of _ r]) simp
  qed
qed simp

text \<open>From then on the creation of the endpoints for the topic stops at that participant.\<close>

lemma endpoints_blocked:
  assumes "world_wf w" and "set (pre @ pid # post) \<subseteq> fst ` set (w_participants w)" and "set pre \<inter> base_ids w = {}"
    and "pid \<in> base_ids w" and "(Writing, pid, dds_topic_key topic, r) \<in> registered w"
  shows "\<exists>w'. create_endpoints E topic (pre @ pid # post) ws rs w = (Inl InitializationException, w') \<and> registered w' = registered w"
  using assms
proof (induction pre arbitrary: ws rs w)
  case Nil
  obtain b where b: "pdb_get_participant pid (w_participants w) = Some (P_base b)" using Nil.prems(4) by (auto simp: base_ids_def)
  with registered_found [OF Nil.prems(1,5) b] have "world_create_writer E pid topic w = Inl InitializationException"
    by (simp add: world_create_writer_def)
  then show ?case by simp
next
  case (Cons q pre)
  obtain wr w1 rd w2 where c: "world_create_writer E q topic w = Inr (wr, w1)" "world_create_reader E q topic w1 = Inr (rd, w2)"
    using other_participant_creates [OF Cons.prems(1), of q E topic] Cons.prems(2,3) by auto
  have n: "world_wf w2" "registered w2 = registered w" "base_ids w2 = base_ids w"
    "map fst (w_participants w2) = map fst (w_participants w)"
    using other_participant_registers_nothing [OF c Cons.prems(1)] Cons.prems(3) by auto
  have "fst ` set (w_participants w2) = fst ` set (w_participants w)" using n(4) by (metis set_map)
  with Cons.IH [OF n(1), of "smap_set id q wr ws" "smap_set id q rd rs"] Cons.prems n(2,3) c show ?case by simp
qed

section \<open>Properties\<close>

text \<open>
  C17. Every endpoint has one owner. Whatever bridges for topics and services are created, switched on
  and off, notified of servers and destroyed over the same participants, and whatever creations fail on the
  way, the writers and readers registered with the participants are exactly those of the live bridges, no two of
  which share one, and those a failed constructor of a bridge for a topic left. When no bridge lives and none
  has failed, the participants have no endpoints.
\<close>

theorem endpoints_have_one_owner:
  assumes "reachable bridge_init (bridge_step E) s"
  shows "registered (sys_world s) = (\<Union>b\<in>set (sys_bridges s). owned b) \<inter> at_base (sys_world s) \<union> sys_left s \<and>
    (\<forall>b\<in>set (sys_bridges s). owned b \<inter> sys_left s = {}) \<and>
    (\<forall>i j. i < j \<longrightarrow> j < length (sys_bridges s) \<longrightarrow> owned (sys_bridges s ! i) \<inter> owned (sys_bridges s ! j) = {}) \<and>
    (sys_bridges s = [] \<and> sys_left s = {} \<longrightarrow>
       (\<forall>q b. pdb_get_participant q (w_participants (sys_world s)) = Some (P_base b) \<longrightarrow>
          pt_writers b = [] \<and> pt_readers b = []))"
proof -
  from bridge_system.reachable_inv [OF assms] have o: "ownership (sys_bridges s) (sys_world s) (sys_left s)"
    by (simp add: sys_ok_def)
  have "pt_writers b = [] \<and> pt_readers b = []" if "sys_bridges s = []" "sys_left s = {}"
    and p: "pdb_get_participant q (w_participants (sys_world s)) = Some (P_base b)" for q b
  proof -
    have "registered (sys_world s) = {}" using o that by (simp add: ownership_def)
    then have "(t, r) \<notin> set (side_map x (P_base b))" for x t r using p unfolding registered_def by blast
    then have "set (side_map x (P_base b)) = {}" for x by (metis equals0I surj_pair)
    from this [of Writing] this [of Reading] show ?thesis by simp
  qed
  moreover have "\<forall>i j. i < j \<longrightarrow> j < length (sys_bridges s) \<longrightarrow> owned (sys_bridges s ! i) \<inter> owned (sys_bridges s ! j) = {}"
    using o by (simp add: ownership_def disjoint_owners_def sorted_wrt_iff_nth_less)
  moreover have "\<forall>b\<in>set (sys_bridges s). owned b \<inter> sys_left s = {}" using o unfolding ownership_def owned_all_def by blast
  moreover have "registered (sys_world s) = (\<Union>b\<in>set (sys_bridges s). owned b) \<inter> at_base (sys_world s) \<union> sys_left s"
    using o unfolding ownership_def owned_all_def by blast
  ultimately show ?thesis by blast
qed

lemma registered_nonempty:
  "pdb_get_participant q (w_participants w) = Some (P_base b) \<Longrightarrow> pt_writers b \<noteq> [] \<Longrightarrow> registered w \<noteq> {}"
proof -
  assume p: "pdb_get_participant q (w_participants w) = Some (P_base b)" and "pt_writers b \<noteq> []"
  then obtain t r where "(t, r) \<in> set (side_map Writing (P_base b))" by (cases "pt_writers b") auto
  with p have "(Writing, q, dds_topic_key t, r) \<in> registered w" unfolding registered_def by blast
  then show ?thesis by blast
qed

lemma sample_world_wf: "world_wf sample_world" and sample_world_unregistered: "registered sample_world = {}"
proof -
  have m: "side_map x p = []" if "pdb_get_participant q (w_participants sample_world) = Some p" for q p x
    using that by (cases x) (auto simp: sample_world_def pdb_get_participant_def sample_participant_def split: if_splits)
  then show "registered sample_world = {}" by (fastforce simp: registered_def)
  show "world_wf sample_world" using m sample_world_ok by (auto simp: world_wf_def endpoints_wf_def)
qed

theorem endpoints_have_one_owner_witness:
  "\<exists>b w'. dds_bridge_new sample_env sample_bridge_topic False sample_world = (Inr b, w') \<and>
     registered w' \<noteq> {} \<and> registered w' = owned (B_dds b) \<inter> at_base w'"
proof -
  have "case dds_bridge_new sample_env sample_bridge_topic False sample_world of
      (Inr b, w') \<Rightarrow> (case pdb_get_participant (PId ''a'') (w_participants w') of
         Some (P_base p) \<Rightarrow> pt_writers p \<noteq> [] | _ \<Rightarrow> False) | _ \<Rightarrow> False"
    by code_simp
  then obtain b w' p where b: "dds_bridge_new sample_env sample_bridge_topic False sample_world = (Inr b, w')"
    "pdb_get_participant (PId ''a'') (w_participants w') = Some (P_base p)" "pt_writers p \<noteq> []"
    by (auto split: prod.splits sum.splits option.splits participant.splits)
  let ?s = "\<lparr>sys_bridges = [], sys_world = sample_world, sys_left = {}\<rparr>"
  have "bridge_init ?s" by (simp add: bridge_init_def sample_world_wf sample_world_unregistered)
  then have "reachable bridge_init (bridge_step sample_env) ?s" by (rule reach_init)
  moreover have "bridge_step sample_env ?s (?s\<lparr>sys_bridges := [B_dds b], sys_world := w'\<rparr>)"
    using dds_created [of sample_env sample_bridge_topic False ?s b w'] b(1) by simp
  ultimately have "reachable bridge_init (bridge_step sample_env) (?s\<lparr>sys_bridges := [B_dds b], sys_world := w'\<rparr>)"
    by (rule reach_step)
  from endpoints_have_one_owner [OF this] registered_nonempty [OF b(2,3)] b(1) show ?thesis by auto
qed

text \<open>
  C18. A failed bridge blocks its topic. When the constructor of a bridge for a topic throws after it has registered
  an endpoint, every later attempt to build a bridge for the topic over these participants, with whatever
  success of the middleware, ends with an initialization error at once and registers nothing.
\<close>

theorem failed_bridge_blocks_topic:
  assumes wf: "world_wf w" and new: "dds_bridge_new E topic enable w = (Inl e, w')" and left: "registered w' \<noteq> registered w"
  shows "\<exists>w''. dds_bridge_new E' topic enable' w' = (Inl InitializationException, w'') \<and> registered w'' = registered w'"
proof -
  let ?ids = "pdb_get_participants_ids (w_participants w)"
  obtain res w1 where c: "create_endpoints E topic ?ids [] [] w = (res, w1)" by (metis surj_pair)
  have ids: "?ids = map fst (w_participants w)" "distinct ?ids"
    using wf pdb_ids_eq [of "w_participants w"] smap_ok_distinct [of id "w_participants w"] by (simp_all add: world_wf_def)
  obtain N where g: "grows N w w1" using create_endpoints_grows [OF c ids(2) wf] by auto
  have "w' = w1 \<or> (\<exists>ws rs ts. create_tracks topic ws rs ?ids [] w1 = (ts, w'))"
    using new c by (auto simp: dds_bridge_new_def Let_def split: sum.splits prod.splits if_splits)
  moreover have "store_only w1 w1" by (simp add: store_only_def)
  ultimately have "store_only w1 w'" using create_tracks_store_only by blast
  then have w': "world_wf w'" "registered w' = registered w1" "base_ids w' = base_ids w1"
    "map fst (w_participants w') = map fst (w_participants w1)"
    using same_participants(1) [of w' w1] g by (auto simp: store_only_def grows_def)
  obtain pre pid post r where f: "?ids = pre @ pid # post" "set pre \<inter> base_ids w = {}" "pid \<in> base_ids w"
    "(Writing, pid, dds_topic_key topic, r) \<in> registered w1"
    using endpoints_registered_first [OF c wf] left w'(2) ids(2) by auto
  have ids': "pdb_get_participants_ids (w_participants w') = ?ids"
    using pdb_ids_eq [of "w_participants w'"] w'(1,4) g ids(1) by (simp add: world_wf_def grows_def)
  have "set (pre @ pid # post) \<subseteq> fst ` set (w_participants w')"
    using f(1) ids(1) w'(4) g by (metis grows_def set_map subset_refl)
  from endpoints_blocked [OF w'(1) this, of topic r E' "[]" "[]"] f w'(2,3) g obtain w'' where
    "create_endpoints E' topic (pre @ pid # post) [] [] w' = (Inl InitializationException, w'')" "registered w'' = registered w'"
    by (auto simp: grows_def)
  then show ?thesis by (simp add: dds_bridge_new_def ids' f(1))
qed


definition unreliable_env :: "(unit, unit, unit, unit) rtps_env" where
  "unreliable_env = sample_env\<lparr>env_register_reader := (\<lambda>p t q. False)\<rparr>"

definition unreliable_world :: "(unit, unit) world" where
  "unreliable_world = sample_world\<lparr>w_participants :=
     [(PId ''a'', P_base \<lparr>pt_id = PId ''a'', pt_kind = PK_simple_rtps, pt_is_repeater = False, pt_writers = [], pt_readers = []\<rparr>)]\<rparr>"

theorem failed_bridge_blocks_topic_witness:
  "\<exists>e w' w''. dds_bridge_new unreliable_env sample_bridge_topic False unreliable_world = (Inl e, w') \<and>
     dds_bridge_new sample_env sample_bridge_topic False w' = (Inl InitializationException, w'') \<and>
     (\<exists>b w. dds_bridge_new sample_env sample_bridge_topic False unreliable_world = (Inr b, w))"
proof -
  have "case dds_bridge_new unreliable_env sample_bridge_topic False unreliable_world of
      (Inl e, w') \<Rightarrow> (case pdb_get_participant (PId ''a'') (w_participants w') of
         Some (P_base p) \<Rightarrow> pt_writers p \<noteq> [] | _ \<Rightarrow> False) | _ \<Rightarrow> False"
    by code_simp
  then obtain e w' p where f: "dds_bridge_new unreliable_env sample_bridge_topic False unreliable_world = (Inl e, w')"
    and p: "pdb_get_participant (PId ''a'') (w_participants w') = Some (P_base p)" "pt_writers p \<noteq> []"
    by (auto split: prod.splits sum.splits option.splits participant.splits)
  have m: "side_map x q = []" if "pdb_get_participant i (w_participants unreliable_world) = Some q" for i q x
    using that by (cases x) (auto simp: unreliable_world_def pdb_get_participant_def split: if_splits)
  then have "registered unreliable_world = {}" by (fastforce simp: registered_def)
  then have left: "registered w' \<noteq> registered unreliable_world" using registered_nonempty [OF p] by simp
  have wf: "world_wf unreliable_world" using m by (auto simp: world_wf_def endpoints_wf_def unreliable_world_def smap_ok_def)
  have "case dds_bridge_new sample_env sample_bridge_topic False unreliable_world of (Inr b, w) \<Rightarrow> True | _ \<Rightarrow> False"
    by code_simp
  then have "\<exists>b w. dds_bridge_new sample_env sample_bridge_topic False unreliable_world = (Inr b, w)"
    by (auto split: prod.splits sum.splits)
  with f failed_bridge_blocks_topic [OF wf f left, of sample_env False] show ?thesis by blast
qed

end
