(* ===== verification/Addresses.thy ===== *)
theory Addresses
  imports Dds_Types Std_Map
begin

text \<open>
  Network addresses (\<^verbatim>\<open>types/address\<close>) and the TLS configuration of a participant
  (\<^verbatim>\<open>types/security/tls\<close>). What decides whether a string is an IP and what resolves a name is
  \<^verbatim>\<open>IPLocator\<close> of Fast DDS: the parameter record \<open>ip_locator\<close>. A name is resolved once, in the
  constructor.
\<close>

section \<open>Addresses\<close>

datatype ip_version = IPv4 | IPv6

datatype transport_protocol = UDP | TCP

fun ip_version_value :: "ip_version \<Rightarrow> nat" where
  "ip_version_value IPv4 = 4"
| "ip_version_value IPv6 = 6"

fun transport_protocol_value :: "transport_protocol \<Rightarrow> nat" where
  "transport_protocol_value UDP = 0"
| "transport_protocol_value TCP = 1"

type_synonym port = "16 word"

record address =
  addr_ip :: string
  addr_domain :: string
  addr_has_domain :: bool
  addr_has_valid_domain :: bool
  addr_port :: port
  addr_external_port :: port
  addr_ip_version :: ip_version
  addr_transport_protocol :: transport_protocol

text \<open>\<open>resolveNameDNS\<close> gives the IPv4 and the IPv6 strings of a name, both in the order of their sets.\<close>

record ip_locator =
  isIPv4 :: "string \<Rightarrow> bool"
  isIPv6 :: "string \<Rightarrow> bool"
  resolveNameDNS :: "string \<Rightarrow> string list \<times> string list"

definition DEFAULT_PORT :: port where "DEFAULT_PORT = 11666"
definition DEFAULT_IP_v4 :: string where "DEFAULT_IP_v4 = ''127.0.0.1''"
definition DEFAULT_IP_v6 :: string where "DEFAULT_IP_v6 = ''::1''"

definition address_default_ip :: "ip_version \<Rightarrow> string" where
  "address_default_ip v = (if v = IPv4 then DEFAULT_IP_v4 else DEFAULT_IP_v6)"

definition address_of_ip_version ::
    "string \<Rightarrow> port \<Rightarrow> port \<Rightarrow> ip_version \<Rightarrow> transport_protocol \<Rightarrow> address" where
  "address_of_ip_version ip port external_port version protocol =
     \<lparr>addr_ip = ip, addr_domain = '''', addr_has_domain = False, addr_has_valid_domain = False,
      addr_port = port, addr_external_port = external_port, addr_ip_version = version,
      addr_transport_protocol = protocol\<rparr>"

definition address_default :: address where
  "address_default = address_of_ip_version DEFAULT_IP_v4 DEFAULT_PORT DEFAULT_PORT IPv4 UDP"

definition address_of_ip ::
    "ip_locator \<Rightarrow> string \<Rightarrow> port \<Rightarrow> port \<Rightarrow> transport_protocol \<Rightarrow> address" where
  "address_of_ip L ip port external_port protocol =
     (let a = address_of_ip_version ip port external_port IPv4 protocol
      in if isIPv6 L (addr_ip a) then a\<lparr>addr_ip_version := IPv6\<rparr> else a)"

definition resolve_dns_version :: "ip_locator \<Rightarrow> string \<Rightarrow> ip_version \<Rightarrow> string result" where
  "resolve_dns_version L domain version =
     (let dns_response = resolveNameDNS L domain in
      if version = IPv4 then
        (case fst dns_response of [] \<Rightarrow> Inl DNSException | ip # _ \<Rightarrow> Inr ip)
      else
        (case snd dns_response of [] \<Rightarrow> Inl DNSException | ip # _ \<Rightarrow> Inr ip))"

definition resolve_dns :: "ip_locator \<Rightarrow> string \<Rightarrow> (string \<times> ip_version) result" where
  "resolve_dns L domain =
     (let dns_response = resolveNameDNS L domain in
      case fst dns_response of
        [] \<Rightarrow> (case snd dns_response of [] \<Rightarrow> Inl DNSException | ip # _ \<Rightarrow> Inr (ip, IPv6))
      | ip # _ \<Rightarrow> Inr (ip, IPv4))"

definition address_of_domain_version ::
    "ip_locator \<Rightarrow> port \<Rightarrow> port \<Rightarrow> ip_version \<Rightarrow> string \<Rightarrow> transport_protocol \<Rightarrow> address" where
  "address_of_domain_version L port external_port version domain protocol =
     (let a = \<lparr>addr_ip = '''', addr_domain = domain, addr_has_domain = True,
               addr_has_valid_domain = False, addr_port = port, addr_external_port = external_port,
               addr_ip_version = version, addr_transport_protocol = protocol\<rparr>
      in case resolve_dns_version L domain version of
           Inl _ \<Rightarrow> a
         | Inr ip \<Rightarrow> a\<lparr>addr_ip := ip, addr_has_valid_domain := True\<rparr>)"

text \<open>
  The constructor without an IP version does not initialise \<^verbatim>\<open>ip_version_\<close>: \<open>garbage\<close> is what the
  member holds when the name is not resolved.
\<close>

definition address_of_domain ::
    "ip_version \<Rightarrow> ip_locator \<Rightarrow> port \<Rightarrow> port \<Rightarrow> string \<Rightarrow> transport_protocol \<Rightarrow> address" where
  "address_of_domain garbage L port external_port domain protocol =
     (let a = \<lparr>addr_ip = '''', addr_domain = domain, addr_has_domain = True,
               addr_has_valid_domain = False, addr_port = port, addr_external_port = external_port,
               addr_ip_version = garbage, addr_transport_protocol = protocol\<rparr>
      in case resolve_dns L domain of
           Inl _ \<Rightarrow> a
         | Inr (ip, version) \<Rightarrow>
             a\<lparr>addr_ip := ip, addr_ip_version := version, addr_has_valid_domain := True\<rparr>)"

definition address_is_udp :: "address \<Rightarrow> bool" where
  "address_is_udp a \<longleftrightarrow> addr_transport_protocol a = UDP"

definition address_is_tcp :: "address \<Rightarrow> bool" where
  "address_is_tcp a \<longleftrightarrow> addr_transport_protocol a = TCP"

definition address_is_ipv4 :: "address \<Rightarrow> bool" where
  "address_is_ipv4 a \<longleftrightarrow> addr_ip_version a = IPv4"

definition address_is_ipv6 :: "address \<Rightarrow> bool" where
  "address_is_ipv6 a \<longleftrightarrow> addr_ip_version a = IPv6"

datatype locator_kind =
    LOCATOR_KIND_INVALID
  | LOCATOR_KIND_UDPv4
  | LOCATOR_KIND_UDPv6
  | LOCATOR_KIND_TCPv4
  | LOCATOR_KIND_TCPv6

definition get_locator_kind :: "address \<Rightarrow> locator_kind" where
  "get_locator_kind a =
     (if addr_ip_version a = IPv4 then
        if addr_transport_protocol a = UDP then LOCATOR_KIND_UDPv4
        else if addr_transport_protocol a = TCP then LOCATOR_KIND_TCPv4
        else LOCATOR_KIND_INVALID
      else if addr_ip_version a = IPv6 then
        if addr_transport_protocol a = UDP then LOCATOR_KIND_UDPv6
        else if addr_transport_protocol a = TCP then LOCATOR_KIND_TCPv6
        else LOCATOR_KIND_INVALID
      else LOCATOR_KIND_INVALID)"

definition address_is_valid :: "ip_locator \<Rightarrow> address \<Rightarrow> bool" where
  "address_is_valid L a =
     (if addr_has_domain a \<and> \<not> addr_has_valid_domain a then False
      else if address_is_udp a \<and> addr_port a \<noteq> addr_external_port a then False
      else case addr_ip_version a of
          IPv4 \<Rightarrow> isIPv4 L (addr_ip a)
        | IPv6 \<Rightarrow> isIPv6 L (addr_ip a))"

definition address_less :: "address \<Rightarrow> address \<Rightarrow> bool" where
  "address_less a other =
     (if addr_ip a < addr_ip other then True
      else if addr_ip a > addr_ip other then False
      else if addr_port a < addr_port other then True
      else if addr_port a > addr_port other then False
      else if transport_protocol_value (addr_transport_protocol a)
              < transport_protocol_value (addr_transport_protocol other) then True
      else if transport_protocol_value (addr_transport_protocol a)
              > transport_protocol_value (addr_transport_protocol other) then False
      else ip_version_value (addr_ip_version a) < ip_version_value (addr_ip_version other))"

definition address_eq :: "ip_locator \<Rightarrow> address \<Rightarrow> address \<Rightarrow> bool" where
  "address_eq L a other \<longleftrightarrow>
     addr_ip a = addr_ip other \<and> addr_port a = addr_port other \<and>
     addr_transport_protocol a = addr_transport_protocol other \<and>
     address_is_valid L a = address_is_valid L other"

definition address_key :: "address \<Rightarrow> string \<times> port \<times> nat \<times> nat" where
  "address_key a =
     (addr_ip a, addr_port a, transport_protocol_value (addr_transport_protocol a),
      ip_version_value (addr_ip_version a))"

section \<open>Connection addresses of a discovery server\<close>

record ds_connection_address =
  ds_guid_prefix :: guid_prefix
  ds_addresses :: "address list"

fun any_address_valid :: "ip_locator \<Rightarrow> address list \<Rightarrow> bool" where
  "any_address_valid L [] = False"
| "any_address_valid L (a # as) = (if address_is_valid L a then True else any_address_valid L as)"

definition ds_connection_is_valid :: "ip_locator \<Rightarrow> ds_connection_address \<Rightarrow> bool" where
  "ds_connection_is_valid L c =
     (if \<not> guid_prefix_is_valid (ds_guid_prefix c) then False else any_address_valid L (ds_addresses c))"

text \<open>The comparison of two sets of addresses is lexicographic.\<close>

fun addresses_less :: "address list \<Rightarrow> address list \<Rightarrow> bool" where
  "addresses_less _ [] = False"
| "addresses_less [] (b # bs) = True"
| "addresses_less (a # as) (b # bs) =
     (if address_less a b then True else if address_less b a then False else addresses_less as bs)"

definition ds_connection_less :: "ds_connection_address \<Rightarrow> ds_connection_address \<Rightarrow> bool" where
  "ds_connection_less c other =
     (if ds_guid_prefix c = ds_guid_prefix other then addresses_less (ds_addresses c) (ds_addresses other)
      else ds_guid_prefix c < ds_guid_prefix other)"

definition ds_connection_eq :: "ip_locator \<Rightarrow> ds_connection_address \<Rightarrow> ds_connection_address \<Rightarrow> bool" where
  "ds_connection_eq L c other \<longleftrightarrow>
     ds_guid_prefix c = ds_guid_prefix other \<and> list_all2 (address_eq L) (ds_addresses c) (ds_addresses other)"

definition ds_connection_key :: "ds_connection_address \<Rightarrow> guid_prefix \<times> (string \<times> port \<times> nat \<times> nat) list" where
  "ds_connection_key c = (ds_guid_prefix c, map address_key (ds_addresses c))"

section \<open>TLS\<close>

datatype tls_kind = TLS_inactive | TLS_client | TLS_server | TLS_both

record tls_configuration =
  tls_kind_of :: tls_kind
  verify_peer :: bool
  certificate_authority_file :: string
  sni_server_name :: string
  private_key_file_password :: string
  private_key_file :: string
  certificate_chain_file :: string
  dh_params_file :: string

definition tls_default :: tls_configuration where
  "tls_default =
     \<lparr>tls_kind_of = TLS_inactive, verify_peer = True, certificate_authority_file = '''',
      sni_server_name = '''', private_key_file_password = '''', private_key_file = '''',
      certificate_chain_file = '''', dh_params_file = ''''\<rparr>"

definition tls_is_active :: "tls_configuration \<Rightarrow> bool" where
  "tls_is_active t \<longleftrightarrow> tls_kind_of t \<noteq> TLS_inactive"

definition tls_compatible :: "tls_kind \<Rightarrow> tls_configuration \<Rightarrow> bool" where
  "tls_compatible k t \<longleftrightarrow>
     tls_kind_of t \<noteq> TLS_inactive \<and>
     (k = tls_kind_of t \<or> (tls_kind_of t = TLS_both \<and> k \<noteq> TLS_inactive))"

definition tls_client_valid :: "tls_configuration \<Rightarrow> bool" where
  "tls_client_valid t = (if verify_peer t \<and> certificate_authority_file t = '''' then False else True)"

definition tls_server_valid :: "tls_configuration \<Rightarrow> bool" where
  "tls_server_valid t =
     (if private_key_file t = '''' then False
      else if dh_params_file t = '''' then False
      else if certificate_chain_file t = '''' then False
      else True)"

definition tls_both_valid :: "tls_configuration \<Rightarrow> bool" where
  "tls_both_valid t \<longleftrightarrow> tls_client_valid t \<and> tls_server_valid t"

definition tls_is_valid :: "tls_configuration \<Rightarrow> bool" where
  "tls_is_valid t =
     (case tls_kind_of t of
        TLS_client \<Rightarrow> tls_client_valid t
      | TLS_server \<Rightarrow> tls_server_valid t
      | TLS_both \<Rightarrow> tls_both_valid t
      | TLS_inactive \<Rightarrow> True)"

text \<open>What \<^verbatim>\<open>enable_tls\<close> fills in a TCP transport descriptor.\<close>

datatype tls_option = DEFAULT_WORKAROUNDS | SINGLE_DH_USE | NO_SSLV2

datatype tls_verify_mode = VERIFY_PEER | VERIFY_NONE | VERIFY_FAIL_IF_NO_PEER_CERT

record tls_descriptor =
  apply_security :: bool
  tls_options :: "tls_option list"
  tls_verify_modes :: "tls_verify_mode list"
  desc_verify_file :: string
  desc_server_name :: string
  desc_password :: string
  desc_private_key_file :: string
  desc_cert_chain_file :: string
  desc_tmp_dh_file :: string

definition tls_descriptor_empty :: tls_descriptor where
  "tls_descriptor_empty =
     \<lparr>apply_security = False, tls_options = [], tls_verify_modes = [], desc_verify_file = '''',
      desc_server_name = '''', desc_password = '''', desc_private_key_file = '''',
      desc_cert_chain_file = '''', desc_tmp_dh_file = ''''\<rparr>"

definition enable_tls_client :: "tls_configuration \<Rightarrow> bool \<Rightarrow> tls_descriptor \<Rightarrow> tls_descriptor" where
  "enable_tls_client t only_client d =
     (let d1 = (if only_client \<and> verify_peer t
                then d\<lparr>tls_verify_modes := tls_verify_modes d @ [VERIFY_FAIL_IF_NO_PEER_CERT]\<rparr> else d)
      in d1\<lparr>desc_verify_file := certificate_authority_file t, desc_server_name := sni_server_name t\<rparr>)"

definition enable_tls_server :: "tls_configuration \<Rightarrow> tls_descriptor \<Rightarrow> tls_descriptor" where
  "enable_tls_server t d =
     d\<lparr>desc_password := private_key_file_password t, desc_private_key_file := private_key_file t,
       desc_cert_chain_file := certificate_chain_file t, desc_tmp_dh_file := dh_params_file t\<rparr>"

definition enable_tls :: "tls_configuration \<Rightarrow> bool \<Rightarrow> tls_descriptor \<Rightarrow> tls_descriptor result" where
  "enable_tls t client d =
     (let d1 = d\<lparr>apply_security := True,
                 tls_options := tls_options d @ [DEFAULT_WORKAROUNDS, SINGLE_DH_USE, NO_SSLV2]\<rparr>;
          d2 = d1\<lparr>tls_verify_modes := tls_verify_modes d1 @ [if verify_peer t then VERIFY_PEER else VERIFY_NONE]\<rparr>
      in if client then
           (if \<not> tls_compatible TLS_client t then Inl ConfigurationException
            else Inr (enable_tls_client t True d2))
         else
           (if \<not> tls_compatible TLS_server t then Inl ConfigurationException
            else (let d3 = enable_tls_server t d2
                  in Inr (if tls_compatible TLS_client t then enable_tls_client t False d3 else d3))))"

section \<open>Lemmas\<close>

lemma transport_protocol_value_inj [simp]:
  "transport_protocol_value p = transport_protocol_value q \<longleftrightarrow> p = q"
  by (cases p; cases q) auto

lemma ip_version_value_inj [simp]: "ip_version_value v = ip_version_value u \<longleftrightarrow> v = u"
  by (cases v; cases u) auto

lemma address_less_iff: "address_less a b \<longleftrightarrow> address_key a < address_key b"
  by (auto simp: address_less_def address_key_def less_prod_def)

lemma addresses_less_iff: "addresses_less as bs \<longleftrightarrow> map address_key as < map address_key bs"
  by (induction as bs rule: addresses_less.induct) (auto simp: address_less_iff)

lemma ds_connection_less_iff: "ds_connection_less c d \<longleftrightarrow> ds_connection_key c < ds_connection_key d"
  by (auto simp: ds_connection_less_def ds_connection_key_def addresses_less_iff less_prod_def)

lemma any_address_valid_iff: "any_address_valid L as \<longleftrightarrow> (\<exists>a\<in>set as. address_is_valid L a)"
  by (induction as) auto

lemma get_locator_kind_cases:
  "get_locator_kind a =
     (case (addr_transport_protocol a, addr_ip_version a) of
        (UDP, IPv4) \<Rightarrow> LOCATOR_KIND_UDPv4 | (UDP, IPv6) \<Rightarrow> LOCATOR_KIND_UDPv6
      | (TCP, IPv4) \<Rightarrow> LOCATOR_KIND_TCPv4 | (TCP, IPv6) \<Rightarrow> LOCATOR_KIND_TCPv6)"
  by (auto simp: get_locator_kind_def split: transport_protocol.splits ip_version.splits)

lemma tls_compatible_simps [simp]:
  "tls_compatible TLS_client t \<longleftrightarrow> tls_kind_of t = TLS_client \<or> tls_kind_of t = TLS_both"
  "tls_compatible TLS_server t \<longleftrightarrow> tls_kind_of t = TLS_server \<or> tls_kind_of t = TLS_both"
  by (auto simp: tls_compatible_def)

lemma enable_tls_ok_iff:
  "(\<exists>d'. enable_tls t client d = Inr d') \<longleftrightarrow>
     tls_compatible (if client then TLS_client else TLS_server) t"
  by (auto simp: enable_tls_def Let_def)

text \<open>An address whose name was resolved is valid if the resolver hands out correct IPs.\<close>

definition dns_laws :: "ip_locator \<Rightarrow> bool" where
  "dns_laws L \<longleftrightarrow>
     (\<forall>domain. (\<forall>ip\<in>set (fst (resolveNameDNS L domain)). isIPv4 L ip) \<and>
            (\<forall>ip\<in>set (snd (resolveNameDNS L domain)). isIPv6 L ip))"

lemma address_of_domain_valid:
  assumes "dns_laws L"
  shows "address_is_valid L (address_of_domain g L p ep domain proto) \<longleftrightarrow>
    (fst (resolveNameDNS L domain) \<noteq> [] \<or> snd (resolveNameDNS L domain) \<noteq> []) \<and> (proto = UDP \<longrightarrow> p = ep)"
proof -
  obtain v4 v6 where r: "resolveNameDNS L domain = (v4, v6)" by fastforce
  have laws: "\<forall>ip\<in>set v4. isIPv4 L ip" "\<forall>ip\<in>set v6. isIPv6 L ip"
    using assms r unfolding dns_laws_def by (metis fst_conv, metis snd_conv)
  show ?thesis
    using laws by (cases v4; cases v6)
      (auto simp: address_of_domain_def resolve_dns_def r address_is_valid_def address_is_udp_def Let_def)
qed

section \<open>Properties\<close>

text \<open>
  An address given by a name is valid exactly when the name resolves to some IP, and, for UDP,
  internal and external port agree: the version found by the resolver and the version checked later
  fit together, and the uninitialised version of an unresolved address is never looked at.
\<close>

lemma address_of_domain_valid_iff:
  assumes "dns_laws L"
  shows "address_is_valid L (address_of_domain garbage L p ep domain proto) \<longleftrightarrow>
    (fst (resolveNameDNS L domain) \<noteq> [] \<or> snd (resolveNameDNS L domain) \<noteq> []) \<and> (proto = UDP \<longrightarrow> p = ep)"
  by (rule address_of_domain_valid [OF assms])

definition sample_locator :: ip_locator where
  "sample_locator =
     \<lparr>isIPv4 = (\<lambda>s. s \<in> {''10.0.0.1'', ''10.0.0.2''}), isIPv6 = (\<lambda>s. s = ''::1''),
      resolveNameDNS = (\<lambda>d. if d = ''localhost'' then ([], [''::1'']) else ([], []))\<rparr>"

lemma address_of_domain_valid_iff_witness:
  "address_is_valid sample_locator (address_of_domain IPv4 sample_locator 1 1 ''localhost'' UDP) \<and>
   \<not> address_is_valid sample_locator (address_of_domain IPv4 sample_locator 1 1 ''nowhere'' UDP)"
proof -
  have "dns_laws sample_locator" by (simp add: dns_laws_def sample_locator_def)
  from address_of_domain_valid_iff [OF this, of IPv4 1 1 "''localhost''" UDP]
    address_of_domain_valid_iff [OF this, of IPv4 1 1 "''nowhere''" UDP]
  show ?thesis by (simp add: sample_locator_def)
qed

end
