(* ===== verification/Allowed_Topics.thy ===== *)
theory Allowed_Topics
  imports Topics
begin

text \<open>
  The allow and block lists (\<^verbatim>\<open>dynamic/AllowedTopicList\<close>). The lists are sets of pointers to
  filters, ordered by address: here the filters in iteration order, a pointer being a position of
  the list. Filters are virtual; what the removal of redundant filters relies on is the contract
  between \<^verbatim>\<open>contains\<close> and \<^verbatim>\<open>matches\<close>, stated as a locale and discharged for the wildcard
  filter, the only filter class of the code.
\<close>

section \<open>Operations\<close>

record allowed_topic_list =
  blocklist :: "wildcard_filter list"
  allowlist :: "wildcard_filter list"

text \<open>
  One new filter against the filters kept so far: the loop stops at the first kept filter that
  contains the new one, and every kept filter visited before that which the new one contains is
  erased. Returns whether to add the new filter and what stays.
\<close>

fun repetition_scan :: "('f \<Rightarrow> 'f \<Rightarrow> bool) \<Rightarrow> 'f \<Rightarrow> 'f list \<Rightarrow> bool \<times> 'f list" where
  "repetition_scan contains new_topic [] = (True, [])"
| "repetition_scan contains new_topic (topic_stored # rest) =
     (if contains topic_stored new_topic then (False, topic_stored # rest)
      else let (add_it, kept) = repetition_scan contains new_topic rest
           in if contains new_topic topic_stored then (add_it, kept)
              else (add_it, topic_stored # kept))"

fun without_repetition_loop :: "('f \<Rightarrow> 'f \<Rightarrow> bool) \<Rightarrow> 'f list \<Rightarrow> 'f list \<Rightarrow> 'f list" where
  "without_repetition_loop contains [] non_repeated = non_repeated"
| "without_repetition_loop contains (new_topic # rest) non_repeated =
     (let (add_it, kept) = repetition_scan contains new_topic non_repeated
      in without_repetition_loop contains rest (if add_it then kept @ [new_topic] else kept))"

definition get_topic_list_without_repetition :: "('f \<Rightarrow> 'f \<Rightarrow> bool) \<Rightarrow> 'f list \<Rightarrow> 'f list" where
  "get_topic_list_without_repetition contains fs = without_repetition_loop contains fs []"

definition allowed_topic_list_of ::
    "wildcard_filter list \<Rightarrow> wildcard_filter list \<Rightarrow> allowed_topic_list" where
  "allowed_topic_list_of allow block =
     \<lparr>blocklist = get_topic_list_without_repetition wildcard_contains block,
      allowlist = get_topic_list_without_repetition wildcard_contains allow\<rparr>"

definition allowed_topic_list_clear :: "allowed_topic_list \<Rightarrow> allowed_topic_list" where
  "allowed_topic_list_clear l = l\<lparr>blocklist := [], allowlist := []\<rparr>"

fun any_filter_matches :: "('f \<Rightarrow> 't \<Rightarrow> bool) \<Rightarrow> 'f list \<Rightarrow> 't \<Rightarrow> bool" where
  "any_filter_matches matches [] topic = False"
| "any_filter_matches matches (f # fs) topic =
     (if matches f topic then True else any_filter_matches matches fs topic)"

definition is_topic_allowed ::
    "(string \<Rightarrow> string \<Rightarrow> bool) \<Rightarrow> allowed_topic_list \<Rightarrow> dds_topic \<Rightarrow> bool" where
  "is_topic_allowed match_pattern l topic =
     (let accepted = (if any_filter_matches (wildcard_matches match_pattern) (allowlist l) topic
                      then True else allowlist l = [])
      in if \<not> accepted then False
         else if any_filter_matches (wildcard_matches match_pattern) (blocklist l) topic then False
         else True)"

definition is_service_allowed ::
    "(string \<Rightarrow> string \<Rightarrow> bool) \<Rightarrow> allowed_topic_list \<Rightarrow> rpc_topic \<Rightarrow> bool" where
  "is_service_allowed match_pattern l topic \<longleftrightarrow>
     is_topic_allowed match_pattern l (request_topic topic) \<and>
     is_topic_allowed match_pattern l (reply_topic topic)"

text \<open>
  \<open>set_of_ptr_equal\<close> is \<^verbatim>\<open>utils::are_set_of_ptr_equal\<close>, the library comparison of two sets of
  pointers through the equality of what they point to.
\<close>

definition allowed_topic_list_eq ::
    "(wildcard_filter list \<Rightarrow> wildcard_filter list \<Rightarrow> bool) \<Rightarrow>
     allowed_topic_list \<Rightarrow> allowed_topic_list \<Rightarrow> bool" where
  "allowed_topic_list_eq set_of_ptr_equal l other \<longleftrightarrow>
     set_of_ptr_equal (allowlist l) (allowlist other) \<and>
     set_of_ptr_equal (blocklist l) (blocklist other)"

section \<open>The contract of a topic filter\<close>

locale topic_filter =
  fixes matches :: "'f \<Rightarrow> 't \<Rightarrow> bool"
    and contains :: "'f \<Rightarrow> 'f \<Rightarrow> bool"
  assumes contains_sound: "contains f g \<Longrightarrow> matches g t \<Longrightarrow> matches f t"
begin

lemma any_matches_iff: "any_filter_matches matches fs t \<longleftrightarrow> (\<exists>f\<in>set fs. matches f t)"
  by (induction fs) auto

lemma scan_set: "repetition_scan contains new fs = (add_it, kept) \<Longrightarrow> set kept \<subseteq> set fs"
  by (induction fs arbitrary: add_it kept) (fastforce split: if_splits prod.splits)+

lemma scan_covers:
  assumes "repetition_scan contains new fs = (add_it, kept)"
  shows "(\<exists>f\<in>set kept. matches f t) \<or> (add_it \<and> matches new t)
     \<longleftrightarrow> (\<exists>f\<in>set fs. matches f t) \<or> matches new t"
  using assms
proof (induction fs arbitrary: add_it kept)
  case (Cons f fs)
  show ?case
  proof (cases "contains f new")
    case True
    with Cons.prems contains_sound [of f new t] show ?thesis by auto
  next
    case False
    obtain a k where r: "repetition_scan contains new fs = (a, k)" by fastforce
    note IH = Cons.IH [OF r]
    show ?thesis
    proof (cases "contains new f")
      case True
      with Cons.prems r False have "add_it = a" "kept = k" by auto
      with IH contains_sound [of new f t] True show ?thesis by auto
    next
      case nc: False
      with Cons.prems r False have "add_it = a" "kept = f # k" by auto
      with IH show ?thesis by auto
    qed
  qed
qed auto

lemma loop_covers:
  "any_filter_matches matches (without_repetition_loop contains fs acc) t
     \<longleftrightarrow> any_filter_matches matches acc t \<or> any_filter_matches matches fs t"
proof (induction fs arbitrary: acc)
  case (Cons new fs)
  obtain a k where r: "repetition_scan contains new acc = (a, k)" by fastforce
  from scan_covers [OF r, of t] Cons.IH r show ?case
    by (auto simp: any_matches_iff)
qed auto

lemma without_repetition_same_filter:
  "any_filter_matches matches (get_topic_list_without_repetition contains fs) t
     \<longleftrightarrow> any_filter_matches matches fs t"
  by (simp add: get_topic_list_without_repetition_def loop_covers)

lemma without_repetition_empty_iff:
  "get_topic_list_without_repetition contains fs = [] \<longleftrightarrow> fs = []"
proof -
  have keep: "repetition_scan contains new acc = (a, k) \<Longrightarrow> (if a then k @ [new] else k) \<noteq> []"
    for new acc a k
    by (induction acc arbitrary: a k) (auto split: if_splits prod.splits)
  have "acc \<noteq> [] \<or> fs \<noteq> [] \<Longrightarrow> without_repetition_loop contains fs acc \<noteq> []" for acc
  proof (induction fs arbitrary: acc)
    case (Cons new fs)
    obtain a k where r: "repetition_scan contains new acc = (a, k)" by fastforce
    with keep [OF r] Cons.IH show ?case by auto
  qed simp
  then show ?thesis
    unfolding get_topic_list_without_repetition_def by fastforce
qed

end

interpretation wildcard: topic_filter "wildcard_matches match_pattern" wildcard_contains
  for match_pattern :: "string \<Rightarrow> string \<Rightarrow> bool"
  by unfold_locales (simp add: wildcard_contains_def)

section \<open>Lemmas\<close>

lemma is_topic_allowed_iff:
  "is_topic_allowed mp (allowed_topic_list_of allow block) t \<longleftrightarrow>
     (allow = [] \<or> (\<exists>f\<in>set allow. wildcard_matches mp f t)) \<and>
     (\<forall>f\<in>set block. \<not> wildcard_matches mp f t)"
  unfolding is_topic_allowed_def allowed_topic_list_of_def Let_def allowed_topic_list.simps
    wildcard.without_repetition_same_filter wildcard.without_repetition_empty_iff
  by (auto simp: wildcard.any_matches_iff)

lemma repetition_scan_wildcard: "repetition_scan wildcard_contains f fs = (True, fs)"
  by (induction fs) (simp_all add: wildcard_contains_def)

lemma without_repetition_wildcard_id:
  "get_topic_list_without_repetition wildcard_contains fs = fs"
proof -
  have "without_repetition_loop wildcard_contains fs acc = acc @ fs" for acc
    by (induction fs arbitrary: acc) (simp_all add: repetition_scan_wildcard)
  then show ?thesis by (simp add: get_topic_list_without_repetition_def)
qed

lemma is_topic_allowed_cong_key:
  assumes "dds_topic_key t = dds_topic_key u" and "keyed t = keyed u"
  shows "is_topic_allowed mp l t = is_topic_allowed mp l u"
proof -
  have "wildcard_matches mp f t = wildcard_matches mp f u" for f
    using assms by (auto simp: wildcard_matches_def dds_topic_key_def split: option.splits)
  then show ?thesis by (simp add: is_topic_allowed_def wildcard.any_matches_iff)
qed

section \<open>Properties\<close>

text \<open>
  C22. The filter a router is configured with, repetitions removed, allows a topic exactly when the
  allow list is empty or one of its filters matches, and no filter of the block list matches.
\<close>

theorem is_topic_allowed_spec:
  "is_topic_allowed mp (allowed_topic_list_of allow block) t \<longleftrightarrow>
     (allow = [] \<or> (\<exists>f\<in>set allow. wildcard_matches mp f t)) \<and>
     \<not> (\<exists>f\<in>set block. wildcard_matches mp f t)"
  using is_topic_allowed_iff by blast

end
