(* ===== verification/Configuration.thy ===== *)
theory Configuration
  imports Addresses Allowed_Topics Participants
begin

text \<open>
  The configuration of the router and of its participants (\<^verbatim>\<open>ddsrouter_core/configuration\<close>). The
  configuration classes of the participants form a hierarchy: a constructor per class, with the
  dynamic casts of the code as tests on it. Sets of shared pointers are lists of optional values,
  a null pointer being \<open>None\<close>.
\<close>

section \<open>Participants\<close>

record participant_conf_base =
  conf_id :: participant_id
  conf_kind :: participant_kind
  conf_is_repeater :: bool

datatype participant_configuration =
    PC_participant participant_conf_base
  | PC_echo participant_conf_base echo_configuration
  | PC_simple participant_conf_base domain_id
  | PC_discovery_server participant_conf_base domain_id guid_prefix "address list"
      "ds_connection_address list" tls_configuration
  | PC_initial_peers participant_conf_base domain_id "address list" "address list" tls_configuration

fun pc_base :: "participant_configuration \<Rightarrow> participant_conf_base" where
  "pc_base (PC_participant b) = b"
| "pc_base (PC_echo b e) = b"
| "pc_base (PC_simple b d) = b"
| "pc_base (PC_discovery_server b d g ls cs t) = b"
| "pc_base (PC_initial_peers b d ls cs t) = b"

abbreviation pc_id :: "participant_configuration \<Rightarrow> participant_id" where
  "pc_id c \<equiv> conf_id (pc_base c)"

definition participant_conf_valid :: "participant_conf_base \<Rightarrow> bool" where
  "participant_conf_valid b =
     (if \<not> participant_id_is_valid (conf_id b) then False
      else if conf_kind b = PK_invalid then False
      else True)"

definition simple_conf_valid :: "participant_conf_base \<Rightarrow> domain_id \<Rightarrow> bool" where
  "simple_conf_valid b d =
     (if \<not> participant_conf_valid b then False
      else if \<not> domain_id_is_valid d then False
      else True)"

fun all_addresses_valid :: "('a \<Rightarrow> bool) \<Rightarrow> 'a list \<Rightarrow> bool" where
  "all_addresses_valid valid [] = True"
| "all_addresses_valid valid (a # as) = (if \<not> valid a then False else all_addresses_valid valid as)"

definition tls_fits :: "tls_configuration \<Rightarrow> 'a list \<Rightarrow> 'b list \<Rightarrow> bool" where
  "tls_fits t listening connection =
     (if tls_is_active t then
        if listening \<noteq> [] \<and> \<not> tls_compatible TLS_server t then False
        else if connection \<noteq> [] \<and> \<not> tls_compatible TLS_client t then False
        else True
      else True)"

definition discovery_server_conf_valid ::
    "ip_locator \<Rightarrow> participant_conf_base \<Rightarrow> domain_id \<Rightarrow> guid_prefix \<Rightarrow> address list \<Rightarrow>
     ds_connection_address list \<Rightarrow> tls_configuration \<Rightarrow> bool" where
  "discovery_server_conf_valid L b d prefix listening connection tls =
     (if \<not> simple_conf_valid b d then False
      else if \<not> guid_prefix_is_valid prefix then False
      else if \<not> all_addresses_valid (address_is_valid L) listening then False
      else if \<not> all_addresses_valid (ds_connection_is_valid L) connection then False
      else if listening = [] \<and> connection = [] then False
      else tls_fits tls listening connection)"

definition initial_peers_conf_valid ::
    "ip_locator \<Rightarrow> participant_conf_base \<Rightarrow> domain_id \<Rightarrow> address list \<Rightarrow> address list \<Rightarrow>
     tls_configuration \<Rightarrow> bool" where
  "initial_peers_conf_valid L b d listening connection tls =
     (if \<not> simple_conf_valid b d then False
      else if \<not> all_addresses_valid (address_is_valid L) listening then False
      else if \<not> all_addresses_valid (address_is_valid L) connection then False
      else if listening = [] \<and> connection = [] then False
      else tls_fits tls listening connection)"

fun participant_configuration_valid :: "ip_locator \<Rightarrow> participant_configuration \<Rightarrow> bool" where
  "participant_configuration_valid L (PC_participant b) = participant_conf_valid b"
| "participant_configuration_valid L (PC_echo b e) = participant_conf_valid b"
| "participant_configuration_valid L (PC_simple b d) = simple_conf_valid b d"
| "participant_configuration_valid L (PC_discovery_server b d g ls cs t) =
     discovery_server_conf_valid L b d g ls cs t"
| "participant_configuration_valid L (PC_initial_peers b d ls cs t) =
     initial_peers_conf_valid L b d ls cs t"

text \<open>The dynamic casts: discovery server and initial peers configurations are simple ones too.\<close>

fun is_simple_configuration :: "participant_configuration \<Rightarrow> bool" where
  "is_simple_configuration (PC_simple b d) = True"
| "is_simple_configuration (PC_discovery_server b d g ls cs t) = True"
| "is_simple_configuration (PC_initial_peers b d ls cs t) = True"
| "is_simple_configuration _ = False"

fun is_discovery_server_configuration :: "participant_configuration \<Rightarrow> bool" where
  "is_discovery_server_configuration (PC_discovery_server b d g ls cs t) = True"
| "is_discovery_server_configuration _ = False"

fun is_initial_peers_configuration :: "participant_configuration \<Rightarrow> bool" where
  "is_initial_peers_configuration (PC_initial_peers b d ls cs t) = True"
| "is_initial_peers_configuration _ = False"

fun is_echo_configuration :: "participant_configuration \<Rightarrow> bool" where
  "is_echo_configuration (PC_echo b e) = True"
| "is_echo_configuration _ = False"

definition check_correct_configuration_object :: "participant_configuration \<Rightarrow> bool" where
  "check_correct_configuration_object c =
     (case conf_kind (pc_base c) of
        PK_simple_rtps \<Rightarrow> is_simple_configuration c
      | PK_local_discovery_server \<Rightarrow> is_discovery_server_configuration c
      | PK_wan_discovery_server \<Rightarrow> is_discovery_server_configuration c
      | PK_wan_initial_peers \<Rightarrow> is_initial_peers_configuration c
      | PK_echo \<Rightarrow> is_echo_configuration c
      | _ \<Rightarrow> True)"

section \<open>The router\<close>

record specs_configuration =
  number_of_threads :: "32 word"
  max_history_depth :: "32 word"

definition specs_default :: specs_configuration where
  "specs_default = \<lparr>number_of_threads = 12, max_history_depth = 5000\<rparr>"

definition specs_is_valid :: "specs_configuration \<Rightarrow> bool" where
  "specs_is_valid s = (if number_of_threads s < 1 then False else True)"

record reload_configuration =
  cfg_allowlist :: "wildcard_filter option list"
  cfg_blocklist :: "wildcard_filter option list"
  cfg_builtin_topics :: "dds_topic option list"

record router_configuration = reload_configuration +
  participants_configurations :: "participant_configuration option list"
  advanced_options :: specs_configuration

fun no_null :: "'a option list \<Rightarrow> bool" where
  "no_null [] = True"
| "no_null (x # xs) = (case x of None \<Rightarrow> False | Some _ \<Rightarrow> no_null xs)"

fun builtin_topics_valid :: "dds_topic option list \<Rightarrow> bool" where
  "builtin_topics_valid [] = True"
| "builtin_topics_valid (x # xs) =
     (case x of
        None \<Rightarrow> False
      | Some topic \<Rightarrow> if \<not> dds_topic_is_valid topic then False else builtin_topics_valid xs)"

definition reload_configuration_valid :: "('x) reload_configuration_scheme \<Rightarrow> bool" where
  "reload_configuration_valid c =
     (if \<not> no_null (cfg_allowlist c) then False
      else if \<not> no_null (cfg_blocklist c) then False
      else if \<not> builtin_topics_valid (cfg_builtin_topics c) then False
      else True)"

text \<open>The loop over the participants: \<open>None\<close> where it returns, the ids collected otherwise.\<close>

fun check_participants ::
    "ip_locator \<Rightarrow> participant_configuration option list \<Rightarrow> participant_id list \<Rightarrow> participant_id list option" where
  "check_participants L [] ids = Some ids"
| "check_participants L (x # xs) ids =
     (case x of
        None \<Rightarrow> None
      | Some c \<Rightarrow>
          if \<not> participant_configuration_valid L c then None
          else if \<not> check_correct_configuration_object c then None
          else check_participants L xs (sset_insert id (pc_id c) ids))"

definition router_configuration_valid :: "ip_locator \<Rightarrow> router_configuration \<Rightarrow> bool" where
  "router_configuration_valid L c =
     (if \<not> reload_configuration_valid c then False
      else if length (participants_configurations c) < 1 then False
      else case check_participants L (participants_configurations c) [] of
          None \<Rightarrow> False
        | Some ids \<Rightarrow> if length ids \<noteq> length (participants_configurations c) then False else True)"

definition configuration_reload ::
    "('x) reload_configuration_scheme \<Rightarrow> router_configuration \<Rightarrow> router_configuration" where
  "configuration_reload new c =
     c\<lparr>cfg_allowlist := cfg_allowlist new, cfg_blocklist := cfg_blocklist new,
       cfg_builtin_topics := cfg_builtin_topics new\<rparr>"

text \<open>What the sets of pointers point to; only used on lists without null pointers.\<close>

definition pointees :: "'a option list \<Rightarrow> 'a list" where
  "pointees xs = List.map_filter (\<lambda>x. x) xs"

section \<open>Lemmas\<close>

lemma all_addresses_valid_iff: "all_addresses_valid v as \<longleftrightarrow> (\<forall>a\<in>set as. v a)"
  by (induction as) auto

lemma no_null_iff: "no_null xs \<longleftrightarrow> None \<notin> set xs"
  by (induction xs) (auto split: option.splits)

lemma pointees_simps [simp]:
  "pointees [] = []" "pointees (Some x # xs) = x # pointees xs" "pointees (None # xs) = pointees xs"
  by (simp_all add: pointees_def)

lemma builtin_topics_valid_iff:
  "builtin_topics_valid xs \<longleftrightarrow> no_null xs \<and> (\<forall>t\<in>set (pointees xs). dds_topic_is_valid t)"
  by (induction xs) (auto split: option.splits)

lemma length_sset_insert:
  "sset_ok key s \<Longrightarrow>
   length (sset_insert key x s) = (if key x \<in> key ` set s then length s else Suc (length s))"
  by (induction s) (force simp: sset_ok_def)+

lemma check_participants_SomeD:
  assumes "check_participants L xs ids = Some ids'" and "sset_ok id ids"
  shows "no_null xs \<and> (\<forall>c\<in>set (pointees xs). participant_configuration_valid L c \<and>
      check_correct_configuration_object c) \<and>
    set ids' = set ids \<union> pc_id ` set (pointees xs) \<and> sset_ok id ids' \<and>
    length ids' \<le> length ids + length xs \<and>
    (length ids' = length ids + length xs \<longleftrightarrow>
       distinct (map pc_id (pointees xs)) \<and> set ids \<inter> pc_id ` set (pointees xs) = {})"
  using assms
proof (induction xs arbitrary: ids)
  case (Cons x xs)
  then obtain c where x: "x = Some c" and ok: "participant_configuration_valid L c"
      "check_correct_configuration_object c"
    and rest: "check_participants L xs (sset_insert id (pc_id c) ids) = Some ids'"
    by (auto split: option.splits if_splits)
  have s: "set (sset_insert id (pc_id c) ids) = insert (pc_id c) (set ids)"
    using set_sset_insert_keys [of id "pc_id c" ids] by simp
  have len: "length (sset_insert id (pc_id c) ids) =
      (if pc_id c \<in> set ids then length ids else Suc (length ids))"
    using length_sset_insert [OF Cons.prems(2), of "pc_id c"] by simp
  note IH = Cons.IH [OF rest sset_ok_insert [OF Cons.prems(2)]]
  show ?case
  proof (cases "pc_id c \<in> set ids")
    case True
    with IH ok s len x show ?thesis by auto
  next
    case False
    with IH ok s len x show ?thesis by auto
  qed
qed simp

lemma router_configuration_valid_iff:
  "router_configuration_valid L c \<longleftrightarrow>
     None \<notin> set (cfg_allowlist c) \<and> None \<notin> set (cfg_blocklist c) \<and>
     None \<notin> set (cfg_builtin_topics c) \<and>
     (\<forall>t\<in>set (pointees (cfg_builtin_topics c)). dds_topic_is_valid t) \<and>
     participants_configurations c \<noteq> [] \<and> None \<notin> set (participants_configurations c) \<and>
     (\<forall>p\<in>set (pointees (participants_configurations c)).
        participant_configuration_valid L p \<and> check_correct_configuration_object p) \<and>
     distinct (map pc_id (pointees (participants_configurations c)))"
proof -
  let ?ps = "participants_configurations c"
  have found: "\<exists>ids. check_participants L ?ps [] = Some ids"
    if "None \<notin> set ?ps" "\<forall>p\<in>set (pointees ?ps). participant_configuration_valid L p \<and>
      check_correct_configuration_object p"
    using that
  proof -
    have "\<exists>ids. check_participants L xs acc = Some ids"
      if "None \<notin> set xs" "\<forall>p\<in>set (pointees xs). participant_configuration_valid L p \<and>
        check_correct_configuration_object p" for xs acc
      using that
    proof (induction xs arbitrary: acc)
      case (Cons x xs)
      then obtain q where "x = Some q" by (cases x) auto
      with Cons show ?case by auto
    qed simp
    with that show ?thesis by blast
  qed
  have "sset_ok id ([] :: participant_id list)" by (simp add: sset_ok_def)
  from check_participants_SomeD [of L ?ps "[]", OF _ this] found show ?thesis
    by (auto simp: router_configuration_valid_def reload_configuration_valid_def no_null_iff
        builtin_topics_valid_iff Suc_le_eq split: option.splits)
qed

section \<open>Properties\<close>

text \<open>
  C32. The checks of a configuration, with their early returns and the count of the ids in a set,
  accept it exactly when no pointer is null, the builtin topics are valid, there is at least one
  participant, every participant is valid and of the class its kind asks for, and no two participants
  share an id. The advanced options play no part.
\<close>

theorem router_configuration_valid_exact:
  "router_configuration_valid L c \<longleftrightarrow>
     None \<notin> set (cfg_allowlist c) \<and> None \<notin> set (cfg_blocklist c) \<and>
     None \<notin> set (cfg_builtin_topics c) \<and>
     list_all dds_topic_is_valid (pointees (cfg_builtin_topics c)) \<and>
     participants_configurations c \<noteq> [] \<and> None \<notin> set (participants_configurations c) \<and>
     list_all (\<lambda>p. participant_configuration_valid L p \<and> check_correct_configuration_object p)
       (pointees (participants_configurations c)) \<and>
     distinct (map pc_id (pointees (participants_configurations c)))"
  by (simp add: router_configuration_valid_iff list_all_iff)

end
