(* ===== verification/Rtps_Attributes.thy ===== *)
theory Rtps_Attributes
  imports Configuration
begin

text \<open>
  The attributes with which the discovery server and the initial peers participants create their
  RTPS participant (\<^verbatim>\<open>get_participant_attributes_\<close> of both classes): locators, transports and
  remote servers from the configured addresses. The result is an optional sum: \<open>None\<close> when the
  function does not return, \<open>Inl\<close> when it throws.
\<close>

section \<open>Data\<close>

record locator =
  loc_kind :: locator_kind
  loc_ip :: string
  loc_wan :: string
  loc_physical_port :: port
  loc_logical_port :: port

definition locator_default :: locator where
  "locator_default =
     \<lparr>loc_kind = LOCATOR_KIND_UDPv4, loc_ip = '''', loc_wan = '''', loc_physical_port = 0,
      loc_logical_port = 0\<rparr>"

datatype transport_descriptor =
    TCPv4TransportDescriptor string "port list" tls_descriptor
  | TCPv6TransportDescriptor "port list" tls_descriptor
  | UDPv4TransportDescriptor
  | UDPv6TransportDescriptor

datatype discovery_protocol = DP_SIMPLE | DP_SERVER | DP_SUPER_CLIENT

record rtps_attributes =
  at_name :: string
  at_use_builtin_transports :: bool
  at_transports :: "transport_descriptor list"
  at_metatraffic :: "locator list"
  at_default_unicast :: "locator list"
  at_initial_peers :: "locator list"
  at_discovery_servers :: "(guid_prefix \<times> locator) list"
  at_discovery_protocol :: discovery_protocol
  at_prefix :: guid_prefix

record transport_flags =
  has_listening_addresses :: bool
  has_connection_addresses :: bool
  has_listening_tcp_ipv4 :: bool
  has_listening_tcp_ipv6 :: bool
  has_connection_tcp_ipv4 :: bool
  has_connection_tcp_ipv6 :: bool
  has_connection_udp_ipv4 :: bool
  has_connection_udp_ipv6 :: bool
  has_udp_ipv4 :: bool
  has_udp_ipv6 :: bool

definition no_flags :: transport_flags where
  "no_flags =
     \<lparr>has_listening_addresses = False, has_connection_addresses = False, has_listening_tcp_ipv4 = False,
      has_listening_tcp_ipv6 = False, has_connection_tcp_ipv4 = False, has_connection_tcp_ipv6 = False,
      has_connection_udp_ipv4 = False, has_connection_udp_ipv6 = False, has_udp_ipv4 = False,
      has_udp_ipv6 = False\<rparr>"

type_synonym 'a run = "'a result option"

definition obind :: "'a run \<Rightarrow> ('a \<Rightarrow> 'b run) \<Rightarrow> 'b run" where
  "obind m f = (case m of None \<Rightarrow> None | Some (Inl e) \<Rightarrow> Some (Inl e) | Some (Inr x) \<Rightarrow> f x)"

type_synonym attr_state = "transport_flags \<times> rtps_attributes"

definition common_participant_attributes :: "participant_conf_base \<Rightarrow> rtps_attributes" where
  "common_participant_attributes c =
     \<lparr>at_name = id_name (conf_id c), at_use_builtin_transports = True, at_transports = [],
      at_metatraffic = [], at_default_unicast = [], at_initial_peers = [], at_discovery_servers = [],
      at_discovery_protocol = DP_SIMPLE, at_prefix = guid_prefix_unknown\<rparr>"

section \<open>Listening addresses\<close>

fun wan_matches :: "string \<Rightarrow> transport_descriptor \<Rightarrow> bool" where
  "wan_matches ip (TCPv4TransportDescriptor wan ports tls) \<longleftrightarrow> ip = wan"
| "wan_matches ip _ \<longleftrightarrow> False"

text \<open>
  The search for a descriptor with the same WAN address. The iterator is compared with the end of
  the vector in the loop condition and never advanced in the body.
\<close>

partial_function (option) search_wan :: "string \<Rightarrow> transport_descriptor list \<Rightarrow> nat \<Rightarrow> nat option option" where
  "search_wan ip transports it =
     (if it \<noteq> length transports then
        if wan_matches ip (transports ! it) then Some (Some it)
        else search_wan ip transports it
      else Some None)"

fun add_listener_port :: "port \<Rightarrow> transport_descriptor \<Rightarrow> transport_descriptor" where
  "add_listener_port p (TCPv4TransportDescriptor wan ports tls) = TCPv4TransportDescriptor wan (ports @ [p]) tls"
| "add_listener_port p (TCPv6TransportDescriptor ports tls) = TCPv6TransportDescriptor (ports @ [p]) tls"
| "add_listener_port p d = d"

definition maybe_tls :: "tls_configuration \<Rightarrow> bool \<Rightarrow> tls_descriptor result" where
  "maybe_tls tls client =
     (if tls_is_active tls then enable_tls tls client tls_descriptor_empty else Inr tls_descriptor_empty)"

definition remove_at :: "nat \<Rightarrow> 'a list \<Rightarrow> 'a list" where
  "remove_at i xs = take i xs @ drop (Suc i) xs"

definition listening_tcp_transport ::
    "tls_configuration \<Rightarrow> address \<Rightarrow> attr_state \<Rightarrow> attr_state run" where
  "listening_tcp_transport tls a s =
     (let (f, p) = s in
      if address_is_ipv4 a then
        obind (map_option Inr (search_wan (addr_ip a) (at_transports p) 0)) (\<lambda>found.
          case found of
            Some i \<Rightarrow>
              Some (Inr (f\<lparr>has_listening_tcp_ipv4 := True\<rparr>,
                p\<lparr>at_transports := remove_at i (at_transports p) @
                    [add_listener_port (addr_port a) (at_transports p ! i)]\<rparr>))
          | None \<Rightarrow>
              obind (Some (maybe_tls tls False)) (\<lambda>d.
                Some (Inr (f\<lparr>has_listening_tcp_ipv4 := True\<rparr>,
                  p\<lparr>at_transports := at_transports p @
                      [TCPv4TransportDescriptor (addr_ip a) [addr_port a] d]\<rparr>))))
      else
        obind (Some (maybe_tls tls False)) (\<lambda>d.
          Some (Inr (f\<lparr>has_listening_tcp_ipv6 := True\<rparr>,
            p\<lparr>at_transports := at_transports p @ [TCPv6TransportDescriptor [addr_port a] d]\<rparr>))))"

definition listening_locator :: "address \<Rightarrow> locator" where
  "listening_locator a =
     (let l = locator_default\<lparr>loc_kind := get_locator_kind a\<rparr>;
          l1 = (if address_is_ipv4 a then l\<lparr>loc_ip := addr_ip a, loc_wan := addr_ip a\<rparr>
                else l\<lparr>loc_ip := addr_ip a\<rparr>);
          l2 = l1\<lparr>loc_physical_port := addr_port a\<rparr>
      in if address_is_tcp a
         then l2\<lparr>loc_physical_port := addr_external_port a, loc_logical_port := addr_external_port a\<rparr>
         else l2)"

definition listening_address ::
    "ip_locator \<Rightarrow> tls_configuration \<Rightarrow> address \<Rightarrow> attr_state \<Rightarrow> attr_state run" where
  "listening_address L tls a s =
     (if \<not> address_is_valid L a then Some (Inr s)
      else
        let (f, p) = s;
            f1 = f\<lparr>has_listening_addresses := True\<rparr>
        in obind (if address_is_tcp a then listening_tcp_transport tls a (f1, p)
                  else Some (Inr (f1\<lparr>has_udp_ipv4 := address_is_ipv4 a,
                                     has_udp_ipv6 := \<not> address_is_ipv4 a\<rparr>, p))) (\<lambda>(f2, p2).
             Some (Inr (f2,
               p2\<lparr>at_metatraffic := at_metatraffic p2 @ [listening_locator a],
                  at_default_unicast := at_default_unicast p2 @ [listening_locator a]\<rparr>))))"

fun listening_loop ::
    "ip_locator \<Rightarrow> tls_configuration \<Rightarrow> address list \<Rightarrow> attr_state \<Rightarrow> attr_state run" where
  "listening_loop L tls [] s = Some (Inr s)"
| "listening_loop L tls (a # as) s = obind (listening_address L tls a s) (listening_loop L tls as)"

section \<open>The discovery server participant\<close>

definition ds_listening ::
    "ip_locator \<Rightarrow> tls_configuration \<Rightarrow> address list \<Rightarrow> attr_state \<Rightarrow> attr_state run" where
  "ds_listening L tls as s = listening_loop L tls as s"

definition connection_flags :: "address \<Rightarrow> transport_flags \<Rightarrow> transport_flags" where
  "connection_flags a f =
     (if address_is_tcp a then
        f\<lparr>has_connection_tcp_ipv4 := address_is_ipv4 a, has_connection_tcp_ipv6 := \<not> address_is_ipv4 a\<rparr>
      else
        f\<lparr>has_udp_ipv4 := address_is_ipv4 a, has_udp_ipv6 := \<not> address_is_ipv4 a\<rparr>)"

definition ds_connection_locator :: "address \<Rightarrow> locator" where
  "ds_connection_locator a =
     locator_default\<lparr>loc_kind := get_locator_kind a, loc_ip := addr_ip a,
       loc_physical_port := addr_port a, loc_logical_port := addr_port a\<rparr>"

definition ds_connection_address_step ::
    "ip_locator \<Rightarrow> guid_prefix \<Rightarrow> address \<Rightarrow> attr_state \<Rightarrow> attr_state" where
  "ds_connection_address_step L server_prefix a s =
     (if \<not> address_is_valid L a then s
      else (connection_flags a ((fst s)\<lparr>has_connection_addresses := True\<rparr>),
            (snd s)\<lparr>at_discovery_servers :=
               at_discovery_servers (snd s) @ [(server_prefix, ds_connection_locator a)]\<rparr>))"

definition ds_connection_step ::
    "ip_locator \<Rightarrow> ds_connection_address \<Rightarrow> attr_state \<Rightarrow> attr_state" where
  "ds_connection_step L c s =
     (if \<not> ds_connection_is_valid L c then s
      else fold (ds_connection_address_step L (ds_guid_prefix c)) (ds_addresses c) s)"

definition ds_connections ::
    "ip_locator \<Rightarrow> ds_connection_address list \<Rightarrow> attr_state \<Rightarrow> attr_state" where
  "ds_connections L cs s = fold (ds_connection_step L) cs s"

text \<open>The transports that the listening addresses have not brought.\<close>

definition connection_transports ::
    "tls_configuration \<Rightarrow> attr_state \<Rightarrow> attr_state result" where
  "connection_transports tls s =
     (let (f, p) = s in
      rbind (if has_connection_tcp_ipv4 f \<and> \<not> has_listening_tcp_ipv4 f
             then rbind (maybe_tls tls True) (\<lambda>d.
                    Inr (p\<lparr>at_transports := at_transports p @ [TCPv4TransportDescriptor '''' [] d]\<rparr>))
             else Inr p) (\<lambda>p1.
      rbind (if has_connection_tcp_ipv6 f \<and> \<not> has_listening_tcp_ipv6 f
             then rbind (maybe_tls tls True) (\<lambda>d.
                    Inr (p1\<lparr>at_transports := at_transports p1 @ [TCPv6TransportDescriptor [] d]\<rparr>))
             else Inr p1) (\<lambda>p2.
      let p3 = (if has_udp_ipv4 f then p2\<lparr>at_transports := at_transports p2 @ [UDPv4TransportDescriptor]\<rparr> else p2);
          p4 = (if has_udp_ipv6 f then p3\<lparr>at_transports := at_transports p3 @ [UDPv6TransportDescriptor]\<rparr> else p3)
      in Inr (f, p4))))"

definition ds_finish ::
    "guid_prefix \<Rightarrow> tls_configuration \<Rightarrow> attr_state \<Rightarrow> rtps_attributes result" where
  "ds_finish prefix tls s =
     (let (f, p) = s;
          p1 = p\<lparr>at_discovery_protocol := (if has_listening_addresses f then DP_SERVER else DP_SUPER_CLIENT)\<rparr>;
          p2 = p1\<lparr>at_prefix := prefix\<rparr>
      in rbind (connection_transports tls (f, p2)) (\<lambda>(f, p). Inr p))"

definition ds_participant_attributes ::
    "ip_locator \<Rightarrow> participant_conf_base \<Rightarrow> guid_prefix \<Rightarrow> address list \<Rightarrow> ds_connection_address list \<Rightarrow>
     tls_configuration \<Rightarrow> rtps_attributes run" where
  "ds_participant_attributes L b prefix listening connection tls =
     obind (ds_listening L tls listening
              (no_flags, (common_participant_attributes b)\<lparr>at_use_builtin_transports := False\<rparr>)) (\<lambda>s.
       Some (ds_finish prefix tls (ds_connections L connection s)))"

section \<open>The initial peers participant\<close>

definition ip_listening ::
    "ip_locator \<Rightarrow> tls_configuration \<Rightarrow> address list \<Rightarrow> attr_state \<Rightarrow> attr_state run" where
  "ip_listening L tls as s = listening_loop L tls as s"

definition ip_connection_locator :: "address \<Rightarrow> locator" where
  "ip_connection_locator a =
     (let l = locator_default\<lparr>loc_kind := get_locator_kind a, loc_ip := addr_ip a,
                              loc_physical_port := addr_port a\<rparr>
      in if address_is_tcp a then l\<lparr>loc_logical_port := addr_port a\<rparr> else l)"

definition ip_connection_step :: "ip_locator \<Rightarrow> address \<Rightarrow> attr_state \<Rightarrow> attr_state" where
  "ip_connection_step L a s =
     (if \<not> address_is_valid L a then s
      else
        let f = connection_flags a (fst s);
            f1 = (if address_is_tcp a then f
                  else f\<lparr>has_connection_udp_ipv4 := address_is_ipv4 a,
                         has_connection_udp_ipv6 := \<not> address_is_ipv4 a\<rparr>)
        in (f1, (snd s)\<lparr>at_initial_peers := at_initial_peers (snd s) @ [ip_connection_locator a]\<rparr>))"

definition ip_connections :: "ip_locator \<Rightarrow> address list \<Rightarrow> attr_state \<Rightarrow> attr_state" where
  "ip_connections L as s = fold (ip_connection_step L) as s"

definition ip_finish :: "tls_configuration \<Rightarrow> attr_state \<Rightarrow> rtps_attributes result" where
  "ip_finish tls s =
     rbind (connection_transports tls s) (\<lambda>(f, p).
       Inr (if \<not> has_listening_addresses f then
              let p1 = (if has_connection_udp_ipv4 f then
                          p\<lparr>at_metatraffic := at_metatraffic p @ [locator_default\<lparr>loc_kind := LOCATOR_KIND_UDPv4\<rparr>]\<rparr>
                        else p)
              in if has_connection_udp_ipv6 f then
                   p1\<lparr>at_metatraffic := at_metatraffic p1 @ [locator_default\<lparr>loc_kind := LOCATOR_KIND_UDPv6\<rparr>]\<rparr>
                 else p1
            else p))"

definition ip_participant_attributes ::
    "ip_locator \<Rightarrow> participant_conf_base \<Rightarrow> address list \<Rightarrow> address list \<Rightarrow> tls_configuration \<Rightarrow>
     rtps_attributes run" where
  "ip_participant_attributes L b listening connection tls =
     obind (ip_listening L tls listening
              (no_flags, (common_participant_attributes b)\<lparr>at_use_builtin_transports := False\<rparr>)) (\<lambda>s.
       Some (ip_finish tls (ip_connections L connection s)))"

section \<open>Lemmas\<close>

lemma obind_simps [simp]:
  "obind None f = None" "obind (Some (Inl e)) f = Some (Inl e)" "obind (Some (Inr x)) f = f x"
  by (simp_all add: obind_def)

text \<open>
  The search decides on the first transport only: it finds it, or the list is empty, or the loop
  never ends.
\<close>

lemma search_wan_simps:
  "search_wan ip [] 0 = Some None"
  "wan_matches ip d \<Longrightarrow> search_wan ip (d # ds) 0 = Some (Some 0)"
  by (simp_all add: search_wan.simps)

lemma search_wan_SomeD:
  assumes "search_wan ip transports it = Some r"
  shows "it = length transports \<or> wan_matches ip (transports ! it)"
  by (rule search_wan.raw_induct
      [where P = "\<lambda>ip transports it r. it = length transports \<or> wan_matches ip (transports ! it)",
        OF _ assms]) (auto split: if_splits)

lemma search_wan_diverges:
  assumes "\<not> wan_matches ip d"
  shows "search_wan ip (d # ds) 0 = None"
  using search_wan_SomeD [of ip "d # ds" 0] assms by (cases "search_wan ip (d # ds) 0") auto

lemma listening_second_wan_diverges:
  assumes "address_is_valid L a" "address_is_tcp a" "address_is_ipv4 a"
    and "address_is_valid L b" "address_is_tcp b" "address_is_ipv4 b"
    and "addr_ip a \<noteq> addr_ip b" and "at_transports p = []"
    and "\<not> tls_is_active tls"
  shows "listening_loop L tls (a # b # as) (f, p) = None"
proof -
  have "\<not> wan_matches (addr_ip b) (TCPv4TransportDescriptor (addr_ip a) ports d)" for ports d
    using assms(7) by simp
  with assms show ?thesis
    by (simp add: listening_address_def listening_tcp_transport_def search_wan_simps maybe_tls_def
        search_wan_diverges)
qed

text \<open>
  The only exceptions are those of \<^verbatim>\<open>enable_tls\<close>: none is thrown when the TLS configuration can play
  the roles the addresses call for.
\<close>

lemma maybe_tls_ok:
  "tls_is_active tls \<longrightarrow> tls_compatible (if client then TLS_client else TLS_server) tls \<Longrightarrow>
   \<exists>d. maybe_tls tls client = Inr d"
  unfolding maybe_tls_def using enable_tls_ok_iff [of tls client tls_descriptor_empty] by auto

lemma listening_address_ok:
  assumes "tls_is_active tls \<longrightarrow> tls_compatible TLS_server tls"
  shows "listening_address L tls a s = None \<or>
    (\<exists>s'. listening_address L tls a s = Some (Inr s') \<and>
      has_connection_tcp_ipv4 (fst s') = has_connection_tcp_ipv4 (fst s) \<and>
      has_connection_tcp_ipv6 (fst s') = has_connection_tcp_ipv6 (fst s))"
proof -
  obtain d where d: "maybe_tls tls False = Inr d" using maybe_tls_ok [of tls False] assms by auto
  obtain f p where s: "s = (f, p)" by fastforce
  show ?thesis
    using d unfolding s
    by (cases "search_wan (addr_ip a) (at_transports p) 0")
      (auto simp: listening_address_def listening_tcp_transport_def Let_def split: option.splits)
qed

lemma listening_loop_ok:
  assumes "as \<noteq> [] \<longrightarrow> tls_is_active tls \<longrightarrow> tls_compatible TLS_server tls"
  shows "listening_loop L tls as s = None \<or>
    (\<exists>s'. listening_loop L tls as s = Some (Inr s') \<and>
      has_connection_tcp_ipv4 (fst s') = has_connection_tcp_ipv4 (fst s) \<and>
      has_connection_tcp_ipv6 (fst s') = has_connection_tcp_ipv6 (fst s))"
  using assms
proof (induction as arbitrary: s)
  case (Cons a as)
  then have compat: "tls_is_active tls \<longrightarrow> tls_compatible TLS_server tls" by simp
  from listening_address_ok [OF compat, of L a s] show ?case
  proof
    assume "\<exists>s'. listening_address L tls a s = Some (Inr s') \<and>
      has_connection_tcp_ipv4 (fst s') = has_connection_tcp_ipv4 (fst s) \<and>
      has_connection_tcp_ipv6 (fst s') = has_connection_tcp_ipv6 (fst s)"
    then obtain s' where s': "listening_address L tls a s = Some (Inr s')"
      "has_connection_tcp_ipv4 (fst s') = has_connection_tcp_ipv4 (fst s)"
      "has_connection_tcp_ipv6 (fst s') = has_connection_tcp_ipv6 (fst s)" by blast
    with Cons.IH [of s'] compat show ?thesis by auto
  qed simp
qed simp

lemma connection_transports_ok:
  assumes "has_connection_tcp_ipv4 (fst s) \<or> has_connection_tcp_ipv6 (fst s) \<longrightarrow>
      tls_is_active tls \<longrightarrow> tls_compatible TLS_client tls"
  shows "\<exists>s'. connection_transports tls s = Inr s'"
proof (cases "has_connection_tcp_ipv4 (fst s) \<or> has_connection_tcp_ipv6 (fst s)")
  case True
  then obtain d where "maybe_tls tls True = Inr d" using maybe_tls_ok [of tls True] assms by auto
  then show ?thesis by (auto simp: connection_transports_def Let_def case_prod_unfold)
next
  case False
  then show ?thesis by (auto simp: connection_transports_def Let_def case_prod_unfold)
qed

lemma finish_ok:
  assumes "has_connection_tcp_ipv4 (fst s) \<or> has_connection_tcp_ipv6 (fst s) \<longrightarrow>
      tls_is_active tls \<longrightarrow> tls_compatible TLS_client tls"
  shows "\<exists>p. ds_finish g tls s = Inr p" and "\<exists>p. ip_finish tls s = Inr p"
proof -
  obtain f p where s: "s = (f, p)" by fastforce
  have ct: "\<exists>f' p'. connection_transports tls (f, q) = Inr (f', p')" for q
    using connection_transports_ok [of "(f, q)" tls] assms s by auto
  let ?q = "p\<lparr>at_discovery_protocol := (if has_listening_addresses f then DP_SERVER else DP_SUPER_CLIENT),
    at_prefix := g\<rparr>"
  obtain f1 p1 where "connection_transports tls (f, ?q) = Inr (f1, p1)" using ct by blast
  then show "\<exists>p. ds_finish g tls s = Inr p" unfolding s by (simp add: ds_finish_def Let_def)
  obtain f2 p2 where "connection_transports tls (f, p) = Inr (f2, p2)" using ct by blast
  then show "\<exists>p. ip_finish tls s = Inr p" unfolding s by (simp add: ip_finish_def)
qed

lemma ds_attributes_no_error:
  assumes "tls_fits tls listening connection"
  shows "ds_participant_attributes L b g listening connection tls \<noteq> Some (Inl e)"
proof -
  let ?s0 = "(no_flags, (common_participant_attributes b)\<lparr>at_use_builtin_transports := False\<rparr>)"
  have srv: "listening \<noteq> [] \<longrightarrow> tls_is_active tls \<longrightarrow> tls_compatible TLS_server tls"
    and cli: "connection \<noteq> [] \<longrightarrow> tls_is_active tls \<longrightarrow> tls_compatible TLS_client tls"
    using assms unfolding tls_fits_def by (auto split: if_splits)
  have fin: "\<exists>p. ds_finish g tls (ds_connections L connection s) = Inr p"
    if "\<not> has_connection_tcp_ipv4 (fst s)" "\<not> has_connection_tcp_ipv6 (fst s)" for s
    using cli that by (intro finish_ok) (cases "connection = []", auto simp: ds_connections_def)
  from listening_loop_ok [OF srv, of L ?s0] fin show ?thesis
    by (fastforce simp: ds_participant_attributes_def ds_listening_def no_flags_def)
qed

lemma ip_attributes_no_error:
  assumes "tls_fits tls listening connection"
  shows "ip_participant_attributes L b listening connection tls \<noteq> Some (Inl e)"
proof -
  let ?s0 = "(no_flags, (common_participant_attributes b)\<lparr>at_use_builtin_transports := False\<rparr>)"
  have srv: "listening \<noteq> [] \<longrightarrow> tls_is_active tls \<longrightarrow> tls_compatible TLS_server tls"
    and cli: "connection \<noteq> [] \<longrightarrow> tls_is_active tls \<longrightarrow> tls_compatible TLS_client tls"
    using assms unfolding tls_fits_def by (auto split: if_splits)
  have fin: "\<exists>p. ip_finish tls (ip_connections L connection s) = Inr p"
    if "\<not> has_connection_tcp_ipv4 (fst s)" "\<not> has_connection_tcp_ipv6 (fst s)" for s
    using cli that by (intro finish_ok) (cases "connection = []", auto simp: ip_connections_def)
  from listening_loop_ok [OF srv, of L ?s0] fin show ?thesis
    by (fastforce simp: ip_participant_attributes_def ip_listening_def no_flags_def)
qed

section \<open>Properties\<close>

definition sample_address :: "string \<Rightarrow> ip_version \<Rightarrow> transport_protocol \<Rightarrow> address" where
  "sample_address ip v proto = address_of_ip_version ip 11666 11666 v proto"

definition sample_conf :: "string \<Rightarrow> participant_kind \<Rightarrow> participant_conf_base" where
  "sample_conf name k = \<lparr>conf_id = PId name, conf_kind = k, conf_is_repeater = False\<rparr>"



text \<open>
  Of two UDP connection addresses of different IP versions only the last decides the transports:
  an initial peers participant with a UDPv4 peer followed by a UDPv6 peer gets no UDPv4 transport,
  although the UDPv4 peer is in its peers list.
\<close>

lemma udp_transport_of_last_address_only:
  assumes "address_is_valid L a" "address_is_udp a" "address_is_ipv4 a"
    and "address_is_valid L b" "address_is_udp b" "\<not> address_is_ipv4 b"
  shows "\<exists>at. ip_participant_attributes L c [] [a, b] tls = Some (Inr at) \<and>
    ip_connection_locator a \<in> set (at_initial_peers at) \<and>
    at_transports at = [UDPv6TransportDescriptor]"
proof -
  have "\<not> address_is_tcp a" "\<not> address_is_tcp b"
    using assms by (simp_all add: address_is_tcp_def address_is_udp_def)
  with assms show ?thesis
    by (simp add: ip_participant_attributes_def ip_listening_def ip_connections_def ip_connection_step_def
        connection_flags_def ip_finish_def connection_transports_def no_flags_def Let_def
        common_participant_attributes_def)
qed

end
