(* ===== verification/Participant_Factory.thy ===== *)
theory Participant_Factory
  imports Rtps_Attributes Discovery_Database
begin

text \<open>
  Creation of the participants (\<^verbatim>\<open>core/ParticipantFactory\<close>, \<^verbatim>\<open>DDSRouterImpl::init_participants_\<close>)
  and the discovery listener of the RTPS participants (\<^verbatim>\<open>rtps/CommonParticipant\<close>), which turns
  the discovery information of Fast DDS into endpoints and queues them in the discovery database.
  \<^verbatim>\<open>RTPSDomain::createParticipant\<close> is the parameter \<open>create_rtps\<close>.
\<close>

section \<open>Factory\<close>

definition base_participant_new :: "participant_conf_base \<Rightarrow> participant" where
  "base_participant_new b =
     P_base \<lparr>pt_id = conf_id b, pt_kind = conf_kind b, pt_is_repeater = conf_is_repeater b,
             pt_writers = [], pt_readers = []\<rparr>"

text \<open>\<^verbatim>\<open>CommonParticipant\<close> with its \<^verbatim>\<open>init\<close>, given the attributes its subclass computed.\<close>

definition common_participant_new ::
    "(domain_id \<Rightarrow> rtps_attributes \<Rightarrow> bool) \<Rightarrow> participant_conf_base \<Rightarrow> domain_id \<Rightarrow>
     rtps_attributes run \<Rightarrow> participant run" where
  "common_participant_new create_rtps b d attributes =
     obind attributes (\<lambda>at.
       if \<not> create_rtps d at then Some (Inl InitializationException)
       else Some (Inr (base_participant_new b)))"

fun pc_domain :: "participant_configuration \<Rightarrow> domain_id option" where
  "pc_domain (PC_simple b d) = Some d"
| "pc_domain (PC_discovery_server b d g ls cs t) = Some d"
| "pc_domain (PC_initial_peers b d ls cs t) = Some d"
| "pc_domain _ = None"

definition create_participant ::
    "ip_locator \<Rightarrow> (domain_id \<Rightarrow> rtps_attributes \<Rightarrow> bool) \<Rightarrow> participant_configuration \<Rightarrow> participant run" where
  "create_participant L create_rtps c =
     (let b = pc_base c in
      case conf_kind b of
        PK_blank \<Rightarrow> Some (Inr (P_blank (conf_id b)))
      | PK_dummy \<Rightarrow> Some (Inr (base_participant_new b))
      | PK_echo \<Rightarrow>
         (case c of PC_echo _ e \<Rightarrow> Some (Inr (P_echo (conf_id b) e)) | _ \<Rightarrow> Some (Inl ConfigurationException))
      | PK_simple_rtps \<Rightarrow>
         (case pc_domain c of
            Some d \<Rightarrow> common_participant_new create_rtps b d (Some (Inr (common_participant_attributes b)))
          | None \<Rightarrow> Some (Inl ConfigurationException))
      | PK_local_discovery_server \<Rightarrow>
         (case c of
            PC_discovery_server _ d g ls cs t \<Rightarrow>
              common_participant_new create_rtps b d (ds_participant_attributes L b g ls cs t)
          | _ \<Rightarrow> Some (Inl ConfigurationException))
      | PK_wan_discovery_server \<Rightarrow>
         (case c of
            PC_discovery_server _ d g ls cs t \<Rightarrow>
              common_participant_new create_rtps b d (ds_participant_attributes L b g ls cs t)
          | _ \<Rightarrow> Some (Inl ConfigurationException))
      | PK_wan_initial_peers \<Rightarrow>
         (case c of
            PC_initial_peers _ d ls cs t \<Rightarrow>
              common_participant_new create_rtps b d (ip_participant_attributes L b ls cs t)
          | _ \<Rightarrow> Some (Inl ConfigurationException))
      | PK_invalid \<Rightarrow> Some (Inl ConfigurationException))"

text \<open>
  \<^verbatim>\<open>DDSRouterImpl::init_participants_\<close>: the loop over the configurations; a repeated id is reported
  as a configuration error, and there has to be a participant at the end.
\<close>

fun init_participants_loop ::
    "ip_locator \<Rightarrow> (domain_id \<Rightarrow> rtps_attributes \<Rightarrow> bool) \<Rightarrow> participant_configuration list \<Rightarrow>
     participant participants_database \<Rightarrow> participant participants_database run" where
  "init_participants_loop L create_rtps [] db = Some (Inr db)"
| "init_participants_loop L create_rtps (c # cs) db =
     obind (create_participant L create_rtps c) (\<lambda>new_participant.
       if \<not> participant_id_is_valid (participant_id_of new_participant) \<or>
          participant_kind_of new_participant = PK_invalid
       then Some (Inl InitializationException)
       else case pdb_add_participant (participant_id_of new_participant) new_participant db of
           Inl _ \<Rightarrow> Some (Inl ConfigurationException)
         | Inr db' \<Rightarrow> init_participants_loop L create_rtps cs db')"

definition init_participants ::
    "ip_locator \<Rightarrow> (domain_id \<Rightarrow> rtps_attributes \<Rightarrow> bool) \<Rightarrow> participant_configuration list \<Rightarrow>
     participant participants_database run" where
  "init_participants L create_rtps cs =
     obind (init_participants_loop L create_rtps cs []) (\<lambda>db.
       if pdb_size db < 1 then Some (Inl InitializationException) else Some (Inr db))"

section \<open>Discovery\<close>

datatype info_reliability =
    BEST_EFFORT_RELIABILITY_QOS
  | RELIABLE_RELIABILITY_QOS
  | RELIABILITY_OTHER

datatype discovery_status = DISCOVERED | CHANGED_QOS | REMOVED | DROPPED

record discovery_info =
  info_guid :: guid
  info_durability :: durability_kind
  info_reliability_kind :: info_reliability
  info_partitions :: "string list"
  info_ownership :: ownership_kind
  info_ownership_strength :: "32 word"
  info_topic_name :: string
  info_type_name :: string
  info_with_key :: bool
  info_status :: discovery_status

text \<open>\<open>depth\<close> is the global default of the history depth at the time of the discovery.\<close>

definition create_common_endpoint_from_info ::
    "32 word \<Rightarrow> participant_id \<Rightarrow> discovery_info \<Rightarrow> endpoint result" where
  "create_common_endpoint_from_info depth pid info =
     rbind (case info_reliability_kind info of
              BEST_EFFORT_RELIABILITY_QOS \<Rightarrow> Inr BEST_EFFORT
            | RELIABLE_RELIABILITY_QOS \<Rightarrow> Inr RELIABLE
            | RELIABILITY_OTHER \<Rightarrow> Inl ShouldNotHappen) (\<lambda>reliability.
       let qos = (topic_qos_default depth)
                   \<lparr>durability_qos := info_durability info, reliability_qos := reliability,
                    use_partitions := info_partitions info \<noteq> [], ownership_qos := info_ownership info\<rparr>;
           topic = \<lparr>topic_name = info_topic_name info, type_name = info_type_name info,
                    keyed = info_with_key info, topic_qos_of = qos\<rparr>;
           e = endpoint_of EK_invalid (info_guid info) topic pid specific_endpoint_qos_default;
           specific = (if topic_qos_has_partitions qos
                       then specific_endpoint_qos_default\<lparr>partitions := info_partitions info\<rparr>
                       else specific_endpoint_qos_default)
       in Inr (endpoint_set_specific_qos specific e))"

definition create_writer_from_info ::
    "32 word \<Rightarrow> participant_id \<Rightarrow> discovery_info \<Rightarrow> endpoint result" where
  "create_writer_from_info depth pid info =
     rbind (create_common_endpoint_from_info depth pid info) (\<lambda>e.
       let e1 = (if topic_qos_has_ownership (endpoint_topic_qos e)
                 then endpoint_set_specific_qos
                        ((ep_specific_qos e)\<lparr>ownership_strength := info_ownership_strength info\<rparr>) e
                 else e)
       in Inr (e1\<lparr>ep_kind := EK_writer\<rparr>))"

definition create_reader_from_info ::
    "32 word \<Rightarrow> participant_id \<Rightarrow> discovery_info \<Rightarrow> endpoint result" where
  "create_reader_from_info depth pid info =
     rbind (create_common_endpoint_from_info depth pid info) (\<lambda>e. Inr (e\<lparr>ep_kind := EK_reader\<rparr>))"

text \<open>\<open>own\<close> is the GUID prefix of the participant that hears the discovery.\<close>

definition queue_endpoint ::
    "'q db_queue_ops \<Rightarrow> discovery_status \<Rightarrow> endpoint \<Rightarrow> ('q, 's) discovery_database \<Rightarrow>
     ('q, 's) discovery_database" where
  "queue_endpoint Q status e db =
     (case status of
        DISCOVERED \<Rightarrow> db_add_endpoint Q e db
      | CHANGED_QOS \<Rightarrow> db_update_endpoint Q e db
      | REMOVED \<Rightarrow> db_erase_endpoint Q (endpoint_set_active False e) db
      | DROPPED \<Rightarrow> db_erase_endpoint Q (endpoint_set_active False e) db)"

definition onReaderDiscovery ::
    "'q db_queue_ops \<Rightarrow> 32 word \<Rightarrow> participant_id \<Rightarrow> guid_prefix \<Rightarrow> discovery_info \<Rightarrow>
     ('q, 's) discovery_database \<Rightarrow> ('q, 's) discovery_database result" where
  "onReaderDiscovery Q depth pid own info db =
     (if guid_prefix_of (info_guid info) \<noteq> own then
        rbind (create_reader_from_info depth pid info) (\<lambda>info_reader.
          Inr (queue_endpoint Q (info_status info) info_reader db))
      else Inr db)"

definition onWriterDiscovery ::
    "'q db_queue_ops \<Rightarrow> 32 word \<Rightarrow> participant_id \<Rightarrow> guid_prefix \<Rightarrow> discovery_info \<Rightarrow>
     ('q, 's) discovery_database \<Rightarrow> ('q, 's) discovery_database result" where
  "onWriterDiscovery Q depth pid own info db =
     (if guid_prefix_of (info_guid info) \<noteq> own then
        rbind (create_writer_from_info depth pid info) (\<lambda>info_writer.
          Inr (queue_endpoint Q (info_status info) info_writer db))
      else Inr db)"

section \<open>Lemmas\<close>

lemma common_participant_new_id:
  "common_participant_new cr b d at = Some (Inr p) \<Longrightarrow> p = base_participant_new b"
  by (auto simp: common_participant_new_def obind_def split: option.splits sum.splits if_splits)

lemma create_participant_id:
  assumes "create_participant L cr c = Some (Inr p)"
  shows "participant_id_of p = pc_id c \<and> participant_kind_of p = conf_kind (pc_base c)"
  using assms
  by (auto simp: create_participant_def Let_def base_participant_new_def
      split: participant_kind.splits participant_configuration.splits option.splits
      dest!: common_participant_new_id)

lemma init_participants_loop_keys:
  assumes "init_participants_loop L cr cs db = Some (Inr db')" and "smap_ok id db"
  shows "smap_ok id db' \<and> (\<forall>pid. smap_find id pid db' \<noteq> None \<longleftrightarrow>
      smap_find id pid db \<noteq> None \<or> pid \<in> pc_id ` set cs)"
  using assms
proof (induction cs arbitrary: db)
  case (Cons c cs)
  obtain p db1 where p: "create_participant L cr c = Some (Inr p)"
    and db1: "pdb_add_participant (participant_id_of p) p db = Inr db1"
    and rest: "init_participants_loop L cr cs db1 = Some (Inr db')"
    using Cons.prems(1) by (auto simp: obind_def split: option.splits sum.splits if_splits)
  note k = create_participant_id [OF p]
  have d: "db1 = smap_set id (pc_id c) p db"
    using db1 k by (auto simp: pdb_add_participant_def split: option.splits)
  from Cons.IH [OF rest] Cons.prems(2) show ?case
    unfolding d by auto
qed simp

lemma create_common_endpoint_fields:
  assumes "create_common_endpoint_from_info depth pid info = Inr e"
  shows "ep_guid e = info_guid info" "topic_name (ep_topic e) = info_topic_name info"
    "type_name (ep_topic e) = info_type_name info" "discoverer_participant_id e = pid"
    "ep_active e" "partitions (ep_specific_qos e) = info_partitions info"
    "uses_specific_qos (ep_topic e) \<longleftrightarrow>
       info_partitions info \<noteq> [] \<or> info_ownership info = EXCLUSIVE_OWNERSHIP_QOS"
  using assms
  by (auto simp: create_common_endpoint_from_info_def rbind_eq_Inr_iff Let_def endpoint_of_def
      endpoint_set_specific_qos_def specific_endpoint_qos_default_def topic_qos_has_partitions_def
      topic_qos_default_def uses_specific_qos_def topic_qos_has_ownership_def
      split: info_reliability.splits)

text \<open>
  A configuration that passed \<^verbatim>\<open>is_valid\<close> is never rejected later: only Fast DDS can fail.
\<close>

abbreviation fails_at_most_init :: "'a run \<Rightarrow> bool" where
  "fails_at_most_init m \<equiv> \<forall>e. m = Some (Inl e) \<longrightarrow> e = InitializationException"

lemma common_participant_new_error:
  "(\<And>e. at \<noteq> Some (Inl e)) \<Longrightarrow> fails_at_most_init (common_participant_new cr b d at)"
  by (cases at) (auto simp: common_participant_new_def obind_def split: sum.splits)

lemma common_participant_new_fixed: "fails_at_most_init (common_participant_new cr b d (Some (Inr at)))"
  by (rule common_participant_new_error) simp

lemma create_participant_error:
  assumes "participant_configuration_valid L c" and "check_correct_configuration_object c"
  shows "fails_at_most_init (create_participant L cr c)"
proof (cases c)
  case (PC_discovery_server b d g ls cs t)
  with assms(1) have t: "tls_fits t ls cs" and k: "conf_kind b \<noteq> PK_invalid"
    by (auto simp: discovery_server_conf_valid_def simple_conf_valid_def participant_conf_valid_def
        split: if_splits)
  have "fails_at_most_init (common_participant_new cr b d (ds_participant_attributes L b g ls cs t))"
    by (intro common_participant_new_error ds_attributes_no_error t)
  with PC_discovery_server assms(2) k show ?thesis
    by (cases "conf_kind b")
      (simp_all add: create_participant_def check_correct_configuration_object_def common_participant_new_fixed)
next
  case (PC_initial_peers b d ls cs t)
  with assms(1) have t: "tls_fits t ls cs" and k: "conf_kind b \<noteq> PK_invalid"
    by (auto simp: initial_peers_conf_valid_def simple_conf_valid_def participant_conf_valid_def
        split: if_splits)
  have "fails_at_most_init (common_participant_new cr b d (ip_participant_attributes L b ls cs t))"
    by (intro common_participant_new_error ip_attributes_no_error t)
  with PC_initial_peers assms(2) k show ?thesis
    by (cases "conf_kind b")
      (simp_all add: create_participant_def check_correct_configuration_object_def common_participant_new_fixed)
next
  case (PC_simple b d)
  have "conf_kind b \<noteq> PK_invalid"
    using assms(1) PC_simple
    by (auto simp: simple_conf_valid_def participant_conf_valid_def split: if_splits)
  then show ?thesis using PC_simple assms(2)
    by (cases "conf_kind b")
      (simp_all add: create_participant_def check_correct_configuration_object_def common_participant_new_fixed)
qed (use assms in \<open>auto simp: create_participant_def check_correct_configuration_object_def
       participant_conf_valid_def split: participant_kind.splits if_splits\<close>)

lemma init_participants_loop_error:
  assumes "\<forall>c\<in>set cs. participant_configuration_valid L c \<and> check_correct_configuration_object c"
    and "distinct (map pc_id cs)" and "\<forall>c\<in>set cs. smap_find id (pc_id c) db = None"
  shows "fails_at_most_init (init_participants_loop L cr cs db)"
  using assms
proof (induction cs arbitrary: db)
  case (Cons c cs)
  have IH: "fails_at_most_init (init_participants_loop L cr cs (smap_set id (pc_id c) p db))" for p
    by (rule Cons.IH) (use Cons.prems in \<open>auto simp: image_iff\<close>)
  have "fails_at_most_init (create_participant L cr c)"
    using Cons.prems(1) by (intro create_participant_error) auto
  moreover have "fails_at_most_init (init_participants_loop L cr (c # cs) db)"
    if "create_participant L cr c = Some (Inr p)" for p
    using that create_participant_id [OF that] IH [of p] Cons.prems(3)
    by (simp add: pdb_add_participant_def)
  ultimately show ?case
    by (cases "create_participant L cr c") (auto simp: obind_def split: sum.splits)
qed simp

lemma init_participants_error:
  assumes "router_configuration_valid L c"
  shows "fails_at_most_init (init_participants L cr (pointees (participants_configurations c)))"
proof -
  let ?cs = "pointees (participants_configurations c)"
  have "fails_at_most_init (init_participants_loop L cr ?cs [])"
    using assms by (intro init_participants_loop_error) (auto simp: router_configuration_valid_iff)
  then show ?thesis
    by (auto simp: init_participants_def obind_def split: option.splits sum.splits)
qed

lemma init_participants_keys:
  assumes "init_participants L cr cs = Some (Inr db)"
  shows "smap_ok id db \<and> (\<forall>pid. smap_find id pid db \<noteq> None \<longleftrightarrow> pid \<in> pc_id ` set cs)"
proof -
  have "init_participants_loop L cr cs [] = Some (Inr db)"
    using assms by (auto simp: init_participants_def obind_def split: option.splits sum.splits if_splits)
  from init_participants_loop_keys [OF this] show ?thesis by simp
qed

section \<open>Properties\<close>

text \<open>
  C35. For a configuration that passed the checks, the creation of the participants never ends in a
  configuration error, only in a failure of Fast DDS to create one or, with the listening addresses
  of the hanging search, never; and when it ends well the participants are exactly the configured
  ones, one per id.
\<close>

theorem valid_configuration_participants:
  assumes "router_configuration_valid L c"
  shows "(\<forall>e. init_participants L cr (pointees (participants_configurations c)) = Some (Inl e) \<longrightarrow>
       e = InitializationException) \<and>
    (\<forall>db. init_participants L cr (pointees (participants_configurations c)) = Some (Inr db) \<longrightarrow>
       smap_ok id db \<and>
       (\<forall>pid. pdb_get_participant pid db \<noteq> None \<longleftrightarrow>
          pid \<in> pc_id ` set (pointees (participants_configurations c))))"
  using init_participants_error [OF assms, of cr]
    init_participants_keys [of L cr "pointees (participants_configurations c)"]
  by (simp add: pdb_get_participant_def)

definition sample_router_configuration :: router_configuration where
  "sample_router_configuration =
     \<lparr>cfg_allowlist = [], cfg_blocklist = [], cfg_builtin_topics = [Some (dds_topic_of_names 1 ''t'' ''T'')],
      participants_configurations =
        [Some (PC_echo \<lparr>conf_id = PId ''a'', conf_kind = PK_echo, conf_is_repeater = False\<rparr>
                \<lparr>echo_data = True, echo_discovery = False, echo_verbose = False\<rparr>),
         Some (PC_participant \<lparr>conf_id = PId ''b'', conf_kind = PK_dummy, conf_is_repeater = True\<rparr>)],
      advanced_options = specs_default\<rparr>"

lemma sample_router_configuration_valid: "router_configuration_valid sample_locator sample_router_configuration"
  by code_simp

theorem valid_configuration_participants_witness:
  "\<exists>db. init_participants sample_locator (\<lambda>d a. True)
       (pointees (participants_configurations sample_router_configuration)) = Some (Inr db) \<and>
     pdb_get_participant (PId ''b'') db \<noteq> None \<and> pdb_get_participant (PId ''c'') db = None"
proof -
  let ?cs = "pointees (participants_configurations sample_router_configuration)"
  have "case init_participants sample_locator (\<lambda>d a. True) ?cs of Some (Inr db) \<Rightarrow> True | _ \<Rightarrow> False"
    by (simp add: sample_router_configuration_def init_participants_def create_participant_def obind_def
        base_participant_new_def pdb_add_participant_def pdb_size_def participant_id_is_valid_def
        participant_id_is_valid_id_def participant_id_of_string_def INVALID_ID_def)
  then obtain db where db: "init_participants sample_locator (\<lambda>d a. True) ?cs = Some (Inr db)"
    by (auto split: option.splits sum.splits)
  with valid_configuration_participants [OF sample_router_configuration_valid, of "\<lambda>d a. True"]
  have k: "pdb_get_participant pid db \<noteq> None \<longleftrightarrow> pid \<in> pc_id ` set ?cs" for pid by blast
  from k [of "PId ''b''"] k [of "PId ''c''"]
  have "pdb_get_participant (PId ''b'') db \<noteq> None" "pdb_get_participant (PId ''c'') db = None"
    by (simp_all add: sample_router_configuration_def)
  with db show ?thesis by blast
qed

text \<open>What a notification queues, and the fields of the endpoints built from it.\<close>

definition notified_operation :: "discovery_status \<Rightarrow> database_operation" where
  "notified_operation status = (case status of DISCOVERED \<Rightarrow> DB_add | CHANGED_QOS \<Rightarrow> DB_update | _ \<Rightarrow> DB_erase)"

lemma queue_endpoint_tail:
  assumes "db_queue_laws Q fg bg"
  shows "bg (entities_to_process (queue_endpoint Q status x db)) = bg (entities_to_process db) @
    [(notified_operation status, if notified_operation status = DB_erase then endpoint_set_active False x else x)]"
  using assms
  by (simp add: db_queue_laws_def notified_operation_def queue_endpoint_def db_add_endpoint_def db_update_endpoint_def
      db_erase_endpoint_def push_item_to_queue_def split: discovery_status.splits)

lemma writer_from_info_fields:
  assumes "create_writer_from_info depth pid info = Inr e"
  shows "ep_kind e = EK_writer" "ep_guid e = info_guid info" "topic_name (ep_topic e) = info_topic_name info"
    "type_name (ep_topic e) = info_type_name info" "discoverer_participant_id e = pid"
    "partitions (ep_specific_qos e) = info_partitions info" "ep_active e"
    "info_ownership info = EXCLUSIVE_OWNERSHIP_QOS \<Longrightarrow>
       ownership_strength (ep_specific_qos e) = info_ownership_strength info"
proof -
  obtain c where c: "create_common_endpoint_from_info depth pid info = Inr c"
    using assms by (auto simp: create_writer_from_info_def rbind_eq_Inr_iff)
  note f = create_common_endpoint_fields [OF c]
  show "ep_kind e = EK_writer" "ep_guid e = info_guid info" "topic_name (ep_topic e) = info_topic_name info"
    "type_name (ep_topic e) = info_type_name info" "discoverer_participant_id e = pid"
    "partitions (ep_specific_qos e) = info_partitions info" "ep_active e"
    using assms c f(1-6) by (auto simp: create_writer_from_info_def rbind_eq_Inr_iff Let_def
        endpoint_set_specific_qos_def split: if_splits)
  show "ownership_strength (ep_specific_qos e) = info_ownership_strength info"
    if "info_ownership info = EXCLUSIVE_OWNERSHIP_QOS"
    using assms c that by (auto simp: create_writer_from_info_def create_common_endpoint_from_info_def rbind_eq_Inr_iff
        Let_def endpoint_set_specific_qos_def endpoint_of_def endpoint_topic_qos_def topic_qos_has_ownership_def
        split: info_reliability.splits if_splits)
qed

lemma reader_from_info_fields:
  assumes "create_reader_from_info depth pid info = Inr e"
  shows "ep_kind e = EK_reader" "ep_guid e = info_guid info" "topic_name (ep_topic e) = info_topic_name info"
    "type_name (ep_topic e) = info_type_name info" "discoverer_participant_id e = pid"
    "partitions (ep_specific_qos e) = info_partitions info" "ep_active e"
  using assms create_common_endpoint_fields [of depth pid info]
  by (auto simp: create_reader_from_info_def rbind_eq_Inr_iff)

text \<open>
  C36. A discovery notification of a foreign endpoint puts exactly one operation at the end of the
  queue: an add, an update or an erase as its status says, whose endpoint has the identity, the names,
  the discoverer and the specific quality of service of the notification and is inactive exactly for
  an erase. A notification about the participant's own endpoints leaves the queue alone.
\<close>

theorem discovery_queues_one_operation:
  assumes "db_queue_laws Q fg bg"
    and "onWriterDiscovery Q depth pid own info db = Inr db1" and "onReaderDiscovery Q depth pid own info db = Inr db2"
  shows "if guid_prefix_of (info_guid info) = own then db1 = db \<and> db2 = db
    else (\<exists>opn e1 e2.
       bg (entities_to_process db1) = bg (entities_to_process db) @ [(opn, e1)] \<and>
       bg (entities_to_process db2) = bg (entities_to_process db) @ [(opn, e2)] \<and>
       opn = (case info_status info of DISCOVERED \<Rightarrow> DB_add | CHANGED_QOS \<Rightarrow> DB_update | _ \<Rightarrow> DB_erase) \<and>
       ep_kind e1 = EK_writer \<and> ep_kind e2 = EK_reader \<and>
       (\<forall>e\<in>{e1, e2}. ep_guid e = info_guid info \<and> topic_name (ep_topic e) = info_topic_name info \<and>
          type_name (ep_topic e) = info_type_name info \<and> discoverer_participant_id e = pid \<and>
          partitions (ep_specific_qos e) = info_partitions info \<and>
          ep_active e = (opn \<noteq> DB_erase)) \<and>
       (info_ownership info = EXCLUSIVE_OWNERSHIP_QOS \<longrightarrow>
          ownership_strength (ep_specific_qos e1) = info_ownership_strength info))"
proof (cases "guid_prefix_of (info_guid info) = own")
  case True
  with assms show ?thesis by (simp add: onWriterDiscovery_def onReaderDiscovery_def)
next
  case False
  obtain e1 where e1: "create_writer_from_info depth pid info = Inr e1"
    and db1: "db1 = queue_endpoint Q (info_status info) e1 db"
    using assms(2) False by (auto simp: onWriterDiscovery_def rbind_eq_Inr_iff)
  obtain e2 where e2: "create_reader_from_info depth pid info = Inr e2"
    and db2: "db2 = queue_endpoint Q (info_status info) e2 db"
    using assms(3) False by (auto simp: onReaderDiscovery_def rbind_eq_Inr_iff)
  let ?o = "case info_status info of DISCOVERED \<Rightarrow> DB_add | CHANGED_QOS \<Rightarrow> DB_update | _ \<Rightarrow> DB_erase"
  let ?act = "\<lambda>x. if ?o = DB_erase then endpoint_set_active False x else x"
  note tail = queue_endpoint_tail [OF assms(1), unfolded notified_operation_def]
  have "\<exists>opn e1 e2.
       bg (entities_to_process db1) = bg (entities_to_process db) @ [(opn, e1)] \<and>
       bg (entities_to_process db2) = bg (entities_to_process db) @ [(opn, e2)] \<and> opn = ?o \<and>
       ep_kind e1 = EK_writer \<and> ep_kind e2 = EK_reader \<and>
       (\<forall>e\<in>{e1, e2}. ep_guid e = info_guid info \<and> topic_name (ep_topic e) = info_topic_name info \<and>
          type_name (ep_topic e) = info_type_name info \<and> discoverer_participant_id e = pid \<and>
          partitions (ep_specific_qos e) = info_partitions info \<and> ep_active e = (opn \<noteq> DB_erase)) \<and>
       (info_ownership info = EXCLUSIVE_OWNERSHIP_QOS \<longrightarrow>
          ownership_strength (ep_specific_qos e1) = info_ownership_strength info)"
    by (rule exI [of _ ?o], rule exI [of _ "?act e1"], rule exI [of _ "?act e2"])
      (use writer_from_info_fields [OF e1] reader_from_info_fields [OF e2] in \<open>simp add: db1 db2 tail endpoint_set_active_def\<close>)
  with False show ?thesis by simp
qed

definition sample_info :: discovery_info where
  "sample_info =
     \<lparr>info_guid = \<lparr>guid_prefix_of = replicate 12 1, guid_entity_id = [0, 0, 0, 7]\<rparr>, info_durability = VOLATILE,
      info_reliability_kind = RELIABLE_RELIABILITY_QOS, info_partitions = [''p''],
      info_ownership = EXCLUSIVE_OWNERSHIP_QOS, info_ownership_strength = 5, info_topic_name = ''t'',
      info_type_name = ''T'', info_with_key = False, info_status = REMOVED\<rparr>"

theorem discovery_queues_one_operation_witness:
  "\<exists>db1 :: (db_item list \<times> db_item list, unit) discovery_database.
     onWriterDiscovery list_queue 1 (PId ''a'') (replicate 12 2) sample_info (discovery_database_new ([], [])) = Inr db1 \<and>
     (\<exists>e. snd (entities_to_process db1) = [(DB_erase, e)] \<and> ownership_strength (ep_specific_qos e) = 5)"
proof -
  let ?db = "discovery_database_new ([], []) :: (db_item list \<times> db_item list, unit) discovery_database"
  obtain db1 where w: "onWriterDiscovery list_queue 1 (PId ''a'') (replicate 12 2) sample_info ?db = Inr db1"
    by (simp add: onWriterDiscovery_def sample_info_def create_writer_from_info_def create_common_endpoint_from_info_def
        rbind_def Let_def)
  obtain db2 where r: "onReaderDiscovery list_queue 1 (PId ''a'') (replicate 12 2) sample_info ?db = Inr db2"
    by (simp add: onReaderDiscovery_def sample_info_def create_reader_from_info_def create_common_endpoint_from_info_def
        rbind_def Let_def)
  have n: "guid_prefix_of (info_guid sample_info) \<noteq> replicate 12 2" by (simp add: sample_info_def)
  from discovery_queues_one_operation [OF list_queue_laws w r] n
  have "\<exists>e. snd (entities_to_process db1) = [(DB_erase, e)] \<and> ownership_strength (ep_specific_qos e) = 5"
    by (auto simp: discovery_database_new_def sample_info_def)
  with w show ?thesis by blast
qed

end
