(* ===== verification/Router.thy ===== *)
theory Router
  imports RPC_Bridge Participant_Factory
begin

text \<open>
  The router (\<^verbatim>\<open>core/DDSRouterImpl\<close>): which topics and services are known, which of them are
  active, and the bridges. The constructor, start, stop and reload of the application and the
  callbacks of the discovery database are the operations; most of them are \<^verbatim>\<open>noexcept\<close>, so an error
  value stands for the end of the process.

  What the router calls outside the sources is collected in a record: the RTPS entities, the
  wildcard match \<^verbatim>\<open>utils::match_pattern\<close>, the comparison \<^verbatim>\<open>utils::are_set_of_ptr_equal\<close>, Fast
  DDS' \<^verbatim>\<open>IPLocator\<close> and \<^verbatim>\<open>createParticipant\<close>. \<open>lhs_first\<close> says whether the compiler evaluates the
  left operand of an assignment first, which before C++17 it may: then \<^verbatim>\<open>bridges_[topic] =
  make_unique(...)\<close> leaves a null entry behind when the constructor throws.
\<close>

section \<open>State\<close>

record ('q, 's, 'hr, 'hw) router_env =
  re_rtps :: "('q, 's, 'hr, 'hw) rtps_env"
  re_match_pattern :: "string \<Rightarrow> string \<Rightarrow> bool"
  re_set_of_ptr_equal :: "wildcard_filter list \<Rightarrow> wildcard_filter list \<Rightarrow> bool"
  re_ip_locator :: ip_locator
  re_create_rtps :: "domain_id \<Rightarrow> rtps_attributes \<Rightarrow> bool"
  lhs_first :: bool

record ('hr, 'hw) dds_router =
  rt_world :: "('hr, 'hw) world"
  bridges :: "(dds_topic, dds_bridge option) smap"
  rpc_bridges :: "(rpc_topic, rpc_bridge) smap"
  current_topics :: "(dds_topic, bool) smap"
  current_services :: "(rpc_topic, bool) smap"
  allowed_topics :: allowed_topic_list
  rt_configuration :: router_configuration
  rt_enabled :: bool
  thread_pool_enabled :: bool
  default_history_depth :: "32 word"

abbreviation allowed ::
    "('q, 's, 'hr, 'hw) router_env \<Rightarrow> ('hr, 'hw) dds_router \<Rightarrow> dds_topic \<Rightarrow> bool" where
  "allowed E r t \<equiv> is_topic_allowed (re_match_pattern E) (allowed_topics r) t"

abbreviation service_allowed ::
    "('q, 's, 'hr, 'hw) router_env \<Rightarrow> ('hr, 'hw) dds_router \<Rightarrow> rpc_topic \<Rightarrow> bool" where
  "service_allowed E r t \<equiv> is_service_allowed (re_match_pattern E) (allowed_topics r) t"

section \<open>Topics\<close>

text \<open>The assignment destroys the bridge that was there, if any.\<close>

definition create_new_bridge ::
    "('q, 's, 'hr, 'hw) router_env \<Rightarrow> dds_topic \<Rightarrow> bool \<Rightarrow> ('hr, 'hw) dds_router \<Rightarrow>
     ('hr, 'hw) dds_router result" where
  "create_new_bridge E topic enable r =
     (case dds_bridge_new (re_rtps E) topic enable (rt_world r) of
        (Inr b, w) \<Rightarrow>
          (let w1 = (case smap_find dds_topic_key topic (bridges r) of
                       Some (Some old) \<Rightarrow> dds_bridge_destroy (old, w)
                     | _ \<Rightarrow> w)
           in Inr (r\<lparr>rt_world := w1, bridges := smap_set dds_topic_key topic (Some b) (bridges r)\<rparr>))
      | (Inl e, w) \<Rightarrow>
          if e = InitializationException then
            Inr (r\<lparr>rt_world := w,
                   bridges := (if lhs_first E then smap_emplace dds_topic_key topic None (bridges r)
                               else bridges r)\<rparr>)
          else Inl e)"

definition activate_topic ::
    "('q, 's, 'hr, 'hw) router_env \<Rightarrow> dds_topic \<Rightarrow> ('hr, 'hw) dds_router \<Rightarrow>
     ('hr, 'hw) dds_router result" where
  "activate_topic E topic r =
     (let r1 = r\<lparr>current_topics := smap_set dds_topic_key topic True (current_topics r)\<rparr> in
      case smap_find dds_topic_key topic (bridges r1) of
        None \<Rightarrow> create_new_bridge E topic True r1
      | Some None \<Rightarrow> Inl NullDereference
      | Some (Some b) \<Rightarrow>
         (let (b', w') = dds_bridge_enable (b, rt_world r1)
          in Inr (r1\<lparr>rt_world := w', bridges := smap_set dds_topic_key topic (Some b') (bridges r1)\<rparr>)))"

definition deactivate_topic ::
    "dds_topic \<Rightarrow> ('hr, 'hw) dds_router \<Rightarrow> ('hr, 'hw) dds_router result" where
  "deactivate_topic topic r =
     (let r1 = r\<lparr>current_topics := smap_set dds_topic_key topic False (current_topics r)\<rparr> in
      case smap_find dds_topic_key topic (bridges r1) of
        None \<Rightarrow> Inr r1
      | Some None \<Rightarrow> Inl NullDereference
      | Some (Some b) \<Rightarrow>
         (let (b', w') = dds_bridge_disable (b, rt_world r1)
          in Inr (r1\<lparr>rt_world := w', bridges := smap_set dds_topic_key topic (Some b') (bridges r1)\<rparr>)))"

definition activate_all_topics ::
    "('q, 's, 'hr, 'hw) router_env \<Rightarrow> ('hr, 'hw) dds_router \<Rightarrow> ('hr, 'hw) dds_router result" where
  "activate_all_topics E r =
     rfold (\<lambda>it r. if allowed E r (fst it) then activate_topic E (fst it) r else Inr r)
       (current_topics r) r"

definition deactivate_all_topics :: "('hr, 'hw) dds_router \<Rightarrow> ('hr, 'hw) dds_router result" where
  "deactivate_all_topics r = rfold (\<lambda>it. deactivate_topic (fst it)) (current_topics r) r"

definition discovered_topic ::
    "('q, 's, 'hr, 'hw) router_env \<Rightarrow> dds_topic \<Rightarrow> ('hr, 'hw) dds_router \<Rightarrow>
     ('hr, 'hw) dds_router result" where
  "discovered_topic E topic r =
     (case smap_find dds_topic_key topic (current_topics r) of
        Some _ \<Rightarrow> Inr r
      | None \<Rightarrow>
         (let r1 = r\<lparr>current_topics := smap_emplace dds_topic_key topic False (current_topics r)\<rparr> in
          if rt_enabled r1 \<and> allowed E r1 topic then activate_topic E topic r1 else Inr r1))"

section \<open>Services\<close>

text \<open>
  Calling through \<^verbatim>\<open>rpc_bridges_[topic]\<close>, whose default entry is null. The endpoint loops of an
  RPC bridge raise \<^verbatim>\<open>InitializationException\<close> only, which its \<^verbatim>\<open>enable\<close> catches.
\<close>

definition call_rpc_bridge ::
    "rpc_topic \<Rightarrow> (rpc_bridge \<times> ('hr, 'hw) world \<Rightarrow> (rpc_bridge \<times> ('hr, 'hw) world) result) \<Rightarrow>
     ('hr, 'hw) dds_router \<Rightarrow> ('hr, 'hw) dds_router result" where
  "call_rpc_bridge topic f r =
     (case smap_find rpc_topic_key topic (rpc_bridges r) of
        None \<Rightarrow> Inl NullDereference
      | Some b \<Rightarrow>
          rbind (f (b, rt_world r)) (\<lambda>(b', w').
            Inr (r\<lparr>rt_world := w', rpc_bridges := smap_set rpc_topic_key topic b' (rpc_bridges r)\<rparr>)))"

definition enable_rpc_bridge ::
    "('q, 's, 'hr, 'hw) router_env \<Rightarrow> rpc_topic \<Rightarrow> ('hr, 'hw) dds_router \<Rightarrow>
     ('hr, 'hw) dds_router result" where
  "enable_rpc_bridge E topic = call_rpc_bridge topic (\<lambda>bw. Inr (rpc_bridge_enable (re_rtps E) bw))"

definition disable_rpc_bridge :: "rpc_topic \<Rightarrow> ('hr, 'hw) dds_router \<Rightarrow> ('hr, 'hw) dds_router result" where
  "disable_rpc_bridge topic = call_rpc_bridge topic (\<lambda>bw. Inr (rpc_bridge_disable bw))"

definition create_new_service :: "rpc_topic \<Rightarrow> ('hr, 'hw) dds_router \<Rightarrow> ('hr, 'hw) dds_router" where
  "create_new_service topic r =
     r\<lparr>rpc_bridges := smap_set rpc_topic_key topic (rpc_bridge_new topic) (rpc_bridges r)\<rparr>"

definition router_discovered_service ::
    "('q, 's, 'hr, 'hw) router_env \<Rightarrow> rpc_topic \<Rightarrow> participant_id \<Rightarrow> guid_prefix \<Rightarrow>
     ('hr, 'hw) dds_router \<Rightarrow> ('hr, 'hw) dds_router result" where
  "router_discovered_service E topic server_participant_id server_guid_prefix r =
     (let r1 = (case smap_find rpc_topic_key topic (rpc_bridges r) of
                  Some _ \<Rightarrow> r
                | None \<Rightarrow>
                   (let r0 = create_new_service topic r
                    in r0\<lparr>current_services :=
                            smap_set rpc_topic_key topic (service_allowed E r0 topic) (current_services r0)\<rparr>))
      in rbind (call_rpc_bridge topic (\<lambda>(b, w).
                  rbind (discovered_service server_participant_id server_guid_prefix b) (\<lambda>b'. Inr (b', w))) r1)
           (\<lambda>r2. if rt_enabled r2 \<and> smap_find rpc_topic_key topic (current_services r2) = Some True
                 then enable_rpc_bridge E topic r2 else Inr r2))"

definition router_removed_service ::
    "rpc_topic \<Rightarrow> participant_id \<Rightarrow> guid_prefix \<Rightarrow> ('hr, 'hw) dds_router \<Rightarrow> ('hr, 'hw) dds_router result" where
  "router_removed_service topic server_participant_id server_guid_prefix r =
     (case smap_find rpc_topic_key topic (rpc_bridges r) of
        None \<Rightarrow> Inr r
      | Some _ \<Rightarrow>
          call_rpc_bridge topic (\<lambda>bw. Inr (removed_service server_participant_id server_guid_prefix bw)) r)"

section \<open>Callbacks of the discovery database\<close>

definition discovered_endpoint ::
    "('q, 's, 'hr, 'hw) router_env \<Rightarrow> endpoint \<Rightarrow> ('hr, 'hw) dds_router \<Rightarrow>
     ('hr, 'hw) dds_router result" where
  "discovered_endpoint E e r =
     (if endpoint_is_reader e then
        (let topic = ep_topic e in
         if \<not> is_service_topic topic then discovered_topic E topic r
         else if endpoint_is_server_endpoint e then
           rbind (rpc_topic_of_topic topic) (\<lambda>rpc.
             router_discovered_service E rpc (discoverer_participant_id e) (guid_prefix_of (ep_guid e)) r)
         else Inr r)
      else Inr r)"

definition removed_endpoint :: "endpoint \<Rightarrow> ('hr, 'hw) dds_router \<Rightarrow> ('hr, 'hw) dds_router result" where
  "removed_endpoint e r =
     (let topic = ep_topic e in
      if is_service_topic topic then
        if endpoint_is_server_endpoint e then
          rbind (rpc_topic_of_topic topic) (\<lambda>rpc.
            router_removed_service rpc (discoverer_participant_id e) (guid_prefix_of (ep_guid e)) r)
        else Inr r
      else Inr r)"

section \<open>Start, stop and reload\<close>

definition router_start ::
    "('q, 's, 'hr, 'hw) router_env \<Rightarrow> ('hr, 'hw) dds_router \<Rightarrow>
     (return_code \<times> ('hr, 'hw) dds_router) result" where
  "router_start E r =
     (if \<not> rt_enabled r then
        rbind (activate_all_topics E (r\<lparr>rt_enabled := True, thread_pool_enabled := True\<rparr>)) (\<lambda>r1.
          rbind (rfold (\<lambda>it r. if snd it then enable_rpc_bridge E (fst it) r else Inr r)
                   (current_services r1) r1) (\<lambda>r2.
            Inr (RETCODE_OK, r2)))
      else Inr (RETCODE_PRECONDITION_NOT_MET, r))"

definition router_stop ::
    "('hr, 'hw) dds_router \<Rightarrow> (return_code \<times> ('hr, 'hw) dds_router) result" where
  "router_stop r =
     (if rt_enabled r then
        rbind (deactivate_all_topics (r\<lparr>rt_enabled := False, thread_pool_enabled := False\<rparr>)) (\<lambda>r1.
          Inr (RETCODE_OK, r1))
      else Inr (RETCODE_PRECONDITION_NOT_MET, r))"

definition reload_topic ::
    "('q, 's, 'hr, 'hw) router_env \<Rightarrow> dds_topic \<times> bool \<Rightarrow> ('hr, 'hw) dds_router \<Rightarrow>
     ('hr, 'hw) dds_router result" where
  "reload_topic E it r =
     (if snd it then
        if \<not> allowed E r (fst it) then deactivate_topic (fst it) r else Inr r
      else
        if allowed E r (fst it) then activate_topic E (fst it) r else Inr r)"

definition reload_service ::
    "('q, 's, 'hr, 'hw) router_env \<Rightarrow> rpc_topic \<times> bool \<Rightarrow> ('hr, 'hw) dds_router \<Rightarrow>
     ('hr, 'hw) dds_router result" where
  "reload_service E it r =
     (let ok = service_allowed E r (fst it);
          r1 = r\<lparr>current_services := smap_set rpc_topic_key (fst it) ok (current_services r)\<rparr>
      in if ok then enable_rpc_bridge E (fst it) r1 else disable_rpc_bridge (fst it) r1)"

definition new_builtin_topics ::
    "('x) reload_configuration_scheme \<Rightarrow> ('hr, 'hw) dds_router \<Rightarrow> dds_topic list" where
  "new_builtin_topics new r =
     sset_of_list dds_topic_key
       (filter (\<lambda>t. smap_find dds_topic_key t (current_topics r) = None) (pointees (cfg_builtin_topics new)))"

definition reload_configuration ::
    "('q, 's, 'hr, 'hw) router_env \<Rightarrow> ('x) reload_configuration_scheme \<Rightarrow> ('hr, 'hw) dds_router \<Rightarrow>
     (return_code \<times> ('hr, 'hw) dds_router) result" where
  "reload_configuration E new r =
     (if \<not> reload_configuration_valid new then Inl ConfigurationException
      else if rt_enabled r then
        let new_allowed = allowed_topic_list_of (pointees (cfg_allowlist new)) (pointees (cfg_blocklist new));
            builtin = new_builtin_topics new r
        in if allowed_topic_list_eq (re_set_of_ptr_equal E) new_allowed (allowed_topics r) \<and> builtin = []
           then Inr (RETCODE_NO_DATA, r)
           else
             rbind (rfold (reload_topic E) (current_topics r) (r\<lparr>allowed_topics := new_allowed\<rparr>)) (\<lambda>r1.
             rbind (rfold (discovered_topic E) builtin r1) (\<lambda>r2.
             rbind (rfold (reload_service E) (current_services r2) r2) (\<lambda>r3.
               Inr (RETCODE_OK, r3\<lparr>rt_configuration := configuration_reload new (rt_configuration r3)\<rparr>))))
      else Inr (RETCODE_NOT_ENABLED, r))"

section \<open>Construction and destruction\<close>

definition init_bridges ::
    "('q, 's, 'hr, 'hw) router_env \<Rightarrow> ('hr, 'hw) dds_router \<Rightarrow> ('hr, 'hw) dds_router result" where
  "init_bridges E r = rfold (discovered_topic E) (pointees (cfg_builtin_topics (rt_configuration r))) r"

definition init_allowed_topics :: "router_configuration \<Rightarrow> allowed_topic_list" where
  "init_allowed_topics c = allowed_topic_list_of (pointees (cfg_allowlist c)) (pointees (cfg_blocklist c))"

definition router_new ::
    "('q, 's, 'hr, 'hw) router_env \<Rightarrow> router_configuration \<Rightarrow> ('hr, 'hw) dds_router run" where
  "router_new E c =
     (if \<not> router_configuration_valid (re_ip_locator E) c then Some (Inl ConfigurationException)
      else
        obind (init_participants (re_ip_locator E) (re_create_rtps E) (pointees (participants_configurations c)))
          (\<lambda>db. Some (init_bridges E
             \<lparr>rt_world = \<lparr>w_participants = db, w_store = object_store_empty, w_next_task = 0, w_emitted = []\<rparr>,
              bridges = [], rpc_bridges = [], current_topics = [], current_services = [],
              allowed_topics = init_allowed_topics c, rt_configuration = c, rt_enabled = False,
              thread_pool_enabled = False,
              default_history_depth = max_history_depth (advanced_options c)\<rparr>)))"

text \<open>
  The discovery database with the callbacks the constructor registers before it creates the
  participants, and as the constructor leaves it, running.
\<close>

definition registered_database ::
    "('q, 's, 'hr, 'hw) router_env \<Rightarrow> 'p \<Rightarrow> ('p, ('hr, 'hw) dds_router result) discovery_database" where
  "registered_database E q =
     add_endpoint_erased_callback (\<lambda>e s. rbind s (removed_endpoint e))
       (add_endpoint_discovered_callback (\<lambda>e s. rbind s (discovered_endpoint E e))
         (discovery_database_new q))"

definition router_database ::
    "('q, 's, 'hr, 'hw) router_env \<Rightarrow> 'p \<Rightarrow> ('p, ('hr, 'hw) dds_router result) discovery_database" where
  "router_database E q = db_start (registered_database E q)"

definition clear_bridges :: "('hr, 'hw) dds_router \<Rightarrow> ('hr, 'hw) dds_router" where
  "clear_bridges r =
     r\<lparr>rt_world := fold (\<lambda>e w. case snd e of None \<Rightarrow> w | Some b \<Rightarrow> dds_bridge_destroy (b, w))
                     (bridges r) (rt_world r),
       bridges := []\<rparr>"

definition clear_rpc_bridges :: "('hr, 'hw) dds_router \<Rightarrow> ('hr, 'hw) dds_router" where
  "clear_rpc_bridges r =
     r\<lparr>rt_world := fold (\<lambda>e w. rpc_bridge_destroy (snd e, w)) (rpc_bridges r) (rt_world r),
       rpc_bridges := []\<rparr>"

text \<open>The destructor; the participants popped are what the factory is asked to remove.\<close>

definition router_destroy ::
    "('hr, 'hw) dds_router \<Rightarrow> (participant list \<times> ('hr, 'hw) dds_router) result" where
  "router_destroy r =
     rbind (router_stop r) (\<lambda>(_, r1).
       let r2 = clear_rpc_bridges (clear_bridges r1)
       in Inr (pdb_pop_all (w_participants (rt_world r2)),
               r2\<lparr>rt_world := (rt_world r2)\<lparr>w_participants := []\<rparr>\<rparr>))"

end
