(* ===== verification/Router_Invariant.thy ===== *)
theory Router_Invariant
  imports Router
begin

text \<open>
  The invariant of the router: a known topic is active exactly when the router is enabled and the
  topic is allowed, a bridge is enabled exactly when its topic is active, and the services carry the
  verdict of the filters. It is established by the constructor and kept by every operation and
  callback; the reachable states of the step system of all of them satisfy it.
\<close>

section \<open>Invariant\<close>

definition topic_flag :: "('hr, 'hw) dds_router \<Rightarrow> dds_topic \<Rightarrow> bool option" where
  "topic_flag r t = smap_find dds_topic_key t (current_topics r)"

definition bridge_of :: "('hr, 'hw) dds_router \<Rightarrow> dds_topic \<Rightarrow> dds_bridge option option" where
  "bridge_of r t = smap_find dds_topic_key t (bridges r)"

definition service_flag :: "('hr, 'hw) dds_router \<Rightarrow> rpc_topic \<Rightarrow> bool option" where
  "service_flag r s = smap_find rpc_topic_key s (current_services r)"

definition rpc_bridge_of :: "('hr, 'hw) dds_router \<Rightarrow> rpc_topic \<Rightarrow> rpc_bridge option" where
  "rpc_bridge_of r s = smap_find rpc_topic_key s (rpc_bridges r)"

text \<open>The bridge of a topic, where there is one, is switched as the flag of the topic says.\<close>

definition bridge_sync :: "('hr, 'hw) dds_router \<Rightarrow> dds_topic \<Rightarrow> bool" where
  "bridge_sync r t \<longleftrightarrow>
     (\<forall>b. bridge_of r t = Some (Some b) \<longrightarrow> (brg_enabled b \<longleftrightarrow> topic_flag r t = Some True))"

definition topics_ok :: "('q, 's, 'hr, 'hw) router_env \<Rightarrow> ('hr, 'hw) dds_router \<Rightarrow> bool" where
  "topics_ok E r \<longleftrightarrow>
     (\<forall>t\<in>fst ` set (current_topics r).
        topic_flag r t = Some (rt_enabled r \<and> allowed E r t) \<and> bridge_sync r t)"

definition services_ok :: "('q, 's, 'hr, 'hw) router_env \<Rightarrow> ('hr, 'hw) dds_router \<Rightarrow> bool" where
  "services_ok E r \<longleftrightarrow>
     (\<forall>s\<in>fst ` set (current_services r). service_flag r s = Some (service_allowed E r s)) \<and>
     (\<forall>s. rpc_bridge_of r s = None \<longleftrightarrow> service_flag r s = None) \<and>
     (\<forall>s b. rpc_bridge_of r s = Some b \<longrightarrow> rpc_enabled b \<longrightarrow> service_flag r s = Some True)"

definition maps_ok :: "('hr, 'hw) dds_router \<Rightarrow> bool" where
  "maps_ok r \<longleftrightarrow>
     smap_ok dds_topic_key (current_topics r) \<and> smap_ok rpc_topic_key (current_services r) \<and>
     (\<forall>t. topic_flag r t = None \<longrightarrow> bridge_of r t = None)"

definition router_ok :: "('q, 's, 'hr, 'hw) router_env \<Rightarrow> ('hr, 'hw) dds_router \<Rightarrow> bool" where
  "router_ok E r \<longleftrightarrow> maps_ok r \<and> topics_ok E r \<and> services_ok E r"

section \<open>Effect of the topic operations\<close>

text \<open>What a topic operation leaves alone.\<close>

definition same_frame :: "('hr, 'hw) dds_router \<Rightarrow> ('hr, 'hw) dds_router \<Rightarrow> bool" where
  "same_frame r r' \<longleftrightarrow>
     rt_enabled r' = rt_enabled r \<and> allowed_topics r' = allowed_topics r \<and>
     current_services r' = current_services r \<and> rpc_bridges r' = rpc_bridges r \<and>
     rt_configuration r' = rt_configuration r"

lemma same_frame_refl [simp]: "same_frame r r"
  by (simp add: same_frame_def)

lemma same_frame_trans: "same_frame a b \<Longrightarrow> same_frame b c \<Longrightarrow> same_frame a c"
  by (simp add: same_frame_def)

lemma dds_bridge_new_enabled:
  "dds_bridge_new E topic True w = (Inr b, w') \<Longrightarrow> brg_enabled b"
  by (auto simp: dds_bridge_new_def Let_def case_prod_unfold dds_bridge_enable_def
      split: sum.splits prod.splits if_splits)

lemma activate_topic_effect:
  assumes "activate_topic E t r = Inr r'"
  shows "same_frame r r'"
    and "current_topics r' = smap_set dds_topic_key t True (current_topics r)"
    and "\<And>u. dds_topic_key u \<noteq> dds_topic_key t \<Longrightarrow> bridge_of r' u = bridge_of r u"
    and "\<And>b. bridge_of r' t = Some (Some b) \<Longrightarrow> brg_enabled b"
proof -
  have "same_frame r r' \<and> current_topics r' = smap_set dds_topic_key t True (current_topics r) \<and>
    (\<forall>u. dds_topic_key u \<noteq> dds_topic_key t \<longrightarrow> bridge_of r' u = bridge_of r u) \<and>
    (\<forall>b. bridge_of r' t = Some (Some b) \<longrightarrow> brg_enabled b)"
  proof (cases "bridge_of r t")
    case None
    with assms have "create_new_bridge E t True
        (r\<lparr>current_topics := smap_set dds_topic_key t True (current_topics r)\<rparr>) = Inr r'"
      by (simp add: activate_topic_def bridge_of_def)
    with None show ?thesis
      by (auto simp: create_new_bridge_def same_frame_def bridge_of_def Let_def
          split: sum.splits prod.splits if_splits dest: dds_bridge_new_enabled)
  next
    case (Some x)
    with assms obtain b where "x = Some b"
      by (cases x) (auto simp: activate_topic_def bridge_of_def)
    with assms Some show ?thesis
      using bridge_switch.is_on_on [of "(b, rt_world r)"]
      by (auto simp: activate_topic_def bridge_of_def same_frame_def Let_def case_prod_unfold)
  qed
  then show "same_frame r r'"
    and "current_topics r' = smap_set dds_topic_key t True (current_topics r)"
    and "\<And>u. dds_topic_key u \<noteq> dds_topic_key t \<Longrightarrow> bridge_of r' u = bridge_of r u"
    and "\<And>b. bridge_of r' t = Some (Some b) \<Longrightarrow> brg_enabled b" by blast+
qed

lemma deactivate_topic_effect:
  assumes "deactivate_topic t r = Inr r'"
  shows "same_frame r r'"
    and "current_topics r' = smap_set dds_topic_key t False (current_topics r)"
    and "\<And>u. dds_topic_key u \<noteq> dds_topic_key t \<Longrightarrow> bridge_of r' u = bridge_of r u"
    and "\<And>b. bridge_of r' t = Some (Some b) \<Longrightarrow> \<not> brg_enabled b"
proof -
  have "same_frame r r' \<and> current_topics r' = smap_set dds_topic_key t False (current_topics r) \<and>
    (\<forall>u. dds_topic_key u \<noteq> dds_topic_key t \<longrightarrow> bridge_of r' u = bridge_of r u) \<and>
    (\<forall>b. bridge_of r' t = Some (Some b) \<longrightarrow> \<not> brg_enabled b)"
    using assms
    by (auto simp: deactivate_topic_def bridge_of_def same_frame_def Let_def case_prod_unfold
        bridge_switch.not_is_on_off split: option.splits)
  then show "same_frame r r'"
    and "current_topics r' = smap_set dds_topic_key t False (current_topics r)"
    and "\<And>u. dds_topic_key u \<noteq> dds_topic_key t \<Longrightarrow> bridge_of r' u = bridge_of r u"
    and "\<And>b. bridge_of r' t = Some (Some b) \<Longrightarrow> \<not> brg_enabled b" by blast+
qed

text \<open>Both in one fact: setting the flag of a known topic.\<close>

definition sets_topic :: "dds_topic \<Rightarrow> bool \<Rightarrow> ('hr, 'hw) dds_router \<Rightarrow> ('hr, 'hw) dds_router \<Rightarrow> bool" where
  "sets_topic t v r r' \<longleftrightarrow>
     same_frame r r' \<and> topic_flag r' t = Some v \<and> bridge_sync r' t \<and>
     (\<forall>u. dds_topic_key u \<noteq> dds_topic_key t \<longrightarrow>
        topic_flag r' u = topic_flag r u \<and> bridge_of r' u = bridge_of r u)"

lemma activate_sets: "activate_topic E t r = Inr r' \<Longrightarrow> sets_topic t True r r'"
  using activate_topic_effect [of E t r r']
  by (auto simp: sets_topic_def topic_flag_def bridge_sync_def)

lemma deactivate_sets: "deactivate_topic t r = Inr r' \<Longrightarrow> sets_topic t False r r'"
  using deactivate_topic_effect [of t r r']
  by (auto simp: sets_topic_def topic_flag_def bridge_sync_def)

lemma switch_flag:
  "activate_topic E t r = Inr r' \<Longrightarrow> topic_flag r' t = Some True"
  "deactivate_topic t r = Inr r' \<Longrightarrow> topic_flag r' t = Some False"
  by (drule activate_sets, simp add: sets_topic_def) (drule deactivate_sets, simp add: sets_topic_def)

lemma sets_topic_other:
  assumes "sets_topic t v r r'" and "dds_topic_key u \<noteq> dds_topic_key t"
  shows "topic_flag r' u = topic_flag r u" "bridge_sync r' u = bridge_sync r u"
  using assms by (auto simp: sets_topic_def bridge_sync_def)

lemma smap_set_known:
  assumes "smap_ok key m" and "smap_find key k m \<noteq> None"
  shows "fst ` set (smap_set key k v m) = fst ` set m"
  using smap_keys_set_existing [OF assms, of v] by (metis set_map)

text \<open>The loops over the known topics run with this invariant.\<close>

definition loop_inv ::
    "('hr, 'hw) dds_router \<Rightarrow> ('hr, 'hw) dds_router \<Rightarrow> bool" where
  "loop_inv r0 r \<longleftrightarrow>
     same_frame r0 r \<and> maps_ok r \<and> fst ` set (current_topics r) = fst ` set (current_topics r0)"

lemma loop_inv_refl: "maps_ok r \<Longrightarrow> loop_inv r r"
  by (simp add: loop_inv_def)

lemma switch_keeps_loop_inv:
  assumes "activate_topic E t r = Inr r' \<or> deactivate_topic t r = Inr r'"
    and "loop_inv r0 r" and "t \<in> fst ` set (current_topics r0)"
  shows "loop_inv r0 r'"
proof -
  from assms(1) obtain v where v: "sets_topic t v r r'"
      "current_topics r' = smap_set dds_topic_key t v (current_topics r)"
    using activate_sets deactivate_sets activate_topic_effect(2) deactivate_topic_effect(2) by metis
  have i: "smap_ok dds_topic_key (current_topics r)" "t \<in> fst ` set (current_topics r)"
      "fst ` set (current_topics r) = fst ` set (current_topics r0)" "same_frame r0 r" "maps_ok r"
    using assms(2,3) by (auto simp: loop_inv_def maps_ok_def)
  then have "smap_find dds_topic_key t (current_topics r) \<noteq> None"
    by (intro smap_in_keys_find) (simp add: smap_keys_def)
  with i v have "fst ` set (current_topics r') = fst ` set (current_topics r0)"
    using smap_set_known [of dds_topic_key "current_topics r" t v] by simp
  moreover have "maps_ok r'"
    using i v unfolding maps_ok_def sets_topic_def same_frame_def by (metis option.distinct(1) smap_ok_set topic_flag_def
        smap_find_same_key)
  moreover have "same_frame r0 r'" using i v same_frame_trans by (auto simp: sets_topic_def)
  ultimately show ?thesis by (simp add: loop_inv_def)
qed

text \<open>
  A loop over the known topics that switches some of them: \<open>v\<close> is the flag each topic should end
  with; an iteration either sets it or leaves a topic that has it already.
\<close>

lemma topic_loop:
  assumes "rfold f (current_topics r) r = Inr r'" and "maps_ok r"
    and "\<forall>x\<in>set (current_topics r). P (topic_flag r (fst x)) x \<and> bridge_sync r (fst x)"
    and step: "\<And>x s s'. x \<in> set (current_topics r) \<Longrightarrow> same_frame r s \<Longrightarrow> f x s = Inr s' \<Longrightarrow>
      (activate_topic E (fst x) s = Inr s' \<or> deactivate_topic (fst x) s = Inr s') \<and>
        topic_flag s' (fst x) = Some (v (fst x))
      \<or> s' = s \<and> (P (topic_flag s (fst x)) x \<longrightarrow> topic_flag s (fst x) = Some (v (fst x)))"
  shows "loop_inv r r' \<and>
    (\<forall>t\<in>fst ` set (current_topics r). topic_flag r' t = Some (v t) \<and> bridge_sync r' t)"
proof -
  let ?k = "dds_topic_key \<circ> fst :: dds_topic \<times> bool \<Rightarrow> _"
  let ?P = "\<lambda>x s. P (topic_flag s (fst x)) x \<and> bridge_sync s (fst x)"
  let ?Q = "\<lambda>x s. topic_flag s (fst x) = Some (v (fst x)) \<and> bridge_sync s (fst x)"
  have "loop_inv r r' \<and> (\<forall>x\<in>set (current_topics r). ?Q x r')"
  proof (rule rfold_establishes [where k = ?k and P = ?P and I = "loop_inv r"])
    show "rfold f (current_topics r) r = Inr r'" by (rule assms(1))
    show "loop_inv r r" by (rule loop_inv_refl [OF assms(2)])
    show "distinct (map ?k (current_topics r))"
      using assms(2) smap_ok_distinct by (auto simp: maps_ok_def)
    show "\<forall>x\<in>set (current_topics r). ?P x r" by (rule assms(3))
  next
    fix x s s'
    assume x: "x \<in> set (current_topics r)" and I: "loop_inv r s" and p: "?P x s" and f: "f x s = Inr s'"
    have "same_frame r s" using I by (simp add: loop_inv_def)
    from step [OF x this f]
    show "loop_inv r s' \<and> ?Q x s' \<and>
      (\<forall>y\<in>set (current_topics r). ?k y \<noteq> ?k x \<longrightarrow> (?P y s \<longrightarrow> ?P y s') \<and> (?Q y s \<longrightarrow> ?Q y s'))"
    proof
      assume a: "(activate_topic E (fst x) s = Inr s' \<or> deactivate_topic (fst x) s = Inr s') \<and>
        topic_flag s' (fst x) = Some (v (fst x))"
      then obtain u where u: "sets_topic (fst x) u s s'"
        using activate_sets deactivate_sets by blast
      have "loop_inv r s'" using switch_keeps_loop_inv a I x by blast
      moreover have "?Q x s'" using u a by (simp add: sets_topic_def)
      ultimately show ?thesis using sets_topic_other [OF u] by auto
    qed (use I p in auto)
  qed
  then show ?thesis by auto
qed

lemma topics_ok_after_loop:
  assumes "loop_inv r r'"
    and "\<forall>t\<in>fst ` set (current_topics r). topic_flag r' t = Some (rt_enabled r \<and> allowed E r t) \<and> bridge_sync r' t"
  shows "topics_ok E r'"
  using assms by (auto simp: loop_inv_def topics_ok_def same_frame_def)

lemma activate_all_ok:
  assumes "activate_all_topics E r = Inr r'" and "maps_ok r" and "rt_enabled r"
    and "\<forall>t\<in>fst ` set (current_topics r). topic_flag r t = Some False \<and> bridge_sync r t"
  shows "loop_inv r r' \<and> topics_ok E r'"
proof -
  have "loop_inv r r' \<and> (\<forall>t\<in>fst ` set (current_topics r).
      topic_flag r' t = Some (allowed E r t) \<and> bridge_sync r' t)"
  proof (rule topic_loop [where P = "\<lambda>f x. f = Some False"])
    show "rfold (\<lambda>it r. if allowed E r (fst it) then activate_topic E (fst it) r else Inr r)
        (current_topics r) r = Inr r'"
      using assms(1) by (simp add: activate_all_topics_def)
  qed (use assms in \<open>auto simp: same_frame_def split: if_splits dest: switch_flag\<close>)
  with topics_ok_after_loop [of r r' E] assms(3) show ?thesis by auto
qed

lemma deactivate_all_ok:
  assumes "deactivate_all_topics r = Inr r'" and "maps_ok r" and "\<not> rt_enabled r"
    and "\<forall>t\<in>fst ` set (current_topics r). bridge_sync r t"
  shows "loop_inv r r' \<and> topics_ok E r'"
proof -
  have "loop_inv r r' \<and> (\<forall>t\<in>fst ` set (current_topics r). topic_flag r' t = Some False \<and> bridge_sync r' t)"
  proof (rule topic_loop [where P = "\<lambda>f x. True"])
    show "rfold (\<lambda>it. deactivate_topic (fst it)) (current_topics r) r = Inr r'"
      using assms(1) by (simp add: deactivate_all_topics_def)
  qed (use assms in \<open>auto dest: switch_flag\<close>)
  with topics_ok_after_loop [of r r' E] assms(3) show ?thesis by auto
qed

lemma reload_topics_ok:
  assumes "rfold (reload_topic E) (current_topics r) (r\<lparr>allowed_topics := l\<rparr>) = Inr r'"
    and "maps_ok r" and "rt_enabled r" and "topics_ok E r"
  shows "loop_inv (r\<lparr>allowed_topics := l\<rparr>) r' \<and> topics_ok E r'"
proof -
  let ?r = "r\<lparr>allowed_topics := l\<rparr>"
  have flags: "topic_flag r (fst x) = Some (snd x) \<and> bridge_sync r (fst x)"
    if "x \<in> set (current_topics r)" for x
    using that assms(2,4) smap_find_in_ok [of dds_topic_key "current_topics r" "fst x" "snd x"]
    by (auto simp: maps_ok_def topics_ok_def topic_flag_def)
  have [simp]: "topic_flag ?r t = topic_flag r t" "bridge_sync ?r t = bridge_sync r t"
      "maps_ok ?r = maps_ok r" for t
    by (auto simp: topic_flag_def bridge_sync_def bridge_of_def maps_ok_def)
  have "loop_inv ?r r' \<and> (\<forall>t\<in>fst ` set (current_topics ?r).
      topic_flag r' t = Some (allowed E ?r t) \<and> bridge_sync r' t)"
  proof (rule topic_loop [where P = "\<lambda>f x. f = Some (snd x)"])
    show "rfold (reload_topic E) (current_topics ?r) ?r = Inr r'" using assms(1) by simp
    fix x s s'
    assume "same_frame ?r s" and f: "reload_topic E x s = Inr s'"
    then have a: "allowed E s (fst x) = allowed E ?r (fst x)" by (simp add: same_frame_def)
    show "(activate_topic E (fst x) s = Inr s' \<or> deactivate_topic (fst x) s = Inr s') \<and>
        topic_flag s' (fst x) = Some (allowed E ?r (fst x))
      \<or> s' = s \<and> (topic_flag s (fst x) = Some (snd x) \<longrightarrow>
        topic_flag s (fst x) = Some (allowed E ?r (fst x)))"
      using f a by (auto simp: reload_topic_def split: if_splits dest: switch_flag)
  qed (use assms(2) flags in auto)
  with topics_ok_after_loop [of ?r r' E] assms(3) show ?thesis by auto
qed

lemma bridge_sync_no_bridge: "bridge_of r t = None \<Longrightarrow> bridge_sync r t"
  by (simp add: bridge_sync_def)

lemma topics_ok_fields:
  assumes "current_topics r' = current_topics r" "bridges r' = bridges r" "rt_enabled r' = rt_enabled r"
    "allowed_topics r' = allowed_topics r"
  shows "topics_ok E r' = topics_ok E r"
  using assms by (simp add: topics_ok_def topic_flag_def bridge_sync_def bridge_of_def)

lemma services_ok_fields:
  assumes "current_services r' = current_services r" "rpc_bridges r' = rpc_bridges r"
    "allowed_topics r' = allowed_topics r"
  shows "services_ok E r' = services_ok E r"
  using assms by (simp add: services_ok_def service_flag_def rpc_bridge_of_def)

lemma maps_ok_fields:
  assumes "current_topics r' = current_topics r" "bridges r' = bridges r"
    "current_services r' = current_services r"
  shows "maps_ok r' = maps_ok r"
  using assms by (simp add: maps_ok_def topic_flag_def bridge_of_def)

text \<open>Registering a topic for the first time, as inactive, before it may be activated.\<close>

lemma new_topic_registered:
  assumes "topic_flag r t = None" and "maps_ok r" and "topics_ok E r"
    and r1: "r1 = r\<lparr>current_topics := smap_emplace dds_topic_key t False (current_topics r)\<rparr>"
  shows "maps_ok r1" and "fst ` set (current_topics r1) = insert t (fst ` set (current_topics r))"
    and "\<And>u. u \<in> fst ` set (current_topics r) \<Longrightarrow> dds_topic_key u \<noteq> dds_topic_key t"
    and "\<And>u. topic_flag r1 u = (if dds_topic_key u = dds_topic_key t then Some False else topic_flag r u)"
    and "bridge_sync r1 t" and "\<And>u. u \<in> fst ` set (current_topics r) \<Longrightarrow> bridge_sync r1 u"
proof -
  have nob: "bridge_of r t = None" using assms(1,2) by (simp add: maps_ok_def)
  show keys: "fst ` set (current_topics r1) = insert t (fst ` set (current_topics r))"
    using assms(1) set_smap_set_new [of dds_topic_key t "current_topics r" False]
    by (simp add: r1 topic_flag_def smap_emplace_def)
  show new: "dds_topic_key u \<noteq> dds_topic_key t" if "u \<in> fst ` set (current_topics r)" for u
    using that assms(1) by (auto simp: topic_flag_def smap_find_None_iff)
  show flags: "topic_flag r1 u = (if dds_topic_key u = dds_topic_key t then Some False else topic_flag r u)" for u
    using assms(1) by (auto simp: r1 topic_flag_def)
  have br: "bridge_of r1 = bridge_of r" by (simp add: r1 bridge_of_def fun_eq_iff)
  show "maps_ok r1" using assms(2) flags br by (auto simp: r1 maps_ok_def split: if_splits)
  show "bridge_sync r1 t" "\<And>u. u \<in> fst ` set (current_topics r) \<Longrightarrow> bridge_sync r1 u"
    using nob br new assms(3) by (auto simp: bridge_sync_def topics_ok_def flags)
qed

lemma discovered_topic_ok:
  assumes "discovered_topic E t r = Inr r'" and "maps_ok r" and "topics_ok E r"
  shows "maps_ok r' \<and> topics_ok E r' \<and> same_frame r r' \<and> topic_flag r' t \<noteq> None"
proof (cases "topic_flag r t")
  case None
  let ?r1 = "r\<lparr>current_topics := smap_emplace dds_topic_key t False (current_topics r)\<rparr>"
  note m1 = new_topic_registered(1) [OF None assms(2,3) refl] and keys = new_topic_registered(2) [OF None assms(2,3) refl]
    and new = new_topic_registered(3) [OF None assms(2,3) refl] and flags = new_topic_registered(4) [OF None assms(2,3) refl]
    and sync = new_topic_registered(5,6) [OF None assms(2,3) refl]
  show ?thesis
  proof (cases "rt_enabled r \<and> allowed E r t")
    case True
    with assms(1) None have act: "activate_topic E t ?r1 = Inr r'"
      by (simp add: discovered_topic_def topic_flag_def Let_def)
    note st = activate_sets [OF act]
    have li: "loop_inv ?r1 r'"
      using switch_keeps_loop_inv [OF disjI1, OF act loop_inv_refl [OF m1]] keys by simp
    have "topic_flag r' u = Some (rt_enabled ?r1 \<and> allowed E ?r1 u) \<and> bridge_sync r' u"
      if "u \<in> fst ` set (current_topics ?r1)" for u
    proof (cases "u = t")
      case True
      then show ?thesis using st \<open>rt_enabled r \<and> allowed E r t\<close> by (simp add: sets_topic_def)
    next
      case False
      with that keys have u: "u \<in> fst ` set (current_topics r)" by simp
      from sets_topic_other [OF st new [OF u]] flags [of u] new [OF u] sync(2) [OF u] assms(3) u
      show ?thesis by (auto simp: topics_ok_def)
    qed
    with topics_ok_after_loop [OF li] have "topics_ok E r'" by blast
    with li st show ?thesis by (auto simp: loop_inv_def same_frame_def sets_topic_def)
  next
    case False
    with assms(1) None have r': "r' = ?r1"
      by (auto simp: discovered_topic_def topic_flag_def Let_def)
    have "topics_ok E ?r1"
      using keys flags new sync False assms(3) by (auto simp: topics_ok_def)
    with m1 flags r' show ?thesis by (simp add: same_frame_def)
  qed
next
  case (Some v)
  with assms have "r' = r" by (simp add: discovered_topic_def topic_flag_def)
  with assms Some show ?thesis by simp
qed

lemma rfold_discovered_ok:
  assumes "rfold (discovered_topic E) ts r = Inr r'" and "maps_ok r" and "topics_ok E r"
  shows "maps_ok r' \<and> topics_ok E r' \<and> same_frame r r'"
  using assms
proof (induction ts arbitrary: r)
  case (Cons t ts)
  then obtain r1 where "discovered_topic E t r = Inr r1" "rfold (discovered_topic E) ts r1 = Inr r'"
    by (auto simp: rbind_eq_Inr_iff)
  with Cons.IH [of r1] discovered_topic_ok [of E t r r1] Cons.prems show ?case
    using same_frame_trans by blast
qed simp

section \<open>Effect of the service operations\<close>

definition same_topics :: "('hr, 'hw) dds_router \<Rightarrow> ('hr, 'hw) dds_router \<Rightarrow> bool" where
  "same_topics r r' \<longleftrightarrow>
     rt_enabled r' = rt_enabled r \<and> allowed_topics r' = allowed_topics r \<and>
     current_topics r' = current_topics r \<and> bridges r' = bridges r \<and>
     rt_configuration r' = rt_configuration r"

lemma call_rpc_bridge_effect:
  assumes "call_rpc_bridge s f r = Inr r'"
  shows "\<exists>b b' w'. rpc_bridge_of r s = Some b \<and> f (b, rt_world r) = Inr (b', w') \<and>
    same_topics r r' \<and> current_services r' = current_services r \<and>
    (\<forall>u. rpc_bridge_of r' u =
       (if rpc_topic_key u = rpc_topic_key s then Some b' else rpc_bridge_of r u))"
  using assms
  by (auto simp: call_rpc_bridge_def rpc_bridge_of_def rbind_eq_Inr_iff same_topics_def split: option.splits)

lemma rpc_disable_off: "rpc_bridge_disable (b, w) = (b', w') \<Longrightarrow> \<not> rpc_enabled b'"
  by (auto simp: rpc_bridge_disable_def Let_def split: if_splits)

lemma removed_service_enabled:
  "removed_service pid g (b, w) = (b', w') \<Longrightarrow> rpc_enabled b' \<Longrightarrow> rpc_enabled b"
  by (auto simp: removed_service_def rpc_bridge_disable_def Let_def split: if_splits)

lemma discovered_service_enabled:
  "discovered_service pid g b = Inr b' \<Longrightarrow> rpc_enabled b' = rpc_enabled b"
  by (auto simp: discovered_service_def map_registry_def Let_def split: if_splits option.splits)

text \<open>Calling a bridge keeps the services consistent if it may be enabled by the call only when allowed.\<close>

lemma call_rpc_bridge_ok:
  assumes "call_rpc_bridge s f r = Inr r'" and "services_ok E r"
    and "\<And>b w b' w'. f (b, w) = Inr (b', w') \<Longrightarrow> rpc_enabled b' \<Longrightarrow>
      rpc_enabled b \<or> service_flag r s = Some True"
  shows "services_ok E r' \<and> same_topics r r' \<and> current_services r' = current_services r"
proof -
  obtain b b' w' where e: "rpc_bridge_of r s = Some b" "f (b, rt_world r) = Inr (b', w')"
    "same_topics r r'" "current_services r' = current_services r"
    "\<And>u. rpc_bridge_of r' u =
       (if rpc_topic_key u = rpc_topic_key s then Some b' else rpc_bridge_of r u)"
    using call_rpc_bridge_effect [OF assms(1)] by blast
  have flag: "service_flag r' = service_flag r" using e(4) by (simp add: service_flag_def fun_eq_iff)
  have same: "rpc_topic_key u = rpc_topic_key s \<Longrightarrow> service_flag r u = service_flag r s \<and>
      rpc_bridge_of r u = rpc_bridge_of r s" for u
    unfolding service_flag_def rpc_bridge_of_def using smap_find_same_key by metis
  have "services_ok E r'"
    unfolding services_ok_def flag
  proof (intro conjI allI ballI impI)
    show "service_flag r u = Some (service_allowed E r' u)" if "u \<in> fst ` set (current_services r')" for u
      using assms(2) that e(3,4) by (auto simp: services_ok_def same_topics_def)
    show "rpc_bridge_of r' u = None \<longleftrightarrow> service_flag r u = None" for u
    proof (cases "rpc_topic_key u = rpc_topic_key s")
      case True
      have "service_flag r s \<noteq> None"
        using assms(2) e(1) unfolding services_ok_def by (metis option.distinct(1))
      with same [OF True] e(5) [of u] True show ?thesis by simp
    next
      case False
      with e(5) [of u] assms(2) show ?thesis by (simp add: services_ok_def)
    qed
    show "service_flag r u = Some True" if "rpc_bridge_of r' u = Some c" "rpc_enabled c" for u c
    proof (cases "rpc_topic_key u = rpc_topic_key s")
      case True
      with that e(5) [of u] have "c = b'" by simp
      with that assms(3) [OF e(2)] e(1) assms(2) have "service_flag r s = Some True"
        by (auto simp: services_ok_def)
      with same [OF True] show ?thesis by simp
    next
      case False
      with that e(5) [of u] assms(2) show ?thesis by (simp add: services_ok_def)
    qed
  qed
  with e show ?thesis by simp
qed

section \<open>Every operation keeps the invariant\<close>

lemma router_ok_same_topics:
  assumes "same_topics r r'" and "router_ok E r" and "services_ok E r'"
    and "current_services r' = current_services r"
  shows "router_ok E r'"
proof -
  have "topics_ok E r' = topics_ok E r" "maps_ok r' = maps_ok r"
    using assms(1,4) topics_ok_fields [of r' r E] maps_ok_fields [of r' r]
    by (simp_all add: same_topics_def)
  with assms(2,3) show ?thesis by (simp add: router_ok_def)
qed

lemma router_ok_same_frame:
  assumes "same_frame r r'" and "services_ok E r" and "maps_ok r'" and "topics_ok E r'"
  shows "router_ok E r'"
  using assms services_ok_fields [of r' r E] by (simp add: router_ok_def same_frame_def)

lemma enable_rpc_bridge_ok:
  assumes "enable_rpc_bridge E s r = Inr r'" and "router_ok E r" and "service_flag r s = Some True"
  shows "router_ok E r' \<and> current_services r' = current_services r \<and> same_topics r r'"
proof -
  have "services_ok E r' \<and> same_topics r r' \<and> current_services r' = current_services r"
    by (rule call_rpc_bridge_ok [OF assms(1) [unfolded enable_rpc_bridge_def]])
      (use assms(2,3) in \<open>auto simp: router_ok_def\<close>)
  with router_ok_same_topics [of r r' E] assms(2) show ?thesis by blast
qed

lemma start_services_ok:
  assumes "rfold (\<lambda>it r. if snd it then enable_rpc_bridge E (fst it) r else Inr r) its r = Inr r'"
    and "router_ok E r" and "\<forall>it\<in>set its. service_flag r (fst it) = Some (snd it)"
  shows "router_ok E r' \<and> same_topics r r' \<and> current_services r' = current_services r"
  using assms
proof (induction its arbitrary: r)
  case (Cons it its)
  then obtain r1 where r1: "(if snd it then enable_rpc_bridge E (fst it) r else Inr r) = Inr r1"
    "rfold (\<lambda>it r. if snd it then enable_rpc_bridge E (fst it) r else Inr r) its r1 = Inr r'"
    by (auto simp: rbind_eq_Inr_iff)
  have "router_ok E r1 \<and> current_services r1 = current_services r \<and> same_topics r r1"
    using r1(1) Cons.prems(2,3) enable_rpc_bridge_ok [of E "fst it" r r1]
    by (cases "snd it") (auto simp: same_topics_def)
  moreover from this have "service_flag r1 = service_flag r" by (simp add: service_flag_def fun_eq_iff)
  ultimately show ?case
    using Cons.IH [OF r1(2)] Cons.prems(3) by (auto simp: same_topics_def)
qed (simp add: same_topics_def)

lemma router_start_ok:
  assumes "router_start E r = Inr (ret, r')" and "router_ok E r"
  shows "router_ok E r' \<and> rt_enabled r' \<and> current_services r' = current_services r \<and>
    allowed_topics r' = allowed_topics r \<and> fst ` set (current_topics r') = fst ` set (current_topics r)"
proof (cases "rt_enabled r")
  case True
  with assms show ?thesis by (simp add: router_start_def)
next
  case False
  let ?r0 = "r\<lparr>rt_enabled := True, thread_pool_enabled := True\<rparr>"
  obtain r1 where r1: "activate_all_topics E ?r0 = Inr r1"
    and r2: "rfold (\<lambda>it r. if snd it then enable_rpc_bridge E (fst it) r else Inr r)
      (current_services r1) r1 = Inr r'"
    using assms(1) False by (auto simp: router_start_def rbind_eq_Inr_iff)
  have m0: "maps_ok ?r0" and s0: "services_ok E ?r0"
    using assms(2) maps_ok_fields [of ?r0 r] services_ok_fields [of ?r0 r E] by (auto simp: router_ok_def)
  have "topic_flag r t = Some False \<and> bridge_sync r t" if "t \<in> fst ` set (current_topics r)" for t
    using that assms(2) False unfolding router_ok_def topics_ok_def by auto
  then have "\<forall>t\<in>fst ` set (current_topics ?r0). topic_flag ?r0 t = Some False \<and> bridge_sync ?r0 t"
    by (simp add: topic_flag_def bridge_sync_def bridge_of_def)
  with activate_all_ok [OF r1 m0] have li: "loop_inv ?r0 r1" "topics_ok E r1" by auto
  then have ok1: "router_ok E r1"
    by (intro router_ok_same_frame [of ?r0]) (use s0 in \<open>auto simp: loop_inv_def\<close>)
  have "\<forall>it\<in>set (current_services r1). service_flag r1 (fst it) = Some (snd it)"
    using ok1 smap_find_in_ok [of rpc_topic_key "current_services r1"]
    by (auto simp: router_ok_def maps_ok_def service_flag_def)
  from start_services_ok [OF r2 ok1 this] li(1) show ?thesis
    by (auto simp: loop_inv_def same_frame_def same_topics_def)
qed

lemma router_stop_ok:
  assumes "router_stop r = Inr (ret, r')" and "router_ok E r"
  shows "router_ok E r' \<and> \<not> rt_enabled r' \<and> rpc_bridges r' = rpc_bridges r \<and>
    fst ` set (current_topics r') = fst ` set (current_topics r)"
proof (cases "rt_enabled r")
  case False
  with assms show ?thesis by (simp add: router_stop_def)
next
  case True
  let ?r0 = "r\<lparr>rt_enabled := False, thread_pool_enabled := False\<rparr>"
  have r1: "deactivate_all_topics ?r0 = Inr r'"
    using assms(1) True by (auto simp: router_stop_def rbind_eq_Inr_iff)
  have m0: "maps_ok ?r0" and s0: "services_ok E ?r0"
    using assms(2) maps_ok_fields [of ?r0 r] services_ok_fields [of ?r0 r E] by (auto simp: router_ok_def)
  have "\<forall>t\<in>fst ` set (current_topics ?r0). bridge_sync ?r0 t"
    using assms(2) by (simp add: router_ok_def topics_ok_def bridge_sync_def topic_flag_def bridge_of_def)
  with deactivate_all_ok [OF r1 m0, of E] have li: "loop_inv ?r0 r'" "topics_ok E r'" by auto
  with router_ok_same_frame [of ?r0 r' E] s0 show ?thesis
    by (auto simp: loop_inv_def same_frame_def)
qed

lemma new_service_ok:
  assumes "router_ok E r" and "rpc_bridge_of r s = None"
  shows "router_ok E (let r0 = create_new_service s r
    in r0\<lparr>current_services := smap_set rpc_topic_key s (service_allowed E r0 s) (current_services r0)\<rparr>)"
    (is "router_ok E ?r1")
proof -
  have none: "service_flag r s = None" using assms by (simp add: router_ok_def services_ok_def)
  have flag: "service_flag ?r1 u =
      (if rpc_topic_key u = rpc_topic_key s then Some (service_allowed E r s) else service_flag r u)" for u
    by (simp add: service_flag_def create_new_service_def)
  have br: "rpc_bridge_of ?r1 u =
      (if rpc_topic_key u = rpc_topic_key s then Some (rpc_bridge_new s) else rpc_bridge_of r u)" for u
    by (simp add: rpc_bridge_of_def create_new_service_def)
  have keys: "fst ` set (current_services ?r1) = insert s (fst ` set (current_services r))"
    using none set_smap_set_new [of rpc_topic_key s "current_services r"]
    by (simp add: service_flag_def create_new_service_def)
  have other: "rpc_topic_key u \<noteq> rpc_topic_key s" if "u \<in> fst ` set (current_services r)" for u
    using that none by (auto simp: service_flag_def smap_find_None_iff)
  have al: "service_allowed E ?r1 u = service_allowed E r u" for u by (simp add: create_new_service_def)
  have "services_ok E ?r1"
    unfolding services_ok_def keys flag br al
    using assms(1) other by (auto simp: router_ok_def services_ok_def rpc_bridge_new_def)
  moreover have "topics_ok E ?r1 = topics_ok E r"
    by (rule topics_ok_fields) (simp_all add: create_new_service_def)
  moreover have "maps_ok ?r1"
    using assms(1) by (simp add: router_ok_def maps_ok_def create_new_service_def topic_flag_def bridge_of_def)
  ultimately show ?thesis using assms(1) by (simp add: router_ok_def)
qed

lemma router_discovered_service_ok:
  assumes "router_discovered_service E s pid g r = Inr r'" and "router_ok E r"
  shows "router_ok E r'"
proof -
  let ?r1 = "case smap_find rpc_topic_key s (rpc_bridges r) of Some _ \<Rightarrow> r
    | None \<Rightarrow> (let r0 = create_new_service s r
        in r0\<lparr>current_services := smap_set rpc_topic_key s (service_allowed E r0 s) (current_services r0)\<rparr>)"
  let ?f = "\<lambda>(b, w). rbind (discovered_service pid g b) (\<lambda>b'. Inr (b', w))"
  obtain r2 where r2: "call_rpc_bridge s ?f ?r1 = Inr r2"
    and fin: "(if rt_enabled r2 \<and> smap_find rpc_topic_key s (current_services r2) = Some True
       then enable_rpc_bridge E s r2 else Inr r2) = Inr r'"
    using assms(1) unfolding router_discovered_service_def Let_def rbind_eq_Inr_iff by blast
  have ok1: "router_ok E ?r1"
  proof (cases "smap_find rpc_topic_key s (rpc_bridges r)")
    case None
    then show ?thesis using new_service_ok [OF assms(2), of s] by (simp add: rpc_bridge_of_def)
  qed (simp add: assms(2))
  have "services_ok E r2 \<and> same_topics ?r1 r2 \<and> current_services r2 = current_services ?r1"
    by (rule call_rpc_bridge_ok [OF r2])
      (use ok1 in \<open>auto simp: router_ok_def rbind_eq_Inr_iff dest: discovered_service_enabled\<close>)
  then have ok2: "router_ok E r2" using router_ok_same_topics [of ?r1 r2 E] ok1 by blast
  show ?thesis
    using fin ok2 enable_rpc_bridge_ok [of E s r2 r'] by (auto simp: service_flag_def split: if_splits)
qed

lemma router_removed_service_ok:
  assumes "router_removed_service s pid g r = Inr r'" and "router_ok E r"
  shows "router_ok E r'"
proof (cases "smap_find rpc_topic_key s (rpc_bridges r)")
  case None
  with assms show ?thesis by (simp add: router_removed_service_def)
next
  case (Some b)
  with assms(1) have c: "call_rpc_bridge s (\<lambda>bw. Inr (removed_service pid g bw)) r = Inr r'"
    by (simp add: router_removed_service_def)
  have "services_ok E r' \<and> same_topics r r' \<and> current_services r' = current_services r"
    by (rule call_rpc_bridge_ok [OF c])
      (use assms(2) in \<open>auto simp: router_ok_def dest: removed_service_enabled\<close>)
  with router_ok_same_topics [of r r' E] assms(2) show ?thesis by blast
qed

lemma discovered_endpoint_ok:
  assumes "discovered_endpoint E e r = Inr r'" and "router_ok E r"
  shows "router_ok E r'"
proof -
  have "router_ok E r'" if "discovered_topic E t r = Inr r'" for t
    using discovered_topic_ok [OF that] assms(2) router_ok_same_frame [of r r' E]
    by (auto simp: router_ok_def)
  with assms show ?thesis
    by (auto simp: discovered_endpoint_def Let_def rbind_eq_Inr_iff split: if_splits
        dest: router_discovered_service_ok)
qed

lemma removed_endpoint_ok:
  "removed_endpoint e r = Inr r' \<Longrightarrow> router_ok E r \<Longrightarrow> router_ok E r'"
  by (auto simp: removed_endpoint_def Let_def rbind_eq_Inr_iff split: if_splits
      dest: router_removed_service_ok)

text \<open>The service loop of a reload: each service gets the verdict of the new filters.\<close>

definition services_loop_inv :: "('hr, 'hw) dds_router \<Rightarrow> ('hr, 'hw) dds_router \<Rightarrow> bool" where
  "services_loop_inv r0 r \<longleftrightarrow>
     same_topics r0 r \<and> smap_ok rpc_topic_key (current_services r) \<and>
     fst ` set (current_services r) = fst ` set (current_services r0) \<and>
     (\<forall>s. rpc_bridge_of r s = None \<longleftrightarrow> service_flag r s = None)"

definition service_settled :: "('q, 's, 'hr, 'hw) router_env \<Rightarrow> ('hr, 'hw) dds_router \<Rightarrow> rpc_topic \<Rightarrow> bool" where
  "service_settled E r s \<longleftrightarrow>
     service_flag r s = Some (service_allowed E r s) \<and>
     (\<forall>b. rpc_bridge_of r s = Some b \<longrightarrow> rpc_enabled b \<longrightarrow> service_allowed E r s)"

lemma reload_service_effect:
  assumes "reload_service E (s, v) r = Inr r'"
  shows "same_topics r r'"
    and "current_services r' = smap_set rpc_topic_key s (service_allowed E r s) (current_services r)"
    and "service_settled E r' s"
    and "\<And>u. rpc_topic_key u \<noteq> rpc_topic_key s \<Longrightarrow> rpc_bridge_of r' u = rpc_bridge_of r u"
    and "\<And>u. rpc_topic_key u = rpc_topic_key s \<Longrightarrow> rpc_bridge_of r' u \<noteq> None \<and> rpc_bridge_of r u \<noteq> None"
proof -
  let ?ok = "service_allowed E r s"
  let ?r1 = "r\<lparr>current_services := smap_set rpc_topic_key s ?ok (current_services r)\<rparr>"
  let ?f = "\<lambda>bw. Inr (if ?ok then rpc_bridge_enable (re_rtps E) bw else rpc_bridge_disable bw)"
  have call: "call_rpc_bridge s ?f ?r1 = Inr r'"
    using assms by (auto simp: reload_service_def Let_def enable_rpc_bridge_def disable_rpc_bridge_def
        split: if_splits)
  then obtain b b' w' where e: "rpc_bridge_of ?r1 s = Some b"
      "(if ?ok then rpc_bridge_enable (re_rtps E) (b, rt_world ?r1) else rpc_bridge_disable (b, rt_world ?r1)) = (b', w')"
      "same_topics ?r1 r'" "current_services r' = current_services ?r1"
      "\<And>u. rpc_bridge_of r' u =
         (if rpc_topic_key u = rpc_topic_key s then Some b' else rpc_bridge_of ?r1 u)"
    using call_rpc_bridge_effect [OF call] by auto
  have off: "\<not> ?ok \<Longrightarrow> \<not> rpc_enabled b'" using e(2) rpc_disable_off by auto
  have br1: "rpc_bridge_of ?r1 = rpc_bridge_of r" by (simp add: rpc_bridge_of_def fun_eq_iff)
  show "same_topics r r'" using e(3) by (simp add: same_topics_def)
  show "current_services r' = smap_set rpc_topic_key s ?ok (current_services r)" using e(4) by simp
  have "allowed_topics r' = allowed_topics r" using e(3) by (simp add: same_topics_def)
  then show "service_settled E r' s"
    using e(4,5) off by (auto simp: service_settled_def service_flag_def)
  show "rpc_bridge_of r' u = rpc_bridge_of r u" if "rpc_topic_key u \<noteq> rpc_topic_key s" for u
    using e(5) that br1 by simp
  show "rpc_bridge_of r' u \<noteq> None \<and> rpc_bridge_of r u \<noteq> None" if "rpc_topic_key u = rpc_topic_key s" for u
    using e(1,5) that br1 smap_find_same_key [of rpc_topic_key u s "rpc_bridges r"] by (simp add: rpc_bridge_of_def)
qed

lemma reload_service_keeps:
  assumes "reload_service E (s, v) r = Inr r'" and "services_loop_inv r0 r"
    and "s \<in> fst ` set (current_services r0)"
  shows "services_loop_inv r0 r'"
proof -
  note e = reload_service_effect [OF assms(1)]
  have i: "smap_ok rpc_topic_key (current_services r)" "s \<in> fst ` set (current_services r)"
      "fst ` set (current_services r) = fst ` set (current_services r0)" "same_topics r0 r"
    using assms(2,3) by (auto simp: services_loop_inv_def)
  then have "smap_find rpc_topic_key s (current_services r) \<noteq> None"
    by (intro smap_in_keys_find) (simp add: smap_keys_def)
  with i e(2) have "fst ` set (current_services r') = fst ` set (current_services r0)"
    using smap_set_known [of rpc_topic_key "current_services r" s] by simp
  moreover have "rpc_bridge_of r' u = None \<longleftrightarrow> service_flag r' u = None" for u
    using e(4,5) [of u] assms(2) e(2)
    by (cases "rpc_topic_key u = rpc_topic_key s") (auto simp: services_loop_inv_def service_flag_def)
  ultimately show ?thesis
    using i e(1,2) by (simp add: services_loop_inv_def same_topics_def)
qed

lemma reload_services_ok:
  assumes "rfold (reload_service E) (current_services r) r = Inr r'"
    and "services_loop_inv r r"
  shows "same_topics r r' \<and> services_ok E r' \<and> smap_ok rpc_topic_key (current_services r')"
proof -
  let ?k = "rpc_topic_key \<circ> fst :: rpc_topic \<times> bool \<Rightarrow> _"
  have "services_loop_inv r r' \<and> (\<forall>x\<in>set (current_services r). service_settled E r' (fst x))"
  proof (rule rfold_establishes [where k = ?k and P = "\<lambda>x s. True" and I = "services_loop_inv r"])
    show "distinct (map ?k (current_services r))"
      using assms(2) smap_ok_distinct by (auto simp: services_loop_inv_def)
    fix x s s'
    assume x: "x \<in> set (current_services r)" and I: "services_loop_inv r s"
      and f: "reload_service E x s = Inr s'"
    note e = reload_service_effect [of E "fst x" "snd x" s s', simplified, OF f]
    have "service_settled E s' (fst y)"
      if "rpc_topic_key (fst y) \<noteq> rpc_topic_key (fst x)" "service_settled E s (fst y)" for y :: "rpc_topic \<times> bool"
      using that e(1,2) e(4) [OF that(1)] by (simp add: service_settled_def service_flag_def same_topics_def)
    with e(3) reload_service_keeps [of E "fst x" "snd x" s s' r] f I x
    show "services_loop_inv r s' \<and> service_settled E s' (fst x) \<and>
      (\<forall>y\<in>set (current_services r). ?k y \<noteq> ?k x \<longrightarrow> (True \<longrightarrow> True) \<and>
        (service_settled E s (fst y) \<longrightarrow> service_settled E s' (fst y)))" by auto
  qed (use assms in auto)
  then have li: "services_loop_inv r r'" and st: "\<forall>s\<in>fst ` set (current_services r'). service_settled E r' s"
    by (auto simp: services_loop_inv_def)
  have "service_flag r' s = Some True" if "rpc_bridge_of r' s = Some b" "rpc_enabled b" for s b
  proof -
    have "service_flag r' s \<noteq> None" using li that(1) unfolding services_loop_inv_def by (metis option.distinct(1))
    then obtain s' v where s': "rpc_topic_key s' = rpc_topic_key s" "(s', v) \<in> set (current_services r')"
      using smap_find_SomeD by (metis not_None_eq service_flag_def)
    then have "service_settled E r' s'" using st by force
    with that show ?thesis
      using smap_find_same_key [of rpc_topic_key s' s "current_services r'"]
        smap_find_same_key [of rpc_topic_key s' s "rpc_bridges r'"] s'(1)
      by (auto simp: service_settled_def service_flag_def rpc_bridge_of_def)
  qed
  with li st show ?thesis
    by (auto simp: services_ok_def services_loop_inv_def service_settled_def)
qed

lemma reload_configuration_ok:
  assumes "reload_configuration E new r = Inr (ret, r')" and "router_ok E r"
  shows "router_ok E r' \<and> rt_enabled r' = rt_enabled r \<and>
    (ret = RETCODE_OK \<longrightarrow>
       allowed_topics r' = allowed_topic_list_of (pointees (cfg_allowlist new)) (pointees (cfg_blocklist new)) \<and>
       rt_configuration r' = configuration_reload new (rt_configuration r))"
proof (cases "ret = RETCODE_OK")
  case False
  with assms show ?thesis
    by (auto simp: reload_configuration_def Let_def rbind_eq_Inr_iff split: if_splits)
next
  case True
  let ?l = "allowed_topic_list_of (pointees (cfg_allowlist new)) (pointees (cfg_blocklist new))"
  obtain r1 r2 r3 where en: "rt_enabled r"
    and r1: "rfold (reload_topic E) (current_topics r) (r\<lparr>allowed_topics := ?l\<rparr>) = Inr r1"
    and r2: "rfold (discovered_topic E) (new_builtin_topics new r) r1 = Inr r2"
    and r3: "rfold (reload_service E) (current_services r2) r2 = Inr r3"
    and r': "r' = r3\<lparr>rt_configuration := configuration_reload new (rt_configuration r3)\<rparr>"
    using assms(1) True by (auto simp: reload_configuration_def Let_def rbind_eq_Inr_iff split: if_splits)
  have a: "loop_inv (r\<lparr>allowed_topics := ?l\<rparr>) r1" "topics_ok E r1"
    using reload_topics_ok [OF r1] assms(2) en by (auto simp: router_ok_def)
  have b: "maps_ok r2" "topics_ok E r2" "same_frame r1 r2"
    using rfold_discovered_ok [OF r2] a by (auto simp: loop_inv_def)
  have same: "current_services r2 = current_services r" "rpc_bridges r2 = rpc_bridges r" "rt_enabled r2"
    using a(1) b(3) en by (auto simp: loop_inv_def same_frame_def)
  have "services_loop_inv r2 r2"
    using same assms(2) by (simp add: services_loop_inv_def router_ok_def maps_ok_def services_ok_def
        same_topics_def rpc_bridge_of_def service_flag_def)
  from reload_services_ok [OF r3 this]
  have c: "same_topics r2 r3" "services_ok E r3" "smap_ok rpc_topic_key (current_services r3)" by auto
  have "topics_ok E r3" using topics_ok_fields [of r3 r2 E] b(2) c(1) by (simp add: same_topics_def)
  moreover have "maps_ok r3" using b(1) c by (simp add: maps_ok_def same_topics_def topic_flag_def bridge_of_def)
  ultimately have "router_ok E r3" using c(2) by (simp add: router_ok_def)
  then have "router_ok E r'"
    unfolding router_ok_def r' using topics_ok_fields [of r' r3 E] services_ok_fields [of r' r3 E]
      maps_ok_fields [of r' r3] r' by simp
  moreover have "allowed_topics r3 = ?l" "rt_configuration r3 = rt_configuration r"
    using a(1) b(3) c(1) by (simp_all add: loop_inv_def same_frame_def same_topics_def)
  ultimately show ?thesis using c(1) same en r' by (simp add: same_topics_def)
qed

lemma router_new_ok:
  assumes "router_new E c = Some (Inr r)"
  shows "router_ok E r \<and> \<not> rt_enabled r \<and> bridges r = [] \<and> rpc_bridges r = []"
proof -
  obtain db where init: "init_bridges E
     \<lparr>rt_world = \<lparr>w_participants = db, w_store = object_store_empty, w_next_task = 0, w_emitted = []\<rparr>,
      bridges = [], rpc_bridges = [], current_topics = [], current_services = [],
      allowed_topics = init_allowed_topics c, rt_configuration = c, rt_enabled = False,
      thread_pool_enabled = False,
      default_history_depth = max_history_depth (advanced_options c)\<rparr> = Inr r" (is "init_bridges E ?r0 = _")
    using assms by (auto simp: router_new_def obind_def split: if_splits option.splits sum.splits)
  have z: "router_ok E ?r0"
    by (simp add: router_ok_def maps_ok_def topics_ok_def services_ok_def topic_flag_def bridge_of_def
        service_flag_def rpc_bridge_of_def)
  from init have f: "rfold (discovered_topic E) (pointees (cfg_builtin_topics c)) ?r0 = Inr r"
    by (simp add: init_bridges_def)
  have "bridges r' = [] \<and> \<not> rt_enabled r'"
    if "rfold (discovered_topic E) ts q = Inr r'" "\<not> rt_enabled q" "bridges q = []" for ts q r'
    using that
    by (induction ts arbitrary: q) (auto simp: rbind_eq_Inr_iff discovered_topic_def Let_def split: option.splits)
  from this [OF f] rfold_discovered_ok [OF f] z router_ok_same_frame [of ?r0 r E]
  show ?thesis by (auto simp: router_ok_def same_frame_def)
qed

section \<open>The router as a transition system\<close>

inductive router_step ::
    "('q, 's, 'hr, 'hw) router_env \<Rightarrow> ('hr, 'hw) dds_router \<Rightarrow> ('hr, 'hw) dds_router \<Rightarrow> bool"
  for E :: "('q, 's, 'hr, 'hw) router_env" where
  step_router_start: "router_start E r = Inr (ret, r') \<Longrightarrow> router_step E r r'"
| step_router_stop: "router_stop r = Inr (ret, r') \<Longrightarrow> router_step E r r'"
| step_router_reload:
    "reload_configuration E (new :: reload_configuration) r = Inr (ret, r') \<Longrightarrow> router_step E r r'"
| step_router_discovered: "discovered_endpoint E e r = Inr r' \<Longrightarrow> router_step E r r'"
| step_router_removed: "removed_endpoint e r = Inr r' \<Longrightarrow> router_step E r r'"

inductive_cases router_stepE: "router_step E r r'"

definition router_init :: "('q, 's, 'hr, 'hw) router_env \<Rightarrow> ('hr, 'hw) dds_router \<Rightarrow> bool" where
  "router_init E r \<longleftrightarrow> (\<exists>c. router_new E c = Some (Inr r))"

interpretation router_system: invariant_system "router_init E" "router_step E" "router_ok E"
  for E :: "('q, 's, 'hr, 'hw) router_env"
proof
  show "router_init E r \<Longrightarrow> router_ok E r" for r
    using router_new_ok by (auto simp: router_init_def)
  show "router_ok E r \<Longrightarrow> router_step E r r' \<Longrightarrow> router_ok E r'" for r r'
    by (erule router_stepE)
      (auto dest: router_start_ok router_stop_ok [where E = E] reload_configuration_ok
        discovered_endpoint_ok removed_endpoint_ok)
qed

lemma router_ok_facts:
  assumes ok: "router_ok E r"
  shows "(\<forall>(t, active)\<in>set (current_topics r).
       active = (rt_enabled r \<and> is_topic_allowed (re_match_pattern E) (allowed_topics r) t)) \<and>
    (\<forall>t b. smap_find dds_topic_key t (bridges r) = Some (Some b) \<longrightarrow>
       smap_find dds_topic_key t (current_topics r) = Some (brg_enabled b)) \<and>
    (\<forall>(s, ok)\<in>set (current_services r). ok = is_service_allowed (re_match_pattern E) (allowed_topics r) s) \<and>
    (\<forall>s. smap_find rpc_topic_key s (rpc_bridges r) = None \<longleftrightarrow> smap_find rpc_topic_key s (current_services r) = None) \<and>
    (\<forall>s b. smap_find rpc_topic_key s (rpc_bridges r) = Some b \<and> rpc_enabled b \<longrightarrow>
       smap_find rpc_topic_key s (current_services r) = Some True)"
proof -
  have flag: "topic_flag r t = Some a" if "(t, a) \<in> set (current_topics r)" for t a
    using ok that by (simp add: topic_flag_def router_ok_def maps_ok_def smap_find_in_ok)
  have act: "a = (rt_enabled r \<and> allowed E r t)" if "(t, a) \<in> set (current_topics r)" for t a
    using ok flag [OF that] that by (force simp: router_ok_def topics_ok_def)
  have br: "topic_flag r t = Some (brg_enabled b)" if "bridge_of r t = Some (Some b)" for t b
  proof -
    have "topic_flag r t \<noteq> None" using ok that by (auto simp: router_ok_def maps_ok_def)
    then obtain t' a where t': "dds_topic_key t' = dds_topic_key t" "(t', a) \<in> set (current_topics r)"
      using smap_find_SomeD by (metis not_None_eq topic_flag_def)
    have "topic_flag r t' = topic_flag r t" "bridge_of r t' = bridge_of r t"
      using smap_find_same_key [of dds_topic_key t' t "current_topics r"]
        smap_find_same_key [of dds_topic_key t' t "bridges r"] t'(1) by (simp_all add: topic_flag_def bridge_of_def)
    moreover have "bridge_sync r t'" using ok t'(2) by (force simp: router_ok_def topics_ok_def)
    ultimately show ?thesis using that flag [OF t'(2)] by (cases a) (auto simp: bridge_sync_def)
  qed
  have sv: "a = service_allowed E r s" if "(s, a) \<in> set (current_services r)" for s a
  proof -
    have "service_flag r s = Some a"
      using ok that by (simp add: service_flag_def router_ok_def maps_ok_def smap_find_in_ok)
    with ok that show ?thesis by (force simp: router_ok_def services_ok_def)
  qed
  show ?thesis
    using act br sv ok
    by (auto simp: router_ok_def services_ok_def topic_flag_def bridge_of_def service_flag_def rpc_bridge_of_def)
qed

section \<open>Properties\<close>

text \<open>
  C1. Whatever the application and the discovery do with a router, and in whatever order, its state
  stays consistent: a known topic is marked active exactly when the router runs and the filters in
  force allow it; a bridge belongs to a known topic and is enabled exactly when that topic is marked
  active; a known service carries the verdict of the filters, it has an RPC bridge, no other service
  has one, and an enabled RPC bridge belongs to an allowed service.
\<close>

theorem router_state_stays_consistent:
  assumes "reachable (router_init E) (router_step E) r"
  shows "(\<forall>(t, active)\<in>set (current_topics r).
       active = (rt_enabled r \<and> is_topic_allowed (re_match_pattern E) (allowed_topics r) t)) \<and>
    (\<forall>t b. smap_find dds_topic_key t (bridges r) = Some (Some b) \<longrightarrow>
       smap_find dds_topic_key t (current_topics r) = Some (brg_enabled b)) \<and>
    (\<forall>(s, ok)\<in>set (current_services r). ok = is_service_allowed (re_match_pattern E) (allowed_topics r) s) \<and>
    (\<forall>s. smap_find rpc_topic_key s (rpc_bridges r) = None \<longleftrightarrow> smap_find rpc_topic_key s (current_services r) = None) \<and>
    (\<forall>s b. smap_find rpc_topic_key s (rpc_bridges r) = Some b \<and> rpc_enabled b \<longrightarrow>
       smap_find rpc_topic_key s (current_services r) = Some True)"
  by (rule router_ok_facts [OF router_system.reachable_inv [OF assms]])

definition sample_router_env :: "(unit, unit, unit, unit) router_env" where
  "sample_router_env =
     \<lparr>re_rtps = sample_env, re_match_pattern = (\<lambda>pattern s. pattern = s), re_set_of_ptr_equal = (\<lambda>a b. set a = set b),
      re_ip_locator = sample_locator, re_create_rtps = (\<lambda>d a. True), lhs_first = True\<rparr>"

lemma sample_router_runs:
  "\<exists>r r'. router_new sample_router_env sample_router_configuration = Some (Inr r) \<and>
     router_start sample_router_env r = Inr (RETCODE_OK, r') \<and> current_topics r' \<noteq> [] \<and> bridges r' \<noteq> []"
proof -
  have "case router_new sample_router_env sample_router_configuration of
      Some (Inr r) \<Rightarrow> (case router_start sample_router_env r of
         Inr (ret, r') \<Rightarrow> ret = RETCODE_OK \<and> current_topics r' \<noteq> [] \<and> bridges r' \<noteq> [] | _ \<Rightarrow> False)
    | _ \<Rightarrow> False"
    by code_simp
  then show ?thesis by (auto split: option.splits sum.splits)
qed

theorem router_state_stays_consistent_witness:
  "\<exists>r. reachable (router_init sample_router_env) (router_step sample_router_env) r \<and> bridges r \<noteq> [] \<and>
     (\<forall>(t, active)\<in>set (current_topics r).
       active = (rt_enabled r \<and> is_topic_allowed (re_match_pattern sample_router_env) (allowed_topics r) t))"
proof -
  obtain r r' where r: "router_new sample_router_env sample_router_configuration = Some (Inr r)"
    "router_start sample_router_env r = Inr (RETCODE_OK, r')" "bridges r' \<noteq> []"
    using sample_router_runs by blast
  have "router_init sample_router_env r" using r(1) by (auto simp: router_init_def)
  then have "reachable (router_init sample_router_env) (router_step sample_router_env) r'"
    by (rule reach_step [OF reach_init]) (rule step_router_start [OF r(2)])
  with router_state_stays_consistent [OF this] r(3) show ?thesis by blast
qed

end
