(* ===== verification/Router_Ownership.thy ===== *)
theory Router_Ownership
  imports Bridge_System Router_Invariant "HOL-Library.Multiset"
begin

text \<open>
  The router (\<^verbatim>\<open>core/DDSRouterImpl\<close>) as one of the runs of the system of bridges: every operation of the router
  is a sequence of creations, switches and destructions of bridges, so that what is shown there about the owners
  of endpoints holds for the router.
\<close>

section \<open>The bridges of a router\<close>

definition dds_entry :: "dds_bridge option \<Rightarrow> bridge multiset" where
  "dds_entry v = (case v of None \<Rightarrow> {#} | Some b \<Rightarrow> {#B_dds b#})"

definition dds_entries :: "(dds_topic, dds_bridge option) smap \<Rightarrow> bridge multiset" where
  "dds_entries m = (\<Sum>v\<in>#mset (map snd m). dds_entry v)"

definition rpc_entries :: "(rpc_topic, rpc_bridge) smap \<Rightarrow> bridge multiset" where
  "rpc_entries m = image_mset B_rpc (mset (map snd m))"

definition router_bridges :: "('hr, 'hw) dds_router \<Rightarrow> bridge multiset" where
  "router_bridges r = dds_entries (bridges r) + rpc_entries (rpc_bridges r)"

definition router_view :: "('hr, 'hw) dds_router \<Rightarrow> ('hr, 'hw) bridge_sys \<Rightarrow> bool" where
  "router_view r s \<longleftrightarrow> sys_world s = rt_world r \<and> mset (sys_bridges s) = router_bridges r \<and>
     smap_ok dds_topic_key (bridges r) \<and> smap_ok rpc_topic_key (rpc_bridges r)"

section \<open>Changes of a map\<close>

lemma mset_smap_set_new:
  "smap_find key k m = None \<Longrightarrow> mset (map snd (smap_set key k v m)) = add_mset v (mset (map snd m))"
  by (induction m) (auto split: if_splits)

lemma mset_smap_set_known:
  assumes "smap_ok key m" and "smap_find key k m = Some v"
  obtains M where "mset (map snd m) = add_mset v M"
    and "\<And>u. mset (map snd (smap_set key k u m)) = add_mset u M"
proof -
  have "\<exists>M. mset (map snd m) = add_mset v M \<and> (\<forall>u. mset (map snd (smap_set key k u m)) = add_mset u M)"
    using assms
  proof (induction m)
    case (Cons e m)
    obtain k' v' where e: "e = (k', v')" by fastforce
    show ?case
    proof (cases "key k = key k'")
      case True
      with Cons.prems(2) show ?thesis by (auto simp: e)
    next
      case False
      then have f: "smap_find key k m = Some v" and ok: "smap_ok key m" using Cons.prems by (auto simp: e smap_ok_Cons)
      then obtain k1 where "key k1 = key k" "(k1, v) \<in> set m" using smap_find_SomeD [of key k m v] by blast
      then have "\<not> key k < key k'" using Cons.prems(1) by (fastforce simp: e smap_ok_Cons)
      moreover obtain M where "mset (map snd m) = add_mset v M" "\<forall>u. mset (map snd (smap_set key k u m)) = add_mset u M"
        using Cons.IH [OF ok f] by blast
      ultimately show ?thesis using False by (intro exI [of _ "add_mset v' M"]) (auto simp: e)
    qed
  qed simp
  then show thesis using that by blast
qed

lemma dds_entries_new: "smap_find dds_topic_key t m = None \<Longrightarrow> dds_entries (smap_set dds_topic_key t v m) = dds_entry v + dds_entries m"
  unfolding dds_entries_def by (subst mset_smap_set_new) simp_all

lemma dds_entries_known:
  assumes "smap_ok dds_topic_key m" and "smap_find dds_topic_key t m = Some v"
  obtains M where "dds_entries m = dds_entry v + M" and "\<And>u. dds_entries (smap_set dds_topic_key t u m) = dds_entry u + M"
  using mset_smap_set_known [OF assms] by (metis dds_entries_def image_mset_add_mset sum_mset.insert)

lemma rpc_entries_new: "smap_find rpc_topic_key t m = None \<Longrightarrow> rpc_entries (smap_set rpc_topic_key t b m) = add_mset (B_rpc b) (rpc_entries m)"
  unfolding rpc_entries_def by (subst mset_smap_set_new) simp_all

lemma rpc_entries_known:
  assumes "smap_ok rpc_topic_key m" and "smap_find rpc_topic_key t m = Some b"
  obtains M where "rpc_entries m = add_mset (B_rpc b) M" and "\<And>c. rpc_entries (smap_set rpc_topic_key t c m) = add_mset (B_rpc c) M"
  using mset_smap_set_known [OF assms] by (metis rpc_entries_def image_mset_add_mset)

lemma mset_split:
  assumes "mset l = add_mset x M"
  obtains xs ys where "l = xs @ x # ys" and "mset (xs @ ys) = M"
proof -
  have "x \<in> set l" using assms by (metis union_single_eq_member set_mset_mset)
  then obtain xs ys where "l = xs @ x # ys" by (auto dest: split_list)
  with assms that show thesis by simp
qed


section \<open>Simulation\<close>

text \<open>An operation of the router that returns is a run of the system of bridges; so is a loop over it.\<close>

definition simulates ::
    "('q, 's, 'hr, 'hw) router_env \<Rightarrow> ('hr, 'hw) dds_router \<Rightarrow> ('hr, 'hw) dds_router \<Rightarrow> bool" where
  "simulates E r r' \<longleftrightarrow>
     (\<forall>s. router_view r s \<longrightarrow> (\<exists>s'. steps (bridge_step (re_rtps E)) s s' \<and> router_view r' s'))"

lemma simulates_trans:
  assumes "simulates E r r1" and "simulates E r1 r2"
  shows "simulates E r r2"
  unfolding simulates_def
proof (intro allI impI)
  fix s
  assume "router_view r s"
  then obtain s1 where s1: "steps (bridge_step (re_rtps E)) s s1" "router_view r1 s1"
    using assms(1) unfolding simulates_def by blast
  then obtain s2 where s2: "steps (bridge_step (re_rtps E)) s1 s2" "router_view r2 s2"
    using assms(2) unfolding simulates_def by blast
  from steps_trans [OF s2(1) s1(1)] s2(2) show "\<exists>s'. steps (bridge_step (re_rtps E)) s s' \<and> router_view r2 s'" by blast
qed

text \<open>Fields of the router that are not bridges do not matter.\<close>

lemma simulates_same:
  "rt_world r' = rt_world r \<Longrightarrow> bridges r' = bridges r \<Longrightarrow> rpc_bridges r' = rpc_bridges r \<Longrightarrow> simulates E r r'"
  unfolding simulates_def router_view_def router_bridges_def by (metis steps_refl)

lemma simulates_one:
  assumes "\<And>s. router_view r s \<Longrightarrow> \<exists>s'. bridge_step (re_rtps E) s s' \<and> router_view r' s'"
  shows "simulates E r r'"
  unfolding simulates_def using assms steps_one by meson

locale simulated_operation =
  fixes E :: "('q, 's, 'hr, 'hw) router_env"
    and f :: "'x \<Rightarrow> ('hr, 'hw) dds_router \<Rightarrow> ('hr, 'hw) dds_router result"
  assumes simulated: "f x r = Inr r' \<Longrightarrow> simulates E r r'"
begin

lemma loop_simulated: "rfold f xs r = Inr r' \<Longrightarrow> simulates E r r'"
proof (induction xs arbitrary: r)
  case Nil
  then show ?case by (simp add: simulates_same)
next
  case (Cons x xs)
  then obtain r1 where "f x r = Inr r1" "rfold f xs r1 = Inr r'" by (auto simp: rbind_eq_Inr_iff)
  with Cons.IH simulated show ?case using simulates_trans by blast
qed

end

section \<open>Topics\<close>

lemma create_new_bridge_simulated:
  assumes new: "create_new_bridge E topic enable r = Inr r'" and none: "smap_find dds_topic_key topic (bridges r) = None"
  shows "simulates E r r'"
proof (rule simulates_one)
  fix s
  assume v: "router_view r s"
  obtain res w where c: "dds_bridge_new (re_rtps E) topic enable (rt_world r) = (res, w)" by (metis surj_pair)
  show "\<exists>s'. bridge_step (re_rtps E) s s' \<and> router_view r' s'"
  proof (cases res)
    case (Inl e)
    then have r': "r' = r\<lparr>rt_world := w, bridges := (if lhs_first E then smap_emplace dds_topic_key topic None (bridges r) else bridges r)\<rparr>"
      using new c by (auto simp: create_new_bridge_def split: if_splits)
    have "dds_entries (smap_emplace dds_topic_key topic None (bridges r)) = dds_entries (bridges r)"
      using none by (simp add: smap_emplace_def dds_entries_new dds_entry_def)
    with v r' dds_failed [of "re_rtps E" topic enable s e w] c Inl show ?thesis
      by (intro exI [of _ "s\<lparr>sys_world := w, sys_left := sys_left s \<union> (registered w - registered (sys_world s))\<rparr>"])
        (simp add: router_view_def router_bridges_def)
  next
    case (Inr b)
    then have r': "r' = r\<lparr>rt_world := w, bridges := smap_set dds_topic_key topic (Some b) (bridges r)\<rparr>"
      using new c none by (simp add: create_new_bridge_def)
    with v dds_created [of "re_rtps E" topic enable s b w] c Inr none show ?thesis
      by (intro exI [of _ "s\<lparr>sys_bridges := B_dds b # sys_bridges s, sys_world := w\<rparr>"])
        (simp add: router_view_def router_bridges_def dds_entries_new dds_entry_def)
  qed
qed

lemma switch_bridge_simulated:
  assumes found: "smap_find dds_topic_key topic (bridges r) = Some (Some b)"
    and c: "(b', w') = (if c then dds_bridge_enable (b, rt_world r) else dds_bridge_disable (b, rt_world r))"
  shows "simulates E r (r\<lparr>rt_world := w', bridges := smap_set dds_topic_key topic (Some b') (bridges r)\<rparr>)"
proof (rule simulates_one)
  fix s
  assume v: "router_view r s"
  then have "smap_ok dds_topic_key (bridges r)" by (simp add: router_view_def)
  from dds_entries_known [OF this found] obtain M where M: "dds_entries (bridges r) = dds_entry (Some b) + M"
    "\<And>u. dds_entries (smap_set dds_topic_key topic u (bridges r)) = dds_entry u + M" by blast
  then have "mset (sys_bridges s) = add_mset (B_dds b) (M + rpc_entries (rpc_bridges r))"
    using v by (simp add: router_view_def router_bridges_def dds_entry_def)
  then obtain xs ys where xs: "sys_bridges s = xs @ B_dds b # ys" "mset (xs @ ys) = M + rpc_entries (rpc_bridges r)"
    by (rule mset_split)
  then show "\<exists>s'. bridge_step (re_rtps E) s s' \<and>
      router_view (r\<lparr>rt_world := w', bridges := smap_set dds_topic_key topic (Some b') (bridges r)\<rparr>) s'"
    using dds_switched [OF xs(1), of b' w' c "re_rtps E"] c v M(2)
    by (intro exI [of _ "s\<lparr>sys_bridges := xs @ B_dds b' # ys, sys_world := w'\<rparr>"])
      (simp add: router_view_def router_bridges_def dds_entry_def)
qed


lemma activate_topic_simulated:
  assumes "activate_topic E topic r = Inr r'"
  shows "simulates E r r'"
proof -
  let ?r = "r\<lparr>current_topics := smap_set dds_topic_key topic True (current_topics r)\<rparr>"
  have "simulates E ?r r'"
  proof (cases "smap_find dds_topic_key topic (bridges r)")
    case None
    with assms show ?thesis by (intro create_new_bridge_simulated) (simp_all add: activate_topic_def Let_def)
  next
    case (Some v)
    then obtain b where b: "smap_find dds_topic_key topic (bridges r) = Some (Some b)"
      using assms by (cases v) (simp_all add: activate_topic_def Let_def)
    obtain b' w' where e: "dds_bridge_enable (b, rt_world r) = (b', w')" by (metis surj_pair)
    have "r' = ?r\<lparr>rt_world := w', bridges := smap_set dds_topic_key topic (Some b') (bridges ?r)\<rparr>"
      using assms b e by (simp add: activate_topic_def Let_def)
    with switch_bridge_simulated [of topic ?r b b' w' True E] b e show ?thesis by simp
  qed
  with simulates_trans [OF simulates_same this] show ?thesis by simp
qed

lemma deactivate_topic_simulated:
  assumes "deactivate_topic topic r = Inr r'"
  shows "simulates E r r'"
proof -
  let ?r = "r\<lparr>current_topics := smap_set dds_topic_key topic False (current_topics r)\<rparr>"
  have "simulates E ?r r'"
  proof (cases "smap_find dds_topic_key topic (bridges r)")
    case None
    with assms show ?thesis by (intro simulates_same) (auto simp: deactivate_topic_def Let_def)
  next
    case (Some v)
    then obtain b where b: "smap_find dds_topic_key topic (bridges r) = Some (Some b)"
      using assms by (cases v) (simp_all add: deactivate_topic_def Let_def)
    obtain b' w' where e: "dds_bridge_disable (b, rt_world r) = (b', w')" by (metis surj_pair)
    have "r' = ?r\<lparr>rt_world := w', bridges := smap_set dds_topic_key topic (Some b') (bridges ?r)\<rparr>"
      using assms b e by (simp add: deactivate_topic_def Let_def)
    with switch_bridge_simulated [of topic ?r b b' w' False E] b e show ?thesis by simp
  qed
  with simulates_trans [OF simulates_same this] show ?thesis by simp
qed

lemma discovered_topic_simulated:
  assumes "discovered_topic E topic r = Inr r'"
  shows "simulates E r r'"
proof (cases "smap_find dds_topic_key topic (current_topics r)")
  case None
  let ?r = "r\<lparr>current_topics := smap_emplace dds_topic_key topic False (current_topics r)\<rparr>"
  have "simulates E r ?r" by (rule simulates_same) simp_all
  moreover have "r' = ?r \<or> activate_topic E topic ?r = Inr r'"
    using assms None by (auto simp: discovered_topic_def Let_def split: if_splits)
  ultimately show ?thesis using activate_topic_simulated simulates_trans by blast
next
  case (Some v)
  with assms show ?thesis by (intro simulates_same) (simp_all add: discovered_topic_def)
qed

lemma reload_topic_simulated: "reload_topic E it r = Inr r' \<Longrightarrow> simulates E r r'"
  by (auto simp: reload_topic_def split: if_splits
      intro: activate_topic_simulated deactivate_topic_simulated simulates_same)

interpretation activation: simulated_operation E "\<lambda>it r. if allowed E r (fst it) then activate_topic E (fst it) r else Inr r"
  for E :: "('q, 's, 'hr, 'hw) router_env"
  by unfold_locales (auto split: if_splits intro: activate_topic_simulated simulates_same)

interpretation deactivation: simulated_operation E "\<lambda>it. deactivate_topic (fst it)"
  for E :: "('q, 's, 'hr, 'hw) router_env"
  by unfold_locales (rule deactivate_topic_simulated)

interpretation discovery: simulated_operation E "discovered_topic E"
  for E :: "('q, 's, 'hr, 'hw) router_env"
  by unfold_locales (rule discovered_topic_simulated)

interpretation topic_reload: simulated_operation E "reload_topic E"
  for E :: "('q, 's, 'hr, 'hw) router_env"
  by unfold_locales (rule reload_topic_simulated)

section \<open>Services\<close>

lemma call_rpc_bridge_simulated:
  assumes call: "call_rpc_bridge topic f r = Inr r'"
    and f: "\<And>bw bw'. f bw = Inr bw' \<Longrightarrow> rpc_operation (re_rtps E) bw bw'"
  shows "simulates E r r'"
proof (rule simulates_one)
  fix s
  assume v: "router_view r s"
  obtain b b' w' where b: "smap_find rpc_topic_key topic (rpc_bridges r) = Some b" "f (b, rt_world r) = Inr (b', w')"
    and r': "r' = r\<lparr>rt_world := w', rpc_bridges := smap_set rpc_topic_key topic b' (rpc_bridges r)\<rparr>"
    using call by (auto simp: call_rpc_bridge_def rbind_eq_Inr_iff split: option.splits)
  have "smap_ok rpc_topic_key (rpc_bridges r)" using v by (simp add: router_view_def)
  from rpc_entries_known [OF this b(1)] obtain M where M: "rpc_entries (rpc_bridges r) = add_mset (B_rpc b) M"
    "\<And>c. rpc_entries (smap_set rpc_topic_key topic c (rpc_bridges r)) = add_mset (B_rpc c) M" by blast
  then have "mset (sys_bridges s) = add_mset (B_rpc b) (dds_entries (bridges r) + M)"
    using v by (simp add: router_view_def router_bridges_def)
  then obtain xs ys where xs: "sys_bridges s = xs @ B_rpc b # ys" "mset (xs @ ys) = dds_entries (bridges r) + M"
    by (rule mset_split)
  with rpc_operated [OF xs(1), of "re_rtps E" b' w'] f [OF b(2)] v M(2) r'
  show "\<exists>s'. bridge_step (re_rtps E) s s' \<and> router_view r' s'"
    by (intro exI [of _ "s\<lparr>sys_bridges := xs @ B_rpc b' # ys, sys_world := w'\<rparr>"])
      (simp add: router_view_def router_bridges_def)
qed

lemma switch_service_simulated:
  "enable_rpc_bridge E topic r = Inr r' \<Longrightarrow> simulates E r r'" "disable_rpc_bridge topic r = Inr r' \<Longrightarrow> simulates E r r'"
  unfolding enable_rpc_bridge_def disable_rpc_bridge_def
  by (erule call_rpc_bridge_simulated; auto simp: rpc_operation_def)+

lemma create_new_service_simulated:
  assumes "smap_find rpc_topic_key topic (rpc_bridges r) = None"
  shows "simulates E r (create_new_service topic r)"
proof (rule simulates_one)
  fix s
  assume "router_view r s"
  with rpc_created [of "re_rtps E" s topic] rpc_entries_new [OF assms]
  show "\<exists>s'. bridge_step (re_rtps E) s s' \<and> router_view (create_new_service topic r) s'"
    by (intro exI [of _ "s\<lparr>sys_bridges := B_rpc (rpc_bridge_new topic) # sys_bridges s\<rparr>"])
      (simp add: router_view_def router_bridges_def create_new_service_def)
qed


lemma router_discovered_service_simulated:
  assumes "router_discovered_service E topic pid g r = Inr r'"
  shows "simulates E r r'"
proof -
  let ?r0 = "create_new_service topic r"
  let ?r1 = "case smap_find rpc_topic_key topic (rpc_bridges r) of Some _ \<Rightarrow> r
    | None \<Rightarrow> ?r0\<lparr>current_services := smap_set rpc_topic_key topic (service_allowed E ?r0 topic) (current_services ?r0)\<rparr>"
  have "simulates E r ?r1"
  proof (cases "smap_find rpc_topic_key topic (rpc_bridges r)")
    case None
    note create_new_service_simulated [OF None, of E]
    moreover have "simulates E ?r0 ?r1" by (rule simulates_same) (simp_all add: None)
    ultimately show ?thesis by (rule simulates_trans)
  qed (simp add: simulates_same)
  moreover obtain r2 where r2: "call_rpc_bridge topic (\<lambda>(b, w). rbind (discovered_service pid g b) (\<lambda>b'. Inr (b', w))) ?r1 = Inr r2"
    and rest: "(if rt_enabled r2 \<and> smap_find rpc_topic_key topic (current_services r2) = Some True
       then enable_rpc_bridge E topic r2 else Inr r2) = Inr r'"
    using assms unfolding router_discovered_service_def Let_def rbind_eq_Inr_iff by blast
  have "simulates E ?r1 r2"
    by (rule call_rpc_bridge_simulated [OF r2]) (auto simp: rpc_operation_def rbind_eq_Inr_iff)
  moreover have "simulates E r2 r'"
    using rest switch_service_simulated(1) [of E topic r2 r'] simulates_same [of r' r2 E] by (auto split: if_splits)
  ultimately show ?thesis using simulates_trans by blast
qed

lemma router_removed_service_simulated:
  assumes "router_removed_service topic pid g r = Inr r'"
  shows "simulates E r r'"
proof (cases "smap_find rpc_topic_key topic (rpc_bridges r)")
  case None
  with assms show ?thesis by (intro simulates_same) (simp_all add: router_removed_service_def)
next
  case (Some b)
  with assms have "call_rpc_bridge topic (\<lambda>bw. Inr (removed_service pid g bw)) r = Inr r'"
    by (simp add: router_removed_service_def)
  then show ?thesis by (rule call_rpc_bridge_simulated) (auto simp: rpc_operation_def)
qed

lemma reload_service_simulated:
  assumes "reload_service E it r = Inr r'"
  shows "simulates E r r'"
proof -
  let ?r = "r\<lparr>current_services := smap_set rpc_topic_key (fst it) (service_allowed E r (fst it)) (current_services r)\<rparr>"
  have "simulates E ?r r'"
    using assms by (auto simp: reload_service_def Let_def split: if_splits intro: switch_service_simulated)
  moreover have "simulates E r ?r" by (rule simulates_same) simp_all
  ultimately show ?thesis using simulates_trans by blast
qed

interpretation service_start: simulated_operation E "\<lambda>it r. if snd it then enable_rpc_bridge E (fst it) r else Inr r"
  for E :: "('q, 's, 'hr, 'hw) router_env"
  by unfold_locales (auto split: if_splits intro: switch_service_simulated simulates_same)

interpretation service_reload: simulated_operation E "reload_service E"
  for E :: "('q, 's, 'hr, 'hw) router_env"
  by unfold_locales (rule reload_service_simulated)

section \<open>The operations of the router\<close>

lemma discovered_endpoint_simulated: "discovered_endpoint E e r = Inr r' \<Longrightarrow> simulates E r r'"
  by (auto simp: discovered_endpoint_def Let_def rbind_eq_Inr_iff split: if_splits
      intro: discovered_topic_simulated router_discovered_service_simulated simulates_same)

lemma removed_endpoint_simulated: "removed_endpoint e r = Inr r' \<Longrightarrow> simulates E r r'"
  by (auto simp: removed_endpoint_def Let_def rbind_eq_Inr_iff split: if_splits
      intro: router_removed_service_simulated simulates_same)

lemma router_start_simulated:
  assumes "router_start E r = Inr (ret, r')"
  shows "simulates E r r'"
proof (cases "rt_enabled r")
  case False
  let ?r = "r\<lparr>rt_enabled := True, thread_pool_enabled := True\<rparr>"
  obtain r1 where r1: "activate_all_topics E ?r = Inr r1"
    and r2: "rfold (\<lambda>it r. if snd it then enable_rpc_bridge E (fst it) r else Inr r) (current_services r1) r1 = Inr r'"
    using assms False by (auto simp: router_start_def rbind_eq_Inr_iff)
  have "simulates E r ?r" by (rule simulates_same) simp_all
  from simulates_trans [OF simulates_trans [OF this activation.loop_simulated [OF r1 [unfolded activate_all_topics_def]]]
      service_start.loop_simulated [OF r2]] show ?thesis .
qed (use assms in \<open>simp add: router_start_def simulates_same\<close>)

lemma router_stop_simulated:
  assumes "router_stop r = Inr (ret, r')"
  shows "simulates E r r'"
proof (cases "rt_enabled r")
  case True
  let ?r = "r\<lparr>rt_enabled := False, thread_pool_enabled := False\<rparr>"
  have r': "deactivate_all_topics ?r = Inr r'" using assms True by (auto simp: router_stop_def rbind_eq_Inr_iff)
  have "simulates E r ?r" by (rule simulates_same) simp_all
  from simulates_trans [OF this deactivation.loop_simulated [OF r' [unfolded deactivate_all_topics_def]]] show ?thesis .
qed (use assms in \<open>simp add: router_stop_def simulates_same\<close>)

lemma reload_configuration_simulated:
  assumes "reload_configuration E new r = Inr (ret, r')"
  shows "simulates E r r'"
proof (cases "r' = r")
  case True
  then show ?thesis by (simp add: simulates_same)
next
  case False
  let ?r = "r\<lparr>allowed_topics := allowed_topic_list_of (pointees (cfg_allowlist new)) (pointees (cfg_blocklist new))\<rparr>"
  obtain r1 r2 r3 where r1: "rfold (reload_topic E) (current_topics r) ?r = Inr r1"
    and r2: "rfold (discovered_topic E) (new_builtin_topics new r) r1 = Inr r2"
    and r3: "rfold (reload_service E) (current_services r2) r2 = Inr r3"
    and r': "r' = r3\<lparr>rt_configuration := configuration_reload new (rt_configuration r3)\<rparr>"
    using assms False by (auto simp: reload_configuration_def Let_def rbind_eq_Inr_iff split: if_splits)
  have 1: "simulates E r ?r" by (rule simulates_same) simp_all
  have 2: "simulates E r3 r'" by (rule simulates_same) (simp_all add: r')
  note 3 = simulates_trans [OF topic_reload.loop_simulated [OF r1] discovery.loop_simulated [OF r2]]
  from simulates_trans [OF simulates_trans [OF simulates_trans [OF 1 3] service_reload.loop_simulated [OF r3]] 2] show ?thesis .
qed

lemma router_step_simulated: "router_step E r r' \<Longrightarrow> simulates E r r'"
  by (erule router_stepE)
    (auto intro: router_start_simulated router_stop_simulated reload_configuration_simulated
      discovered_endpoint_simulated removed_endpoint_simulated)

section \<open>Construction\<close>

definition no_endpoints :: "participant \<Rightarrow> bool" where
  "no_endpoints p \<longleftrightarrow> (\<forall>s. side_map s p = [])"

lemma base_participant_new_empty: "no_endpoints (base_participant_new b)"
  unfolding no_endpoints_def base_participant_new_def
proof
  show "side_map s (P_base \<lparr>pt_id = conf_id b, pt_kind = conf_kind b, pt_is_repeater = conf_is_repeater b,
      pt_writers = [], pt_readers = []\<rparr>) = []" for s by (cases s) simp_all
qed

lemma common_participant_new_empty: "common_participant_new cr b d a = Some (Inr p) \<Longrightarrow> no_endpoints p"
  by (auto simp: common_participant_new_def obind_def base_participant_new_empty split: option.splits sum.splits if_splits)

lemma create_participant_empty: "create_participant L cr c = Some (Inr p) \<Longrightarrow> no_endpoints p"
  by (auto simp: create_participant_def Let_def base_participant_new_empty no_endpoints_def [of "P_blank _"]
      no_endpoints_def [of "P_echo _ _"]
      split: participant_kind.splits participant_configuration.splits option.splits dest: common_participant_new_empty)


lemma init_participants_loop_empty:
  "init_participants_loop L cr cs db = Some (Inr db') \<Longrightarrow> \<forall>e\<in>set db. no_endpoints (snd e) \<Longrightarrow> \<forall>e\<in>set db'. no_endpoints (snd e)"
proof (induction cs arbitrary: db)
  case (Cons c cs)
  obtain p db1 where p: "create_participant L cr c = Some (Inr p)"
    and db1: "pdb_add_participant (participant_id_of p) p db = Inr db1"
    and rest: "init_participants_loop L cr cs db1 = Some (Inr db')"
    using Cons.prems(1) by (auto simp: obind_def split: option.splits sum.splits if_splits)
  have "\<forall>e\<in>set db1. no_endpoints (snd e)"
    using db1 Cons.prems(2) create_participant_empty [OF p] snd_smap_set [of _ "participant_id_of p" p db]
    by (fastforce simp: pdb_add_participant_def split: option.splits)
  from Cons.IH [OF rest this] show ?case .
qed simp

lemma router_new_view:
  assumes "router_new E c = Some (Inr r)"
  shows "\<exists>s. reachable bridge_init (bridge_step (re_rtps E)) s \<and> router_view r s"
proof -
  obtain db where db: "init_participants (re_ip_locator E) (re_create_rtps E) (pointees (participants_configurations c)) = Some (Inr db)"
    using assms by (auto simp: router_new_def obind_def split: if_splits option.splits sum.splits)
  let ?w = "\<lparr>w_participants = db, w_store = object_store_empty, w_next_task = 0, w_emitted = []\<rparr>"
  let ?r = "\<lparr>rt_world = ?w, bridges = [], rpc_bridges = [], current_topics = [], current_services = [],
      allowed_topics = init_allowed_topics c, rt_configuration = c, rt_enabled = False,
      thread_pool_enabled = False, default_history_depth = max_history_depth (advanced_options c)\<rparr>"
  have init: "init_bridges E ?r = Inr r" using assms db by (auto simp: router_new_def obind_def split: if_splits)
  have loop: "init_participants_loop (re_ip_locator E) (re_create_rtps E) (pointees (participants_configurations c)) [] = Some (Inr db)"
    using db by (auto simp: init_participants_def obind_def split: option.splits sum.splits if_splits)
  have ok: "smap_ok id db" using init_participants_loop_keys [OF loop] by simp
  have m: "side_map x p = []" if "pdb_get_participant q db = Some p" for q p x
    using init_participants_loop_empty [OF loop] smap_find_SomeD [of id q db p] that
    by (fastforce simp: no_endpoints_def pdb_get_participant_def)
  let ?s = "\<lparr>sys_bridges = [], sys_world = ?w, sys_left = {}\<rparr>"
  have "registered ?w = {}" using m by (fastforce simp: registered_def)
  moreover have "world_wf ?w" using m ok by (auto simp: world_wf_def endpoints_wf_def)
  ultimately have "bridge_init ?s" by (simp add: bridge_init_def)
  then have start: "reachable bridge_init (bridge_step (re_rtps E)) ?s" by (rule reach_init)
  have view: "router_view ?r ?s" by (simp add: router_view_def router_bridges_def dds_entries_def rpc_entries_def)
  obtain s where s: "steps (bridge_step (re_rtps E)) ?s s" "router_view r s"
    using discovery.loop_simulated [OF init [unfolded init_bridges_def]] view unfolding simulates_def by blast
  from reachable_steps [OF s(1) start] s(2) show ?thesis by blast
qed

lemma reachable_router_view:
  "reachable (router_init E) (router_step E) r \<Longrightarrow> \<exists>s. reachable bridge_init (bridge_step (re_rtps E)) s \<and> router_view r s"
proof (induction rule: reachable.induct)
  case (reach_init r)
  then show ?case using router_new_view by (auto simp: router_init_def)
next
  case (reach_step r r')
  then obtain s where s: "reachable bridge_init (bridge_step (re_rtps E)) s" "router_view r s" by blast
  obtain s' where "steps (bridge_step (re_rtps E)) s s'" "router_view r' s'"
    using router_step_simulated [OF reach_step(2)] s(2) unfolding simulates_def by blast
  with reachable_steps [OF _ s(1)] show ?case by blast
qed

section \<open>Destruction\<close>

definition router_owned :: "('hr, 'hw) dds_router \<Rightarrow> registration set" where
  "router_owned r = (\<Union>b\<in>set_mset (router_bridges r). owned b)"

text \<open>Stopping changes neither what is registered nor what the bridges own.\<close>

definition same_owners :: "('hr, 'hw) dds_router \<Rightarrow> ('hr, 'hw) dds_router \<Rightarrow> bool" where
  "same_owners r r' \<longleftrightarrow> registered (rt_world r') = registered (rt_world r) \<and> router_owned r' = router_owned r \<and>
     smap_ok dds_topic_key (bridges r')"

lemma deactivate_same_owners:
  assumes "deactivate_topic topic r = Inr r'" and ok: "smap_ok dds_topic_key (bridges r)"
  shows "same_owners r r'"
proof (cases "smap_find dds_topic_key topic (bridges r)")
  case None
  with assms show ?thesis by (auto simp: deactivate_topic_def Let_def same_owners_def router_owned_def router_bridges_def)
next
  case (Some v)
  then obtain b where b: "smap_find dds_topic_key topic (bridges r) = Some (Some b)"
    using assms by (cases v) (simp_all add: deactivate_topic_def Let_def)
  obtain b' w' where e: "dds_bridge_disable (b, rt_world r) = (b', w')" by (metis surj_pair)
  have r': "rt_world r' = w'" "bridges r' = smap_set dds_topic_key topic (Some b') (bridges r)" "rpc_bridges r' = rpc_bridges r"
    using assms(1) b e by (auto simp: deactivate_topic_def Let_def)
  have "keeps_dds (b, rt_world r) (b', w')" using dds_switch_keeps(2) [of "(b, rt_world r)"] e by simp
  then have k: "owned (B_dds b') = owned (B_dds b)" "registered w' = registered (rt_world r)"
    unfolding keeps_dds_def store_only_def owned_def registered_def by simp_all
  obtain M where "dds_entries (bridges r) = dds_entry (Some b) + M"
    "\<And>u. dds_entries (smap_set dds_topic_key topic u (bridges r)) = dds_entry u + M"
    using dds_entries_known [OF ok b] by blast
  then show ?thesis using k ok by (simp add: same_owners_def router_owned_def router_bridges_def r' dds_entry_def)
qed

lemma stop_same_owners:
  assumes "router_stop r = Inr (ret, r')" and ok: "smap_ok dds_topic_key (bridges r)"
  shows "same_owners r r'"
proof -
  have loop: "rfold (\<lambda>it. deactivate_topic (fst it)) its q = Inr r' \<Longrightarrow> smap_ok dds_topic_key (bridges q) \<Longrightarrow> same_owners q r'"
    for its and q :: "('a, 'b) dds_router"
  proof (induction its arbitrary: q)
    case (Cons it its)
    then obtain q1 where q1: "deactivate_topic (fst it) q = Inr q1" "rfold (\<lambda>it. deactivate_topic (fst it)) its q1 = Inr r'"
      by (auto simp: rbind_eq_Inr_iff)
    with deactivate_same_owners [OF q1(1) Cons.prems(2)] Cons.IH [OF q1(2)] show ?case by (simp add: same_owners_def)
  qed (simp add: same_owners_def)
  show ?thesis
  proof (cases "rt_enabled r")
    case True
    let ?r = "r\<lparr>rt_enabled := False, thread_pool_enabled := False\<rparr>"
    have "deactivate_all_topics ?r = Inr r'" using assms(1) True by (auto simp: router_stop_def rbind_eq_Inr_iff)
    from loop [OF this [unfolded deactivate_all_topics_def]] ok show ?thesis
      by (simp add: same_owners_def router_owned_def router_bridges_def)
  qed (use assms in \<open>simp add: router_stop_def same_owners_def\<close>)
qed

lemma destroy_dds_owned:
  "ownership bs w L \<Longrightarrow> mset bs = dds_entries m + R \<Longrightarrow>
   \<exists>bs'. ownership bs' (fold (\<lambda>e w. case snd e of None \<Rightarrow> w | Some b \<Rightarrow> dds_bridge_destroy (b, w)) m w) L \<and> mset bs' = R"
proof (induction m arbitrary: bs w)
  case Nil
  then show ?case by (auto simp: dds_entries_def)
next
  case (Cons e m)
  show ?case
  proof (cases "snd e")
    case None
    with Cons show ?thesis by (simp add: dds_entries_def dds_entry_def)
  next
    case (Some b)
    then have "mset bs = add_mset (B_dds b) (dds_entries m + R)" using Cons.prems(2) by (simp add: dds_entries_def dds_entry_def)
    then obtain xs ys where xs: "bs = xs @ B_dds b # ys" "mset (xs @ ys) = dds_entries m + R" by (rule mset_split)
    from ownership_destroy [of xs "B_dds b" ys w L] Cons.prems(1) xs(1)
    have "ownership (xs @ ys) (dds_bridge_destroy (b, w)) L" by simp
    from Cons.IH [OF this xs(2)] Some show ?thesis by simp
  qed
qed

lemma destroy_rpc_owned:
  "ownership bs w L \<Longrightarrow> mset bs = rpc_entries m + R \<Longrightarrow>
   \<exists>bs'. ownership bs' (fold (\<lambda>e w. rpc_bridge_destroy (snd e, w)) m w) L \<and> mset bs' = R"
proof (induction m arbitrary: bs w)
  case Nil
  then show ?case by (auto simp: rpc_entries_def)
next
  case (Cons e m)
  then have "mset bs = add_mset (B_rpc (snd e)) (rpc_entries m + R)" by (simp add: rpc_entries_def)
  then obtain xs ys where xs: "bs = xs @ B_rpc (snd e) # ys" "mset (xs @ ys) = rpc_entries m + R" by (rule mset_split)
  from ownership_destroy [of xs "B_rpc (snd e)" ys w L] Cons.prems(1) xs(1)
  have "ownership (xs @ ys) (rpc_bridge_destroy (snd e, w)) L" by simp
  from Cons.IH [OF this xs(2)] show ?case by simp
qed


lemma owned_all_mset: "mset bs = router_bridges r \<Longrightarrow> owned_all bs = router_owned r"
  unfolding owned_all_def router_owned_def by (metis set_mset_mset)

lemma ownership_disjoint:
  assumes "ownership bs w L" and "mset bs = add_mset a (add_mset b M)"
  shows "owned a \<inter> owned b = {}"
proof -
  obtain xs ys where bs: "bs = xs @ a # ys" "mset (xs @ ys) = add_mset b M" using assms(2) by (rule mset_split)
  then have "b \<in> set (xs @ ys)" by (metis set_mset_mset union_single_eq_member)
  then have "owned b \<subseteq> owned_all (xs @ ys)" unfolding owned_all_def by blast
  moreover have "owned a \<inter> owned_all (xs @ ys) = {}" using assms(1) bs(1) by (auto simp: ownership_def)
  ultimately show ?thesis by blast
qed

lemma reachable_router_ownership:
  assumes "reachable (router_init E) (router_step E) r"
  obtains bs L where "ownership bs (rt_world r) L" and "mset bs = router_bridges r" and "smap_ok dds_topic_key (bridges r)"
    and "L = registered (rt_world r) - router_owned r"
proof -
  obtain s where s: "reachable bridge_init (bridge_step (re_rtps E)) s" "router_view r s"
    using reachable_router_view [OF assms] by blast
  have o: "ownership (sys_bridges s) (rt_world r) (sys_left s)" and m: "mset (sys_bridges s) = router_bridges r"
    and ok: "smap_ok dds_topic_key (bridges r)"
    using bridge_system.reachable_inv [OF s(1)] s(2) by (simp_all add: sys_ok_def router_view_def)
  have "sys_left s = registered (rt_world r) - router_owned r"
    using o owned_all_mset [OF m] unfolding ownership_def by blast
  with that o m ok show thesis by blast
qed

lemma cleared_router:
  assumes "ownership bs (rt_world r) L" and "mset bs = router_bridges r"
  shows "world_wf (rt_world (clear_rpc_bridges (clear_bridges r)))"
    and "registered (rt_world (clear_rpc_bridges (clear_bridges r))) = L"
proof -
  let ?w = "rt_world (clear_bridges r)"
  obtain cs where cs: "ownership cs ?w L" "mset cs = rpc_entries (rpc_bridges r)"
    using destroy_dds_owned [OF assms(1) assms(2) [unfolded router_bridges_def]] by (auto simp: clear_bridges_def)
  obtain ds where "ownership ds (rt_world (clear_rpc_bridges (clear_bridges r))) L" "mset ds = {#}"
    using destroy_rpc_owned [OF cs(1), of "rpc_bridges r" "{#}"] cs(2) by (auto simp: clear_rpc_bridges_def clear_bridges_def)
  then show "world_wf (rt_world (clear_rpc_bridges (clear_bridges r)))"
    "registered (rt_world (clear_rpc_bridges (clear_bridges r))) = L" by (auto simp: ownership_def)
qed

section \<open>Properties\<close>

text \<open>
  C4. The router gives back what its bridges own. In every state a router can reach, whatever the middleware
  refuses to create, the endpoints of its bridges are registered with the participants and no two bridges
  share one; and what the participants still have registered when the destructor of the router hands them
  back is exactly what no bridge owned before, namely what failed constructors had left.
\<close>

theorem router_releases_endpoints:
  assumes "reachable (router_init E) (router_step E) r"
  shows "router_owned r \<inter> at_base (rt_world r) \<subseteq> registered (rt_world r) \<and>
    (\<forall>a b M. router_bridges r = add_mset a (add_mset b M) \<longrightarrow> owned a \<inter> owned b = {}) \<and>
    (\<forall>ps r'. router_destroy r = Inr (ps, r') \<longrightarrow>
       {(x, k, y). \<exists>p\<in>set ps. \<exists>t. (t, y) \<in> set (side_map x p) \<and> k = dds_topic_key t} =
       {(x, k, y). \<exists>q. (x, q, k, y) \<in> registered (rt_world r) - router_owned r})"
proof -
  obtain bs L where o: "ownership bs (rt_world r) L" and m: "mset bs = router_bridges r"
    and ok: "smap_ok dds_topic_key (bridges r)" by (rule reachable_router_ownership [OF assms])
  have own: "router_owned r \<inter> at_base (rt_world r) \<subseteq> registered (rt_world r)"
    using o owned_all_mset [OF m] unfolding ownership_def by blast
  have left: "{(x, k, y). \<exists>p\<in>set ps. \<exists>t. (t, y) \<in> set (side_map x p) \<and> k = dds_topic_key t} =
      {(x, k, y). \<exists>q. (x, q, k, y) \<in> registered (rt_world r) - router_owned r}"
    if d: "router_destroy r = Inr (ps, r')" for ps r'
  proof -
    obtain ret r1 where st: "router_stop r = Inr (ret, r1)"
      and ps: "ps = pdb_pop_all (w_participants (rt_world (clear_rpc_bridges (clear_bridges r1))))"
      using d by (auto simp: router_destroy_def rbind_eq_Inr_iff Let_def)
    let ?w = "rt_world (clear_rpc_bridges (clear_bridges r1))"
    have "reachable (router_init E) (router_step E) r1" using assms step_router_stop [OF st] by (rule reach_step)
    then obtain cs L1 where c: "ownership cs (rt_world r1) L1" "mset cs = router_bridges r1" and
      L1: "L1 = registered (rt_world r1) - router_owned r1" by (rule reachable_router_ownership)
    have wf: "smap_ok id (w_participants ?w)" and reg: "registered ?w = registered (rt_world r) - router_owned r"
      using cleared_router [OF c] L1 stop_same_owners [OF st ok] by (simp_all add: world_wf_def same_owners_def)
    have get: "pdb_get_participant q (w_participants ?w) = Some p \<longleftrightarrow> (q, p) \<in> set (w_participants ?w)" for q p
      using smap_find_id_in [OF wf] by (simp add: pdb_get_participant_def)
    have set: "set ps = snd ` set (w_participants ?w)" unfolding ps pdb_pop_all_values [OF wf] by simp
    have "(\<exists>p\<in>set ps. \<exists>t. (t, y) \<in> set (side_map x p) \<and> k = dds_topic_key t) \<longleftrightarrow> (\<exists>q. (x, q, k, y) \<in> registered ?w)" for x k y
      unfolding set registered_def using get by force
    then show ?thesis unfolding reg by blast
  qed
  have "owned a \<inter> owned b = {}" if "router_bridges r = add_mset a (add_mset b M)" for a b M
    using ownership_disjoint [OF o] m that by simp
  with own left show ?thesis by (intro conjI allI impI)
qed


lemma sample_router_destroyed:
  "\<exists>r r' ps r''. router_new sample_router_env sample_router_configuration = Some (Inr r) \<and>
     router_start sample_router_env r = Inr (RETCODE_OK, r') \<and> bridges r' \<noteq> [] \<and> router_destroy r' = Inr (ps, r'')"
proof -
  have "case router_new sample_router_env sample_router_configuration of
      Some (Inr r) \<Rightarrow> (case router_start sample_router_env r of
         Inr (ret, r') \<Rightarrow> ret = RETCODE_OK \<and> bridges r' \<noteq> [] \<and> \<not> isl (router_stop r')
       | _ \<Rightarrow> False)
    | _ \<Rightarrow> False"
    by code_simp
  then obtain r r' where r: "router_new sample_router_env sample_router_configuration = Some (Inr r)"
    "router_start sample_router_env r = Inr (RETCODE_OK, r')" "bridges r' \<noteq> []" "\<not> isl (router_stop r')"
    by (auto split: option.splits sum.splits)
  moreover obtain q where "router_stop r' = Inr q" using r(4) by (cases "router_stop r'") auto
  ultimately show ?thesis by (cases q) (auto simp: router_destroy_def Let_def)
qed

theorem router_releases_endpoints_witness:
  "\<exists>r ps r'. reachable (router_init sample_router_env) (router_step sample_router_env) r \<and> bridges r \<noteq> [] \<and>
     router_destroy r = Inr (ps, r') \<and>
     {(x, k, y). \<exists>p\<in>set ps. \<exists>t. (t, y) \<in> set (side_map x p) \<and> k = dds_topic_key t} =
     {(x, k, y). \<exists>q. (x, q, k, y) \<in> registered (rt_world r) - router_owned r}"
proof -
  obtain r r' ps r'' where r: "router_new sample_router_env sample_router_configuration = Some (Inr r)"
    "router_start sample_router_env r = Inr (RETCODE_OK, r')" "bridges r' \<noteq> []" "router_destroy r' = Inr (ps, r'')"
    using sample_router_destroyed by blast
  have "router_init sample_router_env r" using r(1) by (auto simp: router_init_def)
  then have reach: "reachable (router_init sample_router_env) (router_step sample_router_env) r'"
    by (rule reach_step [OF reach_init]) (rule step_router_start [OF r(2)])
  from router_releases_endpoints [OF this] r(4) have
    "{(x, k, y). \<exists>p\<in>set ps. \<exists>t. (t, y) \<in> set (side_map x p) \<and> k = dds_topic_key t} =
     {(x, k, y). \<exists>q. (x, q, k, y) \<in> registered (rt_world r') - router_owned r'}" by blast
  with reach r(3,4) show ?thesis by blast
qed

end
