(* ===== verification/System.thy ===== *)
theory System
  imports Router_Invariant
begin

text \<open>
  The router together with the discovery database that drives it. The participants queue what they
  discover from their own threads, the processing thread applies the queue and runs the callbacks of
  the router, and the application starts, stops and reloads the router, all interleaved; a call that
  ends the process leaves an error as the router. What the participants queue before the database is
  started is applied after the start like everything else, so a system starts with an empty queue.
\<close>

section \<open>Steps\<close>

type_synonym ('p, 'hr, 'hw) router_sys = "('p, ('hr, 'hw) dds_router result) db_sys"

inductive system_step ::
    "('q, 's, 'hr, 'hw) router_env \<Rightarrow> 'p db_queue_ops \<Rightarrow> ('p, 'hr, 'hw) router_sys \<Rightarrow>
     ('p, 'hr, 'hw) router_sys \<Rightarrow> bool"
  for E :: "('q, 's, 'hr, 'hw) router_env" and Q :: "'p db_queue_ops" where
  system_database: "db_step Q s s' \<Longrightarrow> system_step E Q s s'"
| system_start:
    "sys_client s = Inr r \<Longrightarrow>
     system_step E Q s (s\<lparr>sys_client := rbind (router_start E r) (\<lambda>x. Inr (snd x))\<rparr>)"
| system_stop:
    "sys_client s = Inr r \<Longrightarrow>
     system_step E Q s (s\<lparr>sys_client := rbind (router_stop r) (\<lambda>x. Inr (snd x))\<rparr>)"
| system_reload:
    "sys_client s = Inr r \<Longrightarrow> reload_configuration_valid (new :: reload_configuration) \<Longrightarrow>
     system_step E Q s (s\<lparr>sys_client := rbind (reload_configuration E new r) (\<lambda>x. Inr (snd x))\<rparr>)"

inductive_cases system_stepE: "system_step E Q s s'"

definition system_init ::
    "('q, 's, 'hr, 'hw) router_env \<Rightarrow> ('p \<Rightarrow> db_item list) \<Rightarrow> ('p \<Rightarrow> db_item list) \<Rightarrow>
     ('p, 'hr, 'hw) router_sys \<Rightarrow> bool" where
  "system_init E fg bg s \<longleftrightarrow>
     (\<exists>c r q. router_new E c = Some (Inr r) \<and> sys_client s = Inr r \<and>
        sys_db s = registered_database E q \<and> fg q = [] \<and> bg q = [] \<and>
        sys_pushed s = [] \<and> sys_applied s = [])"

section \<open>Known topics are never forgotten\<close>

definition topics_kept :: "('hr, 'hw) dds_router \<Rightarrow> ('hr, 'hw) dds_router \<Rightarrow> bool" where
  "topics_kept r r' \<longleftrightarrow> (\<forall>t. topic_flag r t \<noteq> None \<longrightarrow> topic_flag r' t \<noteq> None)"

lemma topics_kept_refl [simp]: "topics_kept r r"
  by (simp add: topics_kept_def)

lemma topics_kept_trans: "topics_kept a b \<Longrightarrow> topics_kept b c \<Longrightarrow> topics_kept a c"
  by (simp add: topics_kept_def)

lemma topics_kept_same: "current_topics r' = current_topics r \<Longrightarrow> topics_kept r r'"
  by (simp add: topics_kept_def topic_flag_def)

lemma topics_kept_set:
  "current_topics r' = smap_set dds_topic_key t v (current_topics r) \<Longrightarrow> topics_kept r r'"
  by (simp add: topics_kept_def topic_flag_def)

lemma rfold_topics_kept:
  assumes "rfold f xs r = Inr r'" and "\<And>x r r'. f x r = Inr r' \<Longrightarrow> topics_kept r r'"
  shows "topics_kept r r'"
  using assms(1)
  by (induction xs arbitrary: r) (auto simp: rbind_eq_Inr_iff dest!: assms(2) intro: topics_kept_trans)

lemma activate_topic_kept: "activate_topic E t r = Inr r' \<Longrightarrow> topics_kept r r'"
  using activate_topic_effect(2) topics_kept_set by blast

lemma deactivate_topic_kept: "deactivate_topic t r = Inr r' \<Longrightarrow> topics_kept r r'"
  using deactivate_topic_effect(2) topics_kept_set by blast

lemma call_rpc_bridge_kept: "call_rpc_bridge s f r = Inr r' \<Longrightarrow> topics_kept r r'"
  using call_rpc_bridge_effect [of s f r r'] by (auto simp: same_topics_def intro: topics_kept_same)

lemma discovered_topic_knows:
  assumes "discovered_topic E t r = Inr r'"
  shows "topics_kept r r' \<and> topic_flag r' t \<noteq> None"
proof (cases "smap_find dds_topic_key t (current_topics r)")
  case None
  let ?r1 = "r\<lparr>current_topics := smap_emplace dds_topic_key t False (current_topics r)\<rparr>"
  have k: "topics_kept r ?r1" "topic_flag ?r1 t \<noteq> None"
    using None by (auto simp: topics_kept_def topic_flag_def smap_emplace_def)
  have "topics_kept ?r1 r'"
    using assms None activate_topic_kept [of E t ?r1 r']
    by (auto simp: discovered_topic_def Let_def split: if_splits)
  with k show ?thesis using topics_kept_trans by (auto simp: topics_kept_def)
next
  case (Some a)
  with assms show ?thesis by (simp add: discovered_topic_def topic_flag_def)
qed

lemma router_start_kept: "router_start E r = Inr (ret, r') \<Longrightarrow> topics_kept r r'"
proof -
  assume s: "router_start E r = Inr (ret, r')"
  show ?thesis
  proof (cases "rt_enabled r")
    case False
    let ?r0 = "r\<lparr>rt_enabled := True, thread_pool_enabled := True\<rparr>"
    obtain r1 where r1: "activate_all_topics E ?r0 = Inr r1"
      and r2: "rfold (\<lambda>it r. if snd it then enable_rpc_bridge E (fst it) r else Inr r) (current_services r1) r1 = Inr r'"
      using s False by (auto simp: router_start_def rbind_eq_Inr_iff)
    have "topics_kept ?r0 r1"
      using r1 unfolding activate_all_topics_def
      by (rule rfold_topics_kept) (auto split: if_splits dest: activate_topic_kept)
    moreover have "topics_kept r1 r'"
      using r2 by (rule rfold_topics_kept) (auto simp: enable_rpc_bridge_def split: if_splits dest: call_rpc_bridge_kept)
    moreover have "topics_kept r ?r0" by (rule topics_kept_same) simp
    ultimately show ?thesis using topics_kept_trans by blast
  qed (use s in \<open>simp add: router_start_def\<close>)
qed

lemma router_stop_kept: "router_stop r = Inr (ret, r') \<Longrightarrow> topics_kept r r'"
proof -
  assume s: "router_stop r = Inr (ret, r')"
  show ?thesis
  proof (cases "rt_enabled r")
    case True
    let ?r0 = "r\<lparr>rt_enabled := False, thread_pool_enabled := False\<rparr>"
    have "deactivate_all_topics ?r0 = Inr r'"
      using s True by (auto simp: router_stop_def rbind_eq_Inr_iff)
    then have "topics_kept ?r0 r'"
      unfolding deactivate_all_topics_def by (rule rfold_topics_kept) (rule deactivate_topic_kept)
    then show ?thesis by (simp add: topics_kept_def topic_flag_def)
  qed (use s in \<open>simp add: router_stop_def\<close>)
qed

lemma reload_configuration_kept:
  assumes "reload_configuration E new r = Inr (ret, r')"
  shows "topics_kept r r'"
proof (cases "ret = RETCODE_OK")
  case False
  with assms show ?thesis
    by (auto simp: reload_configuration_def Let_def rbind_eq_Inr_iff split: if_splits)
next
  case True
  let ?l = "allowed_topic_list_of (pointees (cfg_allowlist new)) (pointees (cfg_blocklist new))"
  obtain r1 r2 r3 where r1: "rfold (reload_topic E) (current_topics r) (r\<lparr>allowed_topics := ?l\<rparr>) = Inr r1"
    and r2: "rfold (discovered_topic E) (new_builtin_topics new r) r1 = Inr r2"
    and r3: "rfold (reload_service E) (current_services r2) r2 = Inr r3"
    and r': "r' = r3\<lparr>rt_configuration := configuration_reload new (rt_configuration r3)\<rparr>"
    using assms True by (auto simp: reload_configuration_def Let_def rbind_eq_Inr_iff split: if_splits)
  have "topics_kept r (r\<lparr>allowed_topics := ?l\<rparr>)" "topics_kept r3 r'"
    using r' by (auto intro: topics_kept_same)
  moreover have "topics_kept (r\<lparr>allowed_topics := ?l\<rparr>) r1"
    using r1 by (rule rfold_topics_kept)
      (auto simp: reload_topic_def split: if_splits dest: activate_topic_kept deactivate_topic_kept)
  moreover have "topics_kept r1 r2"
    using r2 by (rule rfold_topics_kept) (auto dest: discovered_topic_knows)
  moreover have "topics_kept q q'" if q: "reload_service E it q = Inr q'" for it q q'
    using reload_service_effect(1) [of E "fst it" "snd it" q q'] q
    by (auto simp: same_topics_def intro: topics_kept_same)
  from rfold_topics_kept [OF r3 this] have "topics_kept r2 r3" .
  ultimately show ?thesis using topics_kept_trans by blast
qed

lemma discovered_endpoint_kept:
  assumes "discovered_endpoint E e r = Inr r'"
  shows "topics_kept r r' \<and>
    (endpoint_is_reader e \<and> \<not> is_service_topic (ep_topic e) \<longrightarrow> topic_flag r' (ep_topic e) \<noteq> None)"
proof -
  have "topics_kept r r'" if d: "router_discovered_service E s pid g r = Inr r'" for s pid g
  proof -
    let ?r1 = "case smap_find rpc_topic_key s (rpc_bridges r) of Some _ \<Rightarrow> r
      | None \<Rightarrow> (let r0 = create_new_service s r
          in r0\<lparr>current_services := smap_set rpc_topic_key s (service_allowed E r0 s) (current_services r0)\<rparr>)"
    obtain r2 where r2: "call_rpc_bridge s (\<lambda>(b, w). rbind (discovered_service pid g b) (\<lambda>b'. Inr (b', w))) ?r1 = Inr r2"
      and fin: "(if rt_enabled r2 \<and> smap_find rpc_topic_key s (current_services r2) = Some True
         then enable_rpc_bridge E s r2 else Inr r2) = Inr r'"
      using d unfolding router_discovered_service_def Let_def rbind_eq_Inr_iff by blast
    have "topics_kept r ?r1"
      by (rule topics_kept_same) (simp add: create_new_service_def Let_def split: option.splits)
    moreover have "topics_kept ?r1 r2" by (rule call_rpc_bridge_kept [OF r2])
    moreover have "topics_kept r2 r'"
      using fin by (auto simp: enable_rpc_bridge_def split: if_splits dest: call_rpc_bridge_kept)
    ultimately show ?thesis using topics_kept_trans by blast
  qed
  with assms discovered_topic_knows [of E "ep_topic e" r r'] show ?thesis
    by (auto simp: discovered_endpoint_def Let_def rbind_eq_Inr_iff split: if_splits)
qed

lemma removed_endpoint_kept: "removed_endpoint e r = Inr r' \<Longrightarrow> topics_kept r r'"
  by (auto simp: removed_endpoint_def router_removed_service_def Let_def rbind_eq_Inr_iff
      split: if_splits option.splits dest: call_rpc_bridge_kept)

section \<open>Invariant of the system\<close>

text \<open>
  The topics the router has to know: those of the readers whose discovery was applied while the
  database did not have them, not counting the topics of services.
\<close>

definition wants_topic :: "db_item list \<Rightarrow> dds_topic \<Rightarrow> bool" where
  "wants_topic items t \<longleftrightarrow>
     (\<exists>xs e ys. items = xs @ (DB_add, e) # ys \<and> fold spec_apply xs (abs_entities []) (ep_guid e) = None \<and>
        endpoint_is_reader e \<and> \<not> is_service_topic (ep_topic e) \<and> t = ep_topic e)"

definition callbacks_ok ::
    "('q, 's, 'hr, 'hw) router_env \<Rightarrow> ('p, ('hr, 'hw) dds_router result) discovery_database \<Rightarrow> bool" where
  "callbacks_ok E db \<longleftrightarrow>
     updated_endpoint_callbacks db = [] \<and>
     (added_endpoint_callbacks db = [\<lambda>e s. rbind s (discovered_endpoint E e)] \<and>
      erased_endpoint_callbacks db = [\<lambda>e s. rbind s (removed_endpoint e)] \<or>
      db_exit db \<and> added_endpoint_callbacks db = [] \<and> erased_endpoint_callbacks db = [])"

definition client_ok ::
    "('q, 's, 'hr, 'hw) router_env \<Rightarrow> ('p, 'hr, 'hw) router_sys \<Rightarrow> bool" where
  "client_ok E s \<longleftrightarrow>
     (\<forall>r. sys_client s = Inr r \<longrightarrow> router_ok E r \<and>
        (db_exit (sys_db s) \<or> (\<forall>t. wants_topic (sys_applied s) t \<longrightarrow> topic_flag r t \<noteq> None)))"

definition system_inv ::
    "('q, 's, 'hr, 'hw) router_env \<Rightarrow> 'p db_queue_ops \<Rightarrow> ('p \<Rightarrow> db_item list) \<Rightarrow> ('p \<Rightarrow> db_item list) \<Rightarrow>
     ('p, 'hr, 'hw) router_sys \<Rightarrow> bool" where
  "system_inv E Q fg bg s \<longleftrightarrow>
     (db_queue_laws Q fg bg \<longrightarrow> db_sys_inv Q fg bg s \<and> callbacks_ok E (sys_db s) \<and> client_ok E s)"

lemma wants_topic_Nil [simp]: "\<not> wants_topic [] t"
  by (simp add: wants_topic_def)

lemma wants_topic_snoc:
  "wants_topic (items @ [i]) t \<longleftrightarrow> wants_topic items t \<or>
     (\<exists>e. i = (DB_add, e) \<and> fold spec_apply items (abs_entities []) (ep_guid e) = None \<and>
        endpoint_is_reader e \<and> \<not> is_service_topic (ep_topic e) \<and> t = ep_topic e)"
  (is "_ \<longleftrightarrow> _ \<or> ?new")
proof
  assume "wants_topic (items @ [i]) t"
  then obtain xs e ys where w: "items @ [i] = xs @ (DB_add, e) # ys"
    "fold spec_apply xs (abs_entities []) (ep_guid e) = None"
    "endpoint_is_reader e" "\<not> is_service_topic (ep_topic e)" "t = ep_topic e"
    by (auto simp: wants_topic_def)
  show "wants_topic items t \<or> ?new"
  proof (cases ys rule: rev_cases)
    case Nil
    with w show ?thesis by auto
  next
    case (snoc zs z)
    with w(1) have "items = xs @ (DB_add, e) # zs" by simp
    with w show ?thesis by (auto simp: wants_topic_def)
  qed
next
  have "wants_topic (items @ [i]) t" if "wants_topic items t"
    using that unfolding wants_topic_def by (metis append.assoc append_Cons)
  moreover have "wants_topic (items @ [i]) t" if ?new
    using that unfolding wants_topic_def by blast
  ultimately show "wants_topic items t \<or> ?new \<Longrightarrow> wants_topic (items @ [i]) t" by blast
qed

lemma process_item_callbacks [simp]:
  "added_endpoint_callbacks (fst (process_item i dbs)) = added_endpoint_callbacks (fst dbs)"
  "updated_endpoint_callbacks (fst (process_item i dbs)) = updated_endpoint_callbacks (fst dbs)"
  "erased_endpoint_callbacks (fst (process_item i dbs)) = erased_endpoint_callbacks (fst dbs)"
  "db_exit (fst (process_item i dbs)) = db_exit (fst dbs)"
  by (auto simp: process_item_def db_op_defs split: database_operation.splits option.splits)

lemma callbacks_ok_step:
  "db_step Q s s' \<Longrightarrow> callbacks_ok E (sys_db s) \<Longrightarrow> callbacks_ok E (sys_db s')"
  by (erule db_stepE) (auto simp: callbacks_ok_def push_item_to_queue_def db_start_def db_stop_def
      clear_all_callbacks_def process_front_def Let_def)

text \<open>One item: the router is called back as the branch of the database operation says.\<close>

lemma process_item_client:
  assumes "snd (process_item i (db, Inr r)) = Inr r'" and "callbacks_ok E db" and "router_ok E r"
  shows "router_ok E r' \<and> topics_kept r r' \<and>
    (\<forall>e. i = (DB_add, e) \<and> smap_find guid_key (ep_guid e) (entities db) = None \<and> \<not> db_exit db \<and>
       endpoint_is_reader e \<and> \<not> is_service_topic (ep_topic e) \<longrightarrow> topic_flag r' (ep_topic e) \<noteq> None)"
proof -
  obtain opn e where i: "i = (opn, e)" by fastforce
  have "discovered_endpoint E e r = Inr r' \<and> opn = DB_add \<or> removed_endpoint e r = Inr r' \<and> opn = DB_erase \<or>
    r' = r \<and> (opn = DB_add \<longrightarrow> smap_find guid_key (ep_guid e) (entities db) \<noteq> None \<or> db_exit db)"
    using assms(1,2) unfolding i
    by (cases opn) (auto simp: process_item_def db_op_defs callbacks_ok_def run_callbacks_def
        split: option.splits if_splits)
  then show ?thesis
    using assms(3) discovered_endpoint_ok [of E e r r'] removed_endpoint_ok [of e r r' E]
      discovered_endpoint_kept [of E e r r'] removed_endpoint_kept [of e r r']
    unfolding i by auto
qed

lemma process_item_error: "snd (process_item i (db, Inl x)) = Inr r' \<Longrightarrow> callbacks_ok E db \<Longrightarrow> False"
  by (cases i; cases "fst i") (auto simp: process_item_def db_op_defs callbacks_ok_def run_callbacks_def
      split: option.splits if_splits)

lemma client_ok_item:
  assumes inv: "db_sys_inv Q fg bg s" and laws: "db_queue_laws Q fg bg" and cb: "callbacks_ok E (sys_db s)"
    and ok: "client_ok E s" and fg: "fg (entities_to_process (sys_db s)) \<noteq> []"
    and r: "r = process_front Q (sys_db s, sys_client s)"
  shows "client_ok E (s\<lparr>sys_db := fst r, sys_client := snd r,
            sys_applied := sys_applied s @ [q_front Q (entities_to_process (sys_db s))]\<rparr>)"
proof -
  let ?i = "q_front Q (entities_to_process (sys_db s))"
  have res: "snd r = snd (process_item ?i (sys_db s, sys_client s))" "db_exit (fst r) = db_exit (sys_db s)"
    unfolding r by (simp_all add: process_front_def Let_def)
  have abs: "abs_entities (entities (sys_db s)) = fold spec_apply (sys_applied s) (abs_entities [])"
    using inv laws by (simp add: db_sys_inv_def)
  have none: "smap_find guid_key g (entities (sys_db s)) = None"
    if "fold spec_apply (sys_applied s) (abs_entities []) g = None" for g
    using that unfolding abs [symmetric] by (simp add: abs_entities_def)
  show ?thesis
    unfolding client_ok_def
  proof (intro allI impI)
    fix r'
    assume "sys_client (s\<lparr>sys_db := fst r, sys_client := snd r, sys_applied := sys_applied s @ [?i]\<rparr>) = Inr r'"
    then have step: "snd (process_item ?i (sys_db s, sys_client s)) = Inr r'" using res by simp
    then obtain r0 where r0: "sys_client s = Inr r0"
      using process_item_error [of ?i "sys_db s" _ r', OF _ cb] by (cases "sys_client s") metis+
    have ok0: "router_ok E r0" "db_exit (sys_db s) \<or> (\<forall>t. wants_topic (sys_applied s) t \<longrightarrow> topic_flag r0 t \<noteq> None)"
      using ok r0 by (auto simp: client_ok_def)
    note c = process_item_client [OF step [unfolded r0] cb ok0(1)]
    have "topic_flag r' t \<noteq> None" if "\<not> db_exit (sys_db s)" "wants_topic (sys_applied s @ [?i]) t" for t
    proof (cases "wants_topic (sys_applied s) t")
      case True
      with ok0(2) that(1) c show ?thesis unfolding topics_kept_def by blast
    next
      case False
      with that(2) obtain e where "?i = (DB_add, e)" "fold spec_apply (sys_applied s) (abs_entities []) (ep_guid e) = None"
        "endpoint_is_reader e" "\<not> is_service_topic (ep_topic e)" "t = ep_topic e"
        unfolding wants_topic_snoc by blast
      with c none that(1) show ?thesis by blast
    qed
    with c res(2) show "router_ok E r' \<and>
      (db_exit (sys_db (s\<lparr>sys_db := fst r, sys_client := snd r, sys_applied := sys_applied s @ [?i]\<rparr>)) \<or>
       (\<forall>t. wants_topic (sys_applied (s\<lparr>sys_db := fst r, sys_client := snd r, sys_applied := sys_applied s @ [?i]\<rparr>)) t \<longrightarrow>
          topic_flag r' t \<noteq> None))" by simp blast
  qed
qed

lemma client_ok_step:
  assumes "db_step Q s s'" and "db_sys_inv Q fg bg s" and laws: "db_queue_laws Q fg bg"
    and "callbacks_ok E (sys_db s)" and "client_ok E s"
  shows "client_ok E s'"
  using assms(1)
proof (cases rule: db_step.cases)
  case (step_item r)
  with client_ok_item [OF assms(2-5), of r] laws show ?thesis by (simp add: db_queue_lawsD)
qed (use assms(5) in \<open>auto simp: client_ok_def db_stop_def\<close>)

text \<open>A call of the application.\<close>

lemma client_ok_call:
  assumes "client_ok E s" and "sys_client s = Inr r"
    and "\<And>ret r'. m = Inr (ret, r') \<Longrightarrow> router_ok E r' \<and> topics_kept r r'"
  shows "client_ok E (s\<lparr>sys_client := rbind m (\<lambda>x. Inr (snd x))\<rparr>)"
  using assms by (auto simp: client_ok_def rbind_eq_Inr_iff topics_kept_def)

lemma system_inv_init: "system_init E fg bg s \<Longrightarrow> system_inv E Q fg bg s"
proof -
  assume "system_init E fg bg s"
  then obtain c r q where i: "router_new E c = Some (Inr r)" "sys_client s = Inr r"
    "sys_db s = registered_database E q" "fg q = []" "bg q = []" "sys_pushed s = []" "sys_applied s = []"
    by (auto simp: system_init_def)
  then have db: "db_sys_start fg bg s" and cb: "callbacks_ok E (sys_db s)"
    by (simp_all add: db_sys_start_def registered_database_def add_endpoint_erased_callback_def
        add_endpoint_discovered_callback_def discovery_database_new_def callbacks_ok_def)
  have "client_ok E s" using i router_new_ok [OF i(1)] by (simp add: client_ok_def)
  with db_sys_inv_start [OF db] cb show ?thesis by (simp add: system_inv_def)
qed

lemma system_inv_step:
  assumes "system_inv E Q fg bg s" and "system_step E Q s s'"
  shows "system_inv E Q fg bg s'"
proof (cases "db_queue_laws Q fg bg")
  case laws: True
  then have inv: "db_sys_inv Q fg bg s" "callbacks_ok E (sys_db s)" "client_ok E s"
    using assms(1) by (auto simp: system_inv_def)
  have call: "system_inv E Q fg bg (s\<lparr>sys_client := rbind m (\<lambda>x. Inr (snd x))\<rparr>)"
    if "sys_client s = Inr r" "\<And>ret r'. m = Inr (ret, r') \<Longrightarrow> router_ok E r' \<and> topics_kept r r'" for m r
  proof -
    have "client_ok E (s\<lparr>sys_client := rbind m (\<lambda>x. Inr (snd x))\<rparr>)"
      by (rule client_ok_call [OF inv(3) that(1)]) (rule that(2))
    with inv(1,2) show ?thesis by (simp add: system_inv_def db_sys_inv_def)
  qed
  from assms(2) show ?thesis
  proof (cases rule: system_step.cases)
    case system_database
    with inv laws show ?thesis
      using db_sys_inv_step [of Q fg bg s s'] callbacks_ok_step [of Q s s' E] client_ok_step [of Q s s' fg bg E]
      by (simp add: system_inv_def)
  next
    case (system_start r)
    then have "router_ok E r" using inv(3) by (simp add: client_ok_def)
    then show ?thesis unfolding system_start(1)
      by (intro call [OF system_start(2)]) (auto dest: router_start_ok router_start_kept)
  next
    case (system_stop r)
    then have "router_ok E r" using inv(3) by (simp add: client_ok_def)
    then show ?thesis unfolding system_stop(1)
      by (intro call [OF system_stop(2)]) (auto dest: router_stop_ok [where E = E] router_stop_kept)
  next
    case (system_reload r new)
    then have "router_ok E r" using inv(3) by (simp add: client_ok_def)
    then show ?thesis unfolding system_reload(1)
      by (intro call [OF system_reload(2)]) (auto dest: reload_configuration_ok reload_configuration_kept)
  qed
qed (simp add: system_inv_def)

interpretation router_with_database: invariant_system "system_init E fg bg" "system_step E Q" "system_inv E Q fg bg"
  for E :: "('q, 's, 'hr, 'hw) router_env" and Q :: "'p db_queue_ops" and fg bg :: "'p \<Rightarrow> db_item list"
  by unfold_locales (auto intro: system_inv_init system_inv_step)

section \<open>A run\<close>

text \<open>A reader is queued, the database is started, wakes up and applies it.\<close>

type_synonym sample_sys = "(db_item list \<times> db_item list, unit, unit) router_sys"

definition sample_start :: "(unit, unit, unit, unit) router_env \<Rightarrow> (unit, unit) dds_router \<Rightarrow> sample_sys" where
  "sample_start E r =
     \<lparr>sys_db = registered_database E ([], []), sys_client = Inr r, sys_pushed = [], sys_applied = []\<rparr>"

lemma sample_start_init: "router_new E c = Some (Inr r) \<Longrightarrow> system_init E fst snd (sample_start E r)"
  unfolding system_init_def by (intro exI [of _ c] exI [of _ r] exI [of _ "([], [])"]) (simp add: sample_start_def)

lemma sample_discovery_run:
  "\<exists>s. steps (system_step E list_queue) (sample_start E r) s \<and> sys_pushed s = [(DB_add, sample_reader)] \<and>
     sys_applied s = [(DB_add, sample_reader)] \<and> \<not> db_exit (sys_db s) \<and>
     sys_client s = discovered_endpoint E sample_reader r"
proof -
  let ?s0 = "sample_start E r"
  let ?s1 = "?s0\<lparr>sys_db := push_item_to_queue list_queue (DB_add, sample_reader) (sys_db ?s0),
      sys_pushed := sys_pushed ?s0 @ [(DB_add, sample_reader)]\<rparr>"
  let ?s2 = "?s1\<lparr>sys_db := db_start (sys_db ?s1)\<rparr>"
  let ?s3 = "?s2\<lparr>sys_db := (sys_db ?s2)\<lparr>db_thread_of := DB_Processing,
      entities_to_process := q_swap list_queue (entities_to_process (sys_db ?s2))\<rparr>\<rparr>"
  let ?res = "process_front list_queue (sys_db ?s3, sys_client ?s3)"
  let ?s4 = "?s3\<lparr>sys_db := fst ?res, sys_client := snd ?res,
      sys_applied := sys_applied ?s3 @ [q_front list_queue (entities_to_process (sys_db ?s3))]\<rparr>"
  note defs = sample_start_def registered_database_def add_endpoint_erased_callback_def
    add_endpoint_discovered_callback_def discovery_database_new_def push_item_to_queue_def list_queue_def db_start_def
  let ?R = "steps (system_step E list_queue) ?s0"
  have "?R ?s1" by (rule steps_one) (rule system_database [OF step_push])
  then have "?R ?s2"
    by (rule steps_next) (rule system_database, rule step_start, simp add: defs)
  then have "?R ?s3"
    by (rule steps_next) (rule system_database, rule step_wake, simp_all add: defs)
  then have "?R ?s4"
    by (rule steps_next) (rule system_database, rule step_item, simp_all add: defs)
  moreover have "sys_client ?s4 = discovered_endpoint E sample_reader r" "\<not> db_exit (sys_db ?s4)"
    "sys_applied ?s4 = [(DB_add, sample_reader)]" "sys_pushed ?s4 = [(DB_add, sample_reader)]"
    by (simp_all add: defs process_front_def process_item_def add_endpoint_int_def run_callbacks_def Let_def)
  ultimately show ?thesis by blast
qed

end
