(* ===== verification/Router_Safety.thy ===== *)
theory Router_Safety
  imports System
begin

text \<open>
  The router never ends the process. Its operations are \<^verbatim>\<open>noexcept\<close>, so that an error inside them would;
  this theory shows that no error arises: participants are never lost, a bridge that is registered is not
  null, every service has its RPC bridge, and an initialised RPC bridge has a registry for every RTPS
  participant. The one assumption is that \<^verbatim>\<open>bridges_[topic] = make_unique(...)\<close> evaluates its right side
  first, as C++17 demands.
\<close>

section \<open>Loops that go on\<close>

text \<open>Operations that return a result from every state of an invariant, which holds again after them.\<close>

locale total_operation =
  fixes inv :: "'s \<Rightarrow> bool" and f :: "'x \<Rightarrow> 's \<Rightarrow> 's result" and X :: "'x set"
  assumes goes_on: "x \<in> X \<Longrightarrow> inv s \<Longrightarrow> \<exists>s'. f x s = Inr s' \<and> inv s'"
begin

lemma loop_goes_on: "set xs \<subseteq> X \<Longrightarrow> inv s \<Longrightarrow> \<exists>s'. rfold f xs s = Inr s' \<and> inv s'"
proof (induction xs arbitrary: s)
  case (Cons x xs)
  then obtain s1 where "f x s = Inr s1" "inv s1" using goes_on [of x s] by auto
  with Cons show ?case by simp
qed simp

end

section \<open>The participants of the world\<close>

text \<open>Which ids are known, and whether their participant speaks RTPS; no operation changes that.\<close>

definition kinds :: "('hr, 'hw) world \<Rightarrow> participant_id \<Rightarrow> bool option" where
  "kinds w pid = map_option participant_is_rtps_kind (pdb_get_participant pid (w_participants w))"

lemma kinds_same_participants: "w_participants w' = w_participants w \<Longrightarrow> kinds w' = kinds w"
  by (simp add: kinds_def fun_eq_iff)

lemma kinds_update:
  "pdb_get_participant pid (w_participants w) = Some p \<Longrightarrow>
   participant_is_rtps_kind p' = participant_is_rtps_kind p \<Longrightarrow>
   w_participants w' = smap_set id pid p' (w_participants w) \<Longrightarrow> kinds w' = kinds w"
  by (auto simp: kinds_def pdb_get_participant_def fun_eq_iff)

lemma create_writer_kind:
  "create_writer E topic (p, st) = Inr (r, p', st') \<Longrightarrow> participant_is_rtps_kind p' = participant_is_rtps_kind p"
  by (cases p) (auto simp: store_new_writer_def Let_def rbind_eq_Inr_iff split: option.splits)

lemma create_reader_kind:
  "create_reader E topic (p, st) = Inr (r, p', st') \<Longrightarrow> participant_is_rtps_kind p' = participant_is_rtps_kind p"
  by (cases p) (auto simp: store_new_reader_def Let_def rbind_eq_Inr_iff split: option.splits)

lemma delete_endpoints_kind [simp]:
  "participant_is_rtps_kind (delete_writer r p) = participant_is_rtps_kind p"
  "participant_is_rtps_kind (delete_reader r p) = participant_is_rtps_kind p"
  by (cases p; simp)+

lemma create_writer_error: "create_writer E topic (p, st) = Inl e \<Longrightarrow> e = InitializationException"
  by (cases p)
    (auto simp: base_create_writer_def writer_entities_creation_def store_new_writer_def Let_def rbind_def
      split: option.splits sum.splits if_splits)

lemma create_reader_error: "create_reader E topic (p, st) = Inl e \<Longrightarrow> e = InitializationException"
  by (cases p)
    (auto simp: base_create_reader_def reader_entities_creation_def store_new_reader_def Let_def rbind_def
      split: option.splits sum.splits if_splits prod.splits)

lemma world_create_writer_kinds:
  assumes "kinds w pid \<noteq> None"
  shows "case world_create_writer E pid topic w of
      Inl e \<Rightarrow> e = InitializationException | Inr (r, w') \<Rightarrow> kinds w' = kinds w"
proof -
  obtain p where p: "pdb_get_participant pid (w_participants w) = Some p"
    using assms by (auto simp: kinds_def)
  show ?thesis
  proof (cases "create_writer E topic (p, w_store w)")
    case (Inl e)
    with p create_writer_error show ?thesis by (simp add: world_create_writer_def)
  next
    case (Inr x)
    obtain r p' st' where x: "x = (r, p', st')" by (cases x) auto
    with p Inr kinds_update [OF p create_writer_kind [OF Inr [unfolded x]],
        of "w\<lparr>w_participants := smap_set id pid p' (w_participants w), w_store := st'\<rparr>"]
    show ?thesis by (simp add: world_create_writer_def)
  qed
qed

lemma world_create_reader_kinds:
  assumes "kinds w pid \<noteq> None"
  shows "case world_create_reader E pid topic w of
      Inl e \<Rightarrow> e = InitializationException | Inr (r, w') \<Rightarrow> kinds w' = kinds w"
proof -
  obtain p where p: "pdb_get_participant pid (w_participants w) = Some p"
    using assms by (auto simp: kinds_def)
  show ?thesis
  proof (cases "create_reader E topic (p, w_store w)")
    case (Inl e)
    with p create_reader_error show ?thesis by (simp add: world_create_reader_def)
  next
    case (Inr x)
    obtain r p' st' where x: "x = (r, p', st')" by (cases x) auto
    with p Inr kinds_update [OF p create_reader_kind [OF Inr [unfolded x]],
        of "w\<lparr>w_participants := smap_set id pid p' (w_participants w), w_store := st'\<rparr>"]
    show ?thesis by (simp add: world_create_reader_def)
  qed
qed

lemma world_delete_endpoints_kinds [simp]: "kinds (world_delete_endpoints pid wr rd w) = kinds w"
proof (cases "pdb_get_participant pid (w_participants w)")
  case (Some p)
  then show ?thesis
    by (intro kinds_update [OF Some, of "case rd of None \<Rightarrow> case wr of None \<Rightarrow> p | Some r \<Rightarrow> delete_writer r p
        | Some r' \<Rightarrow> delete_reader r' (case wr of None \<Rightarrow> p | Some r \<Rightarrow> delete_writer r p)"])
      (simp_all add: world_delete_endpoints_def Let_def split: option.splits)
qed (simp add: world_delete_endpoints_def)

section \<open>Bridges\<close>

lemma create_endpoints_kinds:
  assumes "\<forall>pid\<in>set ids. kinds w pid \<noteq> None"
  shows "case create_endpoints E topic ids ws rs w of
      (Inl e, w') \<Rightarrow> e = InitializationException \<and> kinds w' = kinds w
    | (Inr (ws', rs'), w') \<Rightarrow> kinds w' = kinds w \<and>
        (\<forall>pid. pid \<in> set ids \<or> smap_find id pid rs \<noteq> None \<longrightarrow> smap_find id pid rs' \<noteq> None)"
  using assms
proof (induction ids arbitrary: ws rs w)
  case (Cons pid ids)
  show ?case
  proof (cases "world_create_writer E pid topic w")
    case (Inl e)
    with world_create_writer_kinds [of w pid E topic] Cons.prems show ?thesis by simp
  next
    case (Inr x)
    obtain wr w1 where x: "x = (wr, w1)" by fastforce
    with Inr world_create_writer_kinds [of w pid E topic] Cons.prems have k1: "kinds w1 = kinds w" by simp
    show ?thesis
    proof (cases "world_create_reader E pid topic w1")
      case (Inl e)
      with world_create_reader_kinds [of w1 pid E topic] Cons.prems k1 Inr x
      show ?thesis using \<open>world_create_writer E pid topic w = Inr x\<close> by simp
    next
      case (Inr y)
      obtain rd w2 where y: "y = (rd, w2)" by fastforce
      with Inr world_create_reader_kinds [of w1 pid E topic] Cons.prems k1 have k2: "kinds w2 = kinds w" by simp
      from Cons.IH [where w = w2 and ws = "smap_set id pid wr ws" and rs = "smap_set id pid rd rs"] Cons.prems k2
      show ?thesis using \<open>world_create_writer E pid topic w = Inr x\<close> Inr x y
        by (auto split: prod.splits sum.splits)
    qed
  qed
qed simp


lemma create_tracks_kinds:
  assumes "\<forall>pid\<in>set ids. kinds w pid \<noteq> None \<and> smap_find id pid rs \<noteq> None"
  shows "\<exists>ts' w'. create_tracks topic ws rs ids ts w = (Inr ts', w') \<and> kinds w' = kinds w"
  using assms
proof (induction ids arbitrary: ts w)
  case (Cons pid ids)
  obtain p rd where p: "pdb_get_participant pid (w_participants w) = Some p" "smap_find id pid rs = Some rd"
    using Cons.prems by (auto simp: kinds_def)
  obtain es t st where t: "track_new topic pid rd (track_targets p pid ws) (w_next_task w)
      (CB_track (dds_topic_key topic) pid) False (w_store w) = (es, t, st)"
    by (metis surj_pair)
  let ?w1 = "w\<lparr>w_store := st, w_next_task := w_next_task w + 1, w_emitted := w_emitted w @ es\<rparr>"
  have k: "kinds ?w1 = kinds w" by (rule kinds_same_participants) simp
  with Cons.IH [where w = ?w1 and ts = "smap_set id pid t ts"] Cons.prems p t show ?case by simp
qed simp

lemma bridge_enable_kinds: "dds_bridge_enable (b, w) = (b', w') \<Longrightarrow> kinds w' = kinds w"
  by (auto simp: dds_bridge_enable_def Let_def split: prod.splits if_splits
      dest!: tracks_enable_participants intro: kinds_same_participants)

lemma bridge_disable_kinds: "dds_bridge_disable (b, w) = (b', w') \<Longrightarrow> kinds w' = kinds w"
  by (auto simp: dds_bridge_disable_def Let_def split: prod.splits if_splits
      dest!: tracks_disable_participants intro: kinds_same_participants)

lemma bridge_destroy_kinds: "kinds (dds_bridge_destroy (b, w)) = kinds w"
proof -
  obtain b1 w1 where d: "dds_bridge_disable (b, w) = (b1, w1)" by fastforce
  have f: "kinds (fold (\<lambda>pid. world_delete_endpoints pid (f pid) (g pid)) ids u) = kinds u" for f g ids u
    by (rule fold_const_field) simp
  show ?thesis
    using bridge_disable_kinds [OF d]
    by (simp add: dds_bridge_destroy_def d f kinds_same_participants [OF destroy_tracks_participants])
qed

lemma known_ids: "pid \<in> set (pdb_get_participants_ids (w_participants w)) \<Longrightarrow> kinds w pid \<noteq> None"
proof -
  have "\<exists>e\<in>set m. fst e = pid" if "pid \<in> set (fold (\<lambda>e. sset_insert id (fst e)) m acc)" "pid \<notin> set acc"
    for acc and m :: "participant participants_database"
    using that
  proof (induction m arbitrary: acc)
    case (Cons e m)
    then show ?case using set_sset_insert_subset [of id "fst e" acc] by (cases "fst e = pid") auto
  qed simp
  moreover assume "pid \<in> set (pdb_get_participants_ids (w_participants w))"
  ultimately have "smap_find id pid (w_participants w) \<noteq> None"
    unfolding pdb_get_participants_ids_def smap_find_None_iff by fastforce
  then show ?thesis by (simp add: kinds_def pdb_get_participant_def)
qed

lemma bridge_new_kinds:
  "case dds_bridge_new E topic enable w of
     (Inl e, w') \<Rightarrow> e = InitializationException \<and> kinds w' = kinds w
   | (Inr b, w') \<Rightarrow> kinds w' = kinds w"
proof -
  let ?ids = "pdb_get_participants_ids (w_participants w)"
  have ids: "\<forall>pid\<in>set ?ids. kinds w pid \<noteq> None" using known_ids by blast
  obtain res w1 where c: "create_endpoints E topic ?ids [] [] w = (res, w1)" by fastforce
  show ?thesis
  proof (cases res)
    case (Inl e)
    with c create_endpoints_kinds [OF ids, where E = E and topic = topic and ws = "[]" and rs = "[]"] show ?thesis by (simp add: dds_bridge_new_def)
  next
    case (Inr wsrs)
    obtain ws rs where wsrs: "wsrs = (ws, rs)" by fastforce
    with c Inr create_endpoints_kinds [OF ids, where E = E and topic = topic and ws = "[]" and rs = "[]"]
    have k1: "kinds w1 = kinds w" and rs: "\<forall>pid\<in>set ?ids. smap_find id pid rs \<noteq> None" by auto
    obtain ts w2 where t: "create_tracks topic ws rs ?ids [] w1 = (Inr ts, w2)" and k2: "kinds w2 = kinds w"
      using create_tracks_kinds [of ?ids w1 rs topic ws "[]"] ids rs k1 by auto
    let ?b = "\<lparr>brg_topic = topic, brg_writers = ws, brg_readers = rs, brg_tracks = ts, brg_enabled = False\<rparr>"
    obtain b' w3 where e: "dds_bridge_enable (?b, w2) = (b', w3)" by fastforce
    from bridge_enable_kinds [OF e] c Inr wsrs t k2 e show ?thesis
      by (simp add: dds_bridge_new_def Let_def)
  qed
qed


section \<open>RPC bridges\<close>

definition has_registry :: "rpc_bridge \<Rightarrow> participant_id \<Rightarrow> bool" where
  "has_registry b pid \<longleftrightarrow> smap_find id pid (service_registries b) \<noteq> None"

definition registries_cover :: "(participant_id \<Rightarrow> bool option) \<Rightarrow> rpc_bridge \<Rightarrow> bool" where
  "registries_cover k b \<longleftrightarrow> (rpc_init b \<longrightarrow> (\<forall>pid. k pid = Some True \<longrightarrow> has_registry b pid))"

text \<open>What the creation of proxies keeps.\<close>

definition rpc_keeps :: "('hr, 'hw) rpc_state \<Rightarrow> ('hr, 'hw) rpc_state \<Rightarrow> bool" where
  "rpc_keeps bw bw' \<longleftrightarrow>
     kinds (snd bw') = kinds (snd bw) \<and> rpc_init (fst bw') = rpc_init (fst bw) \<and>
     (\<forall>pid. has_registry (fst bw) pid \<longrightarrow> has_registry (fst bw') pid)"

lemma rpc_keeps_refl [simp]: "rpc_keeps bw bw"
  by (simp add: rpc_keeps_def)

lemma rpc_keeps_trans: "rpc_keeps a b \<Longrightarrow> rpc_keeps b c \<Longrightarrow> rpc_keeps a c"
  by (simp add: rpc_keeps_def)

lemma rpc_keeps_cover: "rpc_keeps bw bw' \<Longrightarrow> registries_cover k (fst bw) \<Longrightarrow> registries_cover k (fst bw')"
  by (simp add: rpc_keeps_def registries_cover_def)

lemma create_slot_keeps: "rpc_keeps bw (create_slot r bw)"
  by (cases bw) (auto simp: rpc_keeps_def create_slot_def has_registry_def Let_def intro: kinds_same_participants)

lemma proxy_client_keeps:
  assumes "kinds w pid \<noteq> None" and "create_proxy_client_nts E pid (b, w) = (err, bw')"
  shows "rpc_keeps (b, w) bw' \<and> (err = None \<longrightarrow> has_registry (fst bw') pid)"
proof (cases "world_create_writer E pid (request_topic (rpc_topic b)) w")
  case (Inl e)
  with assms(2) show ?thesis by (auto simp: create_proxy_client_nts_def)
next
  case (Inr x)
  obtain wr w1 where x: "x = (wr, w1)" by fastforce
  have k1: "kinds w1 = kinds w"
    using world_create_writer_kinds [OF assms(1), of E "request_topic (rpc_topic b)"] Inr x by simp
  let ?b1 = "b\<lparr>request_writers := smap_set id pid wr (request_writers b)\<rparr>"
  show ?thesis
  proof (cases "world_create_reader E pid (reply_topic (rpc_topic b)) w1")
    case (Inl e)
    with assms(2) Inr x k1 show ?thesis
      using \<open>world_create_writer E pid (request_topic (rpc_topic b)) w = Inr x\<close>
      by (auto simp: create_proxy_client_nts_def rpc_keeps_def has_registry_def)
  next
    case r: (Inr y)
    obtain rd w2 where y: "y = (rd, w2)" by fastforce
    have k2: "kinds w2 = kinds w"
      using world_create_reader_kinds [of w1 pid E "reply_topic (rpc_topic b)"] assms(1) r y k1 by simp
    let ?b2 = "?b1\<lparr>reply_readers := smap_set id pid rd (reply_readers ?b1)\<rparr>"
    obtain b3 w3 where s: "create_slot rd (?b2, w2) = (b3, w3)" by fastforce
    from create_slot_keeps [of "(?b2, w2)" rd] s k2 have "rpc_keeps (b, w) (b3, w3)"
      by (simp add: rpc_keeps_def has_registry_def)
    with assms(2) Inr x r y s show ?thesis
      by (auto simp: create_proxy_client_nts_def rpc_keeps_def has_registry_def)
  qed
qed

lemma proxy_server_keeps:
  assumes "kinds w pid \<noteq> None" and "create_proxy_server_nts E pid (b, w) = (err, bw')"
  shows "rpc_keeps (b, w) bw'"
proof (cases "world_create_writer E pid (reply_topic (rpc_topic b)) w")
  case (Inl e)
  with assms(2) show ?thesis by (auto simp: create_proxy_server_nts_def)
next
  case (Inr x)
  obtain wr w1 where x: "x = (wr, w1)" by fastforce
  have k1: "kinds w1 = kinds w"
    using world_create_writer_kinds [OF assms(1), of E "reply_topic (rpc_topic b)"] Inr x by simp
  let ?b1 = "b\<lparr>reply_writers := smap_set id pid wr (reply_writers b)\<rparr>"
  show ?thesis
  proof (cases "world_create_reader E pid (request_topic (rpc_topic b)) w1")
    case (Inl e)
    with assms(2) Inr x k1 show ?thesis
      using \<open>world_create_writer E pid (reply_topic (rpc_topic b)) w = Inr x\<close>
      by (auto simp: create_proxy_server_nts_def rpc_keeps_def has_registry_def)
  next
    case r: (Inr y)
    obtain rd w2 where y: "y = (rd, w2)" by fastforce
    have k2: "kinds w2 = kinds w"
      using world_create_reader_kinds [of w1 pid E "request_topic (rpc_topic b)"] assms(1) r y k1 by simp
    let ?b2 = "?b1\<lparr>request_readers := smap_set id pid rd (request_readers ?b1)\<rparr>"
    from create_slot_keeps [of "(?b2, w2)" rd] k2 have "rpc_keeps (b, w) (create_slot rd (?b2, w2))"
      by (simp add: rpc_keeps_def has_registry_def)
    with assms(2) Inr x r y show ?thesis by (auto simp: create_proxy_server_nts_def)
  qed
qed

lemma map_registry_keeps [simp]:
  "has_registry (map_registry f pid b) q = has_registry b q" "rpc_init (map_registry f pid b) = rpc_init b"
  by (auto simp: map_registry_def has_registry_def split: option.splits)

lemma touch_servers_keeps [simp]:
  "has_registry (touch_servers pid b) q = has_registry b q" "rpc_init (touch_servers pid b) = rpc_init b"
  by (simp_all add: touch_servers_def has_registry_def)

lemma init_loop_keeps:
  assumes "\<forall>pid\<in>set ids. kinds (snd bw) pid \<noteq> None" and "init_loop E ids bw = (err, bw')"
  shows "rpc_keeps bw bw' \<and> (err = None \<longrightarrow> (\<forall>pid\<in>set ids. has_registry (fst bw') pid))"
  using assms
proof (induction ids arbitrary: bw)
  case (Cons pid ids)
  obtain b w where bw: "bw = (b, w)" by fastforce
  obtain e1 bw1 where c: "create_proxy_client_nts E pid (b, w) = (e1, bw1)" by (metis surj_pair)
  have k: "kinds w pid \<noteq> None" using Cons.prems(1) bw by simp
  note client = proxy_client_keeps [OF k c]
  show ?case
  proof (cases e1)
    case (Some e)
    with client c Cons.prems(2) bw show ?thesis by auto
  next
    case None
    obtain b1 w1 where bw1: "bw1 = (b1, w1)" by fastforce
    obtain e2 b2 w2 where s: "create_proxy_server_nts E pid (b1, w1) = (e2, b2, w2)" by (metis surj_pair)
    have k1: "kinds w1 pid \<noteq> None" using client k bw1 by (simp add: rpc_keeps_def)
    note server = proxy_server_keeps [OF k1 s]
    have two: "rpc_keeps bw (b2, w2)" using client server bw bw1 rpc_keeps_trans by blast
    show ?thesis
    proof (cases e2)
      case (Some e)
      with None two c s bw bw1 Cons.prems(2) show ?thesis by auto
    next
      case e2: None
      let ?b3 = "touch_servers pid b2"
      let ?b4 = "if servers_of pid ?b3 \<noteq> [] then map_registry registry_enable pid ?b3 else ?b3"
      have rest: "init_loop E ids (?b4, w2) = (err, bw')"
        using Cons.prems(2) None e2 c s bw bw1 by (simp add: Let_def)
      have "rpc_keeps (b2, w2) (?b4, w2)" by (simp add: rpc_keeps_def)
      with two have three: "rpc_keeps bw (?b4, w2)" by (rule rpc_keeps_trans)
      have reg: "has_registry ?b4 pid" using client server None bw1 by (simp add: rpc_keeps_def)
      have "\<forall>pid\<in>set ids. kinds (snd (?b4, w2)) pid \<noteq> None"
        using Cons.prems(1) three by (simp add: rpc_keeps_def)
      note IH = Cons.IH [OF this rest]
      have "has_registry (fst bw') pid"
        using reg conjunct1 [OF IH] unfolding rpc_keeps_def fst_conv by blast
      with IH rpc_keeps_trans [OF three conjunct1 [OF IH]] show ?thesis by simp
    qed
  qed
qed simp


lemma fold_if_insert_set:
  "set (fold (\<lambda>e s. if P (snd e) then sset_insert id (fst e) s else s) m acc) =
     set acc \<union> fst ` {e \<in> set m. P (snd e)}" for m :: "('k::linorder \<times> 'v) list"
proof (induction m arbitrary: acc)
  case (Cons e m)
  have "set (sset_insert id (fst e) acc) = insert (fst e) (set acc)"
    using set_sset_insert_keys [of id "fst e" acc] by simp
  with Cons show ?case by auto
qed simp

lemma rtps_ids:
  assumes "kinds w pid = Some True"
  shows "pid \<in> set (pdb_get_rtps_participants_ids participant_is_rtps_kind (w_participants w))"
proof -
  obtain p where "smap_find id pid (w_participants w) = Some p" "participant_is_rtps_kind p"
    using assms by (auto simp: kinds_def pdb_get_participant_def)
  then have "(pid, p) \<in> set (w_participants w)" using smap_find_SomeD [of id pid _ p] by auto
  with \<open>participant_is_rtps_kind p\<close> show ?thesis
    by (force simp: pdb_get_rtps_participants_ids_def fold_if_insert_set)
qed

lemma rtps_ids_known:
  "pid \<in> set (pdb_get_rtps_participants_ids participant_is_rtps_kind (w_participants w)) \<Longrightarrow> kinds w pid \<noteq> None"
  by (auto simp: pdb_get_rtps_participants_ids_def fold_if_insert_set kinds_def pdb_get_participant_def
      smap_find_None_iff)

lemma init_nts_cover:
  assumes "init_nts E (b, w) = (err, b', w')"
  shows "kinds w' = kinds w \<and> (registries_cover (kinds w) b \<longrightarrow> registries_cover (kinds w) b')"
proof -
  let ?ids = "pdb_get_rtps_participants_ids participant_is_rtps_kind (w_participants w)"
  obtain e1 b1 w1 where l: "init_loop E ?ids (b, w) = (e1, b1, w1)" by (metis surj_pair)
  have "\<forall>pid\<in>set ?ids. kinds (snd (b, w)) pid \<noteq> None" using rtps_ids_known by auto
  note k = init_loop_keeps [OF this l]
  show ?thesis
  proof (cases e1)
    case None
    with assms l k rtps_ids [of w] show ?thesis
      by (auto simp: init_nts_def rpc_keeps_def registries_cover_def has_registry_def)
  next
    case (Some e)
    then have "b' = b1" "w' = w1" using assms l by (auto simp: init_nts_def)
    with k rpc_keeps_cover [of "(b, w)" "(b1, w1)"] show ?thesis by (simp add: rpc_keeps_def)
  qed
qed

lemma rpc_data_available_keeps: "rpc_keeps bw (rpc_data_available g bw)"
  by (cases bw)
    (auto simp: rpc_keeps_def rpc_data_available_def has_registry_def Let_def intro: kinds_same_participants
      split: option.splits)

lemma rpc_enable_reader_keeps: "rpc_keeps bw (rpc_enable_reader r bw)"
proof -
  obtain b w where bw: "bw = (b, w)" by fastforce
  let ?w1 = "w\<lparr>w_store := store_update_reader (\<lambda>rd. snd (ireader_enable rd)) r (w_store w)\<rparr>"
  have "kinds ?w1 = kinds w" by (rule kinds_same_participants) simp
  then have "rpc_keeps bw (b, ?w1)" by (simp add: rpc_keeps_def bw)
  then have "rpc_keeps bw (fold (\<lambda>cb. case cb of CB_rpc s g \<Rightarrow> rpc_data_available g | CB_track k p \<Rightarrow> id) cbs (b, ?w1))"
    for cbs
    by (rule fold_invariant_rule)
      (auto split: callback.split intro: rpc_keeps_trans rpc_data_available_keeps)
  then show ?thesis by (simp add: rpc_enable_reader_def bw Let_def)
qed

lemma rpc_enable_readers_keep: "rpc_keeps bw (fold (\<lambda>e. rpc_enable_reader (snd e)) rs bw)"
  by (rule fold_invariant_rule [where P = "rpc_keeps bw"])
    (auto intro: rpc_keeps_trans rpc_enable_reader_keeps)

lemma world_map_kinds [simp]:
  "kinds (world_map_writers f m w) = kinds w" "kinds (world_disable_readers m w) = kinds w"
  by (simp_all add: world_map_writers_def world_disable_readers_def
      kinds_same_participants [of "w\<lparr>w_store := _\<rparr>" w])

text \<open>What every operation on an RPC bridge guarantees.\<close>

definition rpc_safe :: "('hr, 'hw) rpc_state \<Rightarrow> ('hr, 'hw) rpc_state \<Rightarrow> bool" where
  "rpc_safe bw bw' \<longleftrightarrow>
     kinds (snd bw') = kinds (snd bw) \<and>
     (registries_cover (kinds (snd bw)) (fst bw) \<longrightarrow> registries_cover (kinds (snd bw)) (fst bw'))"

lemma rpc_keeps_safe:
  assumes "rpc_keeps bw bw'"
  shows "rpc_safe bw bw'"
  using assms rpc_keeps_cover [OF assms, of "kinds (snd bw)"] unfolding rpc_safe_def by (simp add: rpc_keeps_def)

lemma rpc_safe_trans: "rpc_safe a b \<Longrightarrow> rpc_safe b c \<Longrightarrow> rpc_safe a c"
  by (simp add: rpc_safe_def)

lemma rpc_enable_safe: "rpc_safe bw (rpc_bridge_enable E bw)"
proof (cases "\<not> rpc_enabled (fst bw) \<and> servers_available (fst bw)")
  case True
  obtain err bw1 where i: "(if \<not> rpc_init (fst bw) then init_nts E bw else (None, bw)) = (err, bw1)"
    by (metis surj_pair)
  have s1: "rpc_safe bw bw1"
    using i init_nts_cover [of E "fst bw" "snd bw" err "fst bw1" "snd bw1"]
    by (auto simp: rpc_safe_def split: if_splits)
  show ?thesis
  proof (cases err)
    case None
    let ?b = "(fst bw1)\<lparr>rpc_enabled := True\<rparr>"
    let ?w = "world_map_writers iwriter_enable (reply_writers ?b)
        (world_map_writers iwriter_enable (request_writers ?b) (snd bw1))"
    have "rpc_keeps bw1 (?b, ?w)" by (simp add: rpc_keeps_def has_registry_def)
    then have "rpc_keeps bw1 (fold (\<lambda>e. rpc_enable_reader (snd e)) (request_readers ?b)
        (fold (\<lambda>e. rpc_enable_reader (snd e)) (reply_readers ?b) (?b, ?w)))"
      using rpc_keeps_trans rpc_enable_readers_keep by blast
    with s1 have "rpc_safe bw (fold (\<lambda>e. rpc_enable_reader (snd e)) (request_readers ?b)
        (fold (\<lambda>e. rpc_enable_reader (snd e)) (reply_readers ?b) (?b, ?w)))"
      using rpc_safe_trans rpc_keeps_safe by blast
    with True i None show ?thesis by (simp add: rpc_bridge_enable_def Let_def)
  next
    case (Some e)
    with s1 i True show ?thesis by (simp add: rpc_bridge_enable_def Let_def)
  qed
qed (auto simp: rpc_bridge_enable_def rpc_safe_def)

lemma rpc_disable_safe: "rpc_safe bw (rpc_bridge_disable bw)"
  by (rule rpc_keeps_safe) (simp add: rpc_bridge_disable_def rpc_keeps_def has_registry_def Let_def)

lemma removed_service_safe: "rpc_safe bw (removed_service pid g bw)"
proof -
  let ?b1 = "(fst bw)\<lparr>current_servers := smap_set id pid (sset_erase id g (servers_of pid (fst bw)))
                                           (current_servers (fst bw))\<rparr>"
  have "rpc_safe bw (?b1, snd bw)" by (rule rpc_keeps_safe) (simp add: rpc_keeps_def has_registry_def)
  with rpc_safe_trans [OF this rpc_disable_safe] show ?thesis
    unfolding removed_service_def Let_def by simp
qed

lemma discovered_service_safe:
  assumes "discovered_service pid g b = Inr b'"
  shows "rpc_safe (b, w) (b', w)"
proof -
  let ?b1 = "b\<lparr>current_servers := smap_set id pid (sset_insert id g (servers_of pid b)) (current_servers b)\<rparr>"
  have "b' = ?b1 \<or> b' = map_registry registry_enable pid ?b1"
    using assms by (auto simp: discovered_service_def Let_def split: if_splits option.splits)
  moreover have "rpc_init ?b1 = rpc_init b" "has_registry ?b1 q = has_registry b q" for q
    by (simp_all add: has_registry_def)
  ultimately show ?thesis by (intro rpc_keeps_safe) (auto simp: rpc_keeps_def)
qed

lemma discovered_service_total:
  assumes "registries_cover k b" and "k pid = Some True"
  shows "\<exists>b'. discovered_service pid g b = Inr b'"
  using assms
  by (auto simp: discovered_service_def Let_def registries_cover_def has_registry_def split: option.splits)


section \<open>The router\<close>

definition router_safe :: "('hr, 'hw) dds_router \<Rightarrow> bool" where
  "router_safe r \<longleftrightarrow>
     (\<forall>t. bridge_of r t \<noteq> Some None) \<and>
     (\<forall>s b. rpc_bridge_of r s = Some b \<longrightarrow> registries_cover (kinds (rt_world r)) b) \<and>
     (\<forall>s. service_flag r s \<noteq> None \<longrightarrow> rpc_bridge_of r s \<noteq> None)"

text \<open>The invariant of a loop that started in \<open>r0\<close>.\<close>

definition safe_from ::
    "('q, 's, 'hr, 'hw) router_env \<Rightarrow> ('hr, 'hw) dds_router \<Rightarrow> ('hr, 'hw) dds_router \<Rightarrow> bool" where
  "safe_from E r0 r \<longleftrightarrow>
     \<not> lhs_first E \<and> router_safe r \<and> kinds (rt_world r) = kinds (rt_world r0) \<and>
     (\<forall>s. rpc_bridge_of r0 s \<noteq> None \<longrightarrow> rpc_bridge_of r s \<noteq> None)"

lemma safe_from_refl: "\<not> lhs_first E \<Longrightarrow> router_safe r \<Longrightarrow> safe_from E r r"
  by (simp add: safe_from_def)

lemma safe_fromD:
  assumes "safe_from E r0 r"
  shows "rpc_bridge_of r s = Some b \<Longrightarrow> registries_cover (kinds (rt_world r)) b"
    and "service_flag r s \<noteq> None \<Longrightarrow> rpc_bridge_of r s \<noteq> None"
    and "bridge_of r t \<noteq> Some None"
  using assms unfolding safe_from_def router_safe_def by blast+

text \<open>A change of the bridges and of the world, and of what safety does not look at.\<close>

lemma safe_from_bridges:
  assumes "safe_from E r0 r" and "kinds (rt_world r') = kinds (rt_world r)"
    and "rpc_bridges r' = rpc_bridges r" and "current_services r' = current_services r"
    and "\<And>t. bridge_of r' t \<noteq> Some None"
  shows "safe_from E r0 r'"
proof -
  have "router_safe r" "kinds (rt_world r') = kinds (rt_world r)"
    "kinds (rt_world r) = kinds (rt_world r0)" "\<not> lhs_first E"
    "\<forall>s. rpc_bridge_of r0 s \<noteq> None \<longrightarrow> rpc_bridge_of r s \<noteq> None"
    using assms by (simp_all add: safe_from_def)
  moreover have "rpc_bridge_of r' = rpc_bridge_of r" "service_flag r' = service_flag r"
    using assms(3,4) by (simp_all add: fun_eq_iff rpc_bridge_of_def service_flag_def)
  ultimately show ?thesis using assms(5) by (simp only: safe_from_def router_safe_def) simp
qed

lemma safe_from_services:
  assumes "safe_from E r0 r" and "rt_world r' = rt_world r" and "bridges r' = bridges r"
    and "\<And>s b. rpc_bridge_of r' s = Some b \<Longrightarrow> registries_cover (kinds (rt_world r)) b"
    and "\<And>s. service_flag r' s \<noteq> None \<or> rpc_bridge_of r s \<noteq> None \<Longrightarrow> rpc_bridge_of r' s \<noteq> None"
  shows "safe_from E r0 r'"
proof -
  have "router_safe r'"
    using assms by (simp add: safe_from_def router_safe_def bridge_of_def)
  then show ?thesis using assms by (simp add: safe_from_def)
qed

lemma safe_from_fields:
  assumes "safe_from E r0 r" and "rt_world r' = rt_world r" and "bridges r' = bridges r"
    and "rpc_bridges r' = rpc_bridges r" and "current_services r' = current_services r"
  shows "safe_from E r0 r'"
proof (rule safe_from_bridges [OF assms(1) _ assms(4,5)])
  show "bridge_of r' t \<noteq> Some None" for t
    using assms(1,3) by (simp add: safe_from_def router_safe_def bridge_of_def)
qed (simp add: assms(2))

lemma create_new_bridge_goes_on:
  assumes "safe_from E r0 r"
  shows "\<exists>r'. create_new_bridge E t en r = Inr r' \<and> safe_from E r0 r'"
proof -
  obtain res w where n: "dds_bridge_new (re_rtps E) t en (rt_world r) = (res, w)" by fastforce
  have nn: "bridge_of r u \<noteq> Some None" for u using assms by (simp add: safe_from_def router_safe_def)
  have first: "\<not> lhs_first E" using assms by (simp add: safe_from_def)
  note k = bridge_new_kinds [where E = "re_rtps E" and topic = t and enable = en and w = "rt_world r"]
  show ?thesis
  proof (cases res)
    case (Inl e)
    let ?r' = "r\<lparr>rt_world := w\<rparr>"
    have "kinds w = kinds (rt_world r)" "e = InitializationException" using k n Inl by auto
    with nn have "safe_from E r0 ?r'" "create_new_bridge E t en r = Inr ?r'"
      using n Inl first
      by (auto intro!: safe_from_bridges [OF assms] simp: bridge_of_def create_new_bridge_def)
    then show ?thesis by blast
  next
    case (Inr b)
    let ?w1 = "case smap_find dds_topic_key t (bridges r) of Some (Some old) \<Rightarrow> dds_bridge_destroy (old, w) | _ \<Rightarrow> w"
    let ?r' = "r\<lparr>rt_world := ?w1, bridges := smap_set dds_topic_key t (Some b) (bridges r)\<rparr>"
    have "kinds w = kinds (rt_world r)" using k n Inr by auto
    then have "kinds ?w1 = kinds (rt_world r)" by (simp add: bridge_destroy_kinds split: option.split)
    with nn have "safe_from E r0 ?r'"
      by (intro safe_from_bridges [OF assms]) (auto simp: bridge_of_def)
    moreover have "create_new_bridge E t en r = Inr ?r'" using n Inr by (simp add: create_new_bridge_def)
    ultimately show ?thesis by blast
  qed
qed

lemma switch_topic_goes_on:
  assumes "safe_from E r0 r" and "\<And>b w b' w'. sw (b, w) = (b', w') \<Longrightarrow> kinds w' = kinds w"
    and "bridge_of r t = Some (Some b)" and "sw (b, rt_world r) = (b', w')"
  shows "safe_from E r0 (r\<lparr>rt_world := w', bridges := smap_set dds_topic_key t (Some b') (bridges r)\<rparr>)"
proof -
  have "bridge_of r u \<noteq> Some None" for u using assms(1) by (simp add: safe_from_def router_safe_def)
  then show ?thesis
    using assms(2) [OF assms(4)] by (intro safe_from_bridges [OF assms(1)]) (auto simp: bridge_of_def)
qed

lemma activate_topic_goes_on:
  assumes "safe_from E r0 r"
  shows "\<exists>r'. activate_topic E t r = Inr r' \<and> safe_from E r0 r'"
proof -
  let ?r1 = "r\<lparr>current_topics := smap_set dds_topic_key t True (current_topics r)\<rparr>"
  have s1: "safe_from E r0 ?r1" by (rule safe_from_fields [OF assms]) simp_all
  show ?thesis
  proof (cases "bridge_of ?r1 t")
    case None
    with create_new_bridge_goes_on [OF s1] show ?thesis by (simp add: activate_topic_def bridge_of_def)
  next
    case (Some x)
    obtain b where b: "x = Some b"
      using s1 Some by (cases x) (auto simp: safe_from_def router_safe_def)
    obtain b' w' where e: "dds_bridge_enable (b, rt_world ?r1) = (b', w')" by fastforce
    from switch_topic_goes_on [where sw = dds_bridge_enable, OF s1 bridge_enable_kinds Some [unfolded b] e] Some b e show ?thesis
      by (simp add: activate_topic_def bridge_of_def)
  qed
qed

lemma deactivate_topic_goes_on:
  assumes "safe_from E r0 r"
  shows "\<exists>r'. deactivate_topic t r = Inr r' \<and> safe_from E r0 r'"
proof -
  let ?r1 = "r\<lparr>current_topics := smap_set dds_topic_key t False (current_topics r)\<rparr>"
  have s1: "safe_from E r0 ?r1" by (rule safe_from_fields [OF assms]) simp_all
  show ?thesis
  proof (cases "bridge_of ?r1 t")
    case None
    with s1 show ?thesis by (simp add: deactivate_topic_def bridge_of_def)
  next
    case (Some x)
    obtain b where b: "x = Some b"
      using s1 Some by (cases x) (auto simp: safe_from_def router_safe_def)
    obtain b' w' where e: "dds_bridge_disable (b, rt_world ?r1) = (b', w')" by fastforce
    from switch_topic_goes_on [where sw = dds_bridge_disable, OF s1 bridge_disable_kinds Some [unfolded b] e] Some b e show ?thesis
      by (simp add: deactivate_topic_def bridge_of_def)
  qed
qed

lemma discovered_topic_goes_on:
  assumes "safe_from E r0 r"
  shows "\<exists>r'. discovered_topic E t r = Inr r' \<and> safe_from E r0 r'"
proof (cases "smap_find dds_topic_key t (current_topics r)")
  case None
  let ?r1 = "r\<lparr>current_topics := smap_emplace dds_topic_key t False (current_topics r)\<rparr>"
  have s1: "safe_from E r0 ?r1" by (rule safe_from_fields [OF assms]) simp_all
  with None activate_topic_goes_on [OF s1, of t] show ?thesis by (simp add: discovered_topic_def Let_def)
qed (use assms in \<open>simp add: discovered_topic_def\<close>)

lemma call_rpc_bridge_goes_on:
  assumes "safe_from E r0 r" and "rpc_bridge_of r s = Some b"
    and "f (b, rt_world r) = Inr bw'" and "rpc_safe (b, rt_world r) bw'"
  shows "\<exists>r'. call_rpc_bridge s f r = Inr r' \<and> safe_from E r0 r'"
proof -
  obtain b' w' where bw': "bw' = (b', w')" by fastforce
  let ?r' = "r\<lparr>rt_world := w', rpc_bridges := smap_set rpc_topic_key s b' (rpc_bridges r)\<rparr>"
  have "kinds w' = kinds (rt_world r)" "registries_cover (kinds (rt_world r)) b'"
    using assms(1,2,4) bw' by (auto simp: rpc_safe_def safe_from_def router_safe_def)
  then have "safe_from E r0 ?r'"
    using assms(1) by (auto simp: safe_from_def router_safe_def rpc_bridge_of_def service_flag_def bridge_of_def)
  moreover have "call_rpc_bridge s f r = Inr ?r'"
    using assms(2,3) bw' by (simp add: call_rpc_bridge_def rpc_bridge_of_def)
  ultimately show ?thesis by blast
qed

lemma enable_rpc_goes_on:
  assumes "safe_from E r0 r" and "rpc_bridge_of r s \<noteq> None"
  shows "\<exists>r'. enable_rpc_bridge E s r = Inr r' \<and> safe_from E r0 r'"
proof -
  obtain b where "rpc_bridge_of r s = Some b" using assms(2) by blast
  then show ?thesis unfolding enable_rpc_bridge_def
    by (rule call_rpc_bridge_goes_on [OF assms(1)]) (rule refl, rule rpc_enable_safe)
qed

lemma disable_rpc_goes_on:
  assumes "safe_from E r0 r" and "rpc_bridge_of r s \<noteq> None"
  shows "\<exists>r'. disable_rpc_bridge s r = Inr r' \<and> safe_from E r0 r'"
proof -
  obtain b where "rpc_bridge_of r s = Some b" using assms(2) by blast
  then show ?thesis unfolding disable_rpc_bridge_def
    by (rule call_rpc_bridge_goes_on [OF assms(1)]) (rule refl, rule rpc_disable_safe)
qed

lemma reload_service_goes_on:
  assumes "safe_from E r0 r" and "rpc_bridge_of r0 (fst it) \<noteq> None"
  shows "\<exists>r'. reload_service E it r = Inr r' \<and> safe_from E r0 r'"
proof -
  have b: "rpc_bridge_of r (fst it) \<noteq> None" using assms by (simp add: safe_from_def)
  let ?r1 = "r\<lparr>current_services := smap_set rpc_topic_key (fst it) (service_allowed E r (fst it)) (current_services r)\<rparr>"
  have "service_flag ?r1 s \<noteq> None \<longrightarrow> rpc_bridge_of r s \<noteq> None" for s
    using assms(1) b smap_find_same_key [of rpc_topic_key s "fst it" "rpc_bridges r"]
    by (auto simp: safe_from_def router_safe_def service_flag_def rpc_bridge_of_def)
  then have "safe_from E r0 ?r1"
    using safe_fromD(1) [OF assms(1)] by (intro safe_from_services [OF assms(1)]) (auto simp: rpc_bridge_of_def)
  moreover have "rpc_bridge_of ?r1 (fst it) \<noteq> None" using b by (simp add: rpc_bridge_of_def)
  ultimately show ?thesis
    using enable_rpc_goes_on [of E r0 ?r1 "fst it"] disable_rpc_goes_on [of E r0 ?r1 "fst it"]
    unfolding reload_service_def Let_def by (cases "service_allowed E r (fst it)") simp_all
qed

lemma safe_from_trans: "safe_from E a b \<Longrightarrow> safe_from E b c \<Longrightarrow> safe_from E a c"
  by (simp add: safe_from_def)

lemma reload_topic_goes_on:
  "safe_from E r0 r \<Longrightarrow> \<exists>r'. reload_topic E it r = Inr r' \<and> safe_from E r0 r'"
  using activate_topic_goes_on [of E r0 r "fst it"] deactivate_topic_goes_on [of E r0 r "fst it"]
  by (simp add: reload_topic_def)

lemma removed_service_goes_on:
  assumes "safe_from E r0 r"
  shows "\<exists>r'. router_removed_service s pid g r = Inr r' \<and> safe_from E r0 r'"
proof (cases "rpc_bridge_of r s")
  case (Some b)
  then have "\<exists>r'. call_rpc_bridge s (\<lambda>bw. Inr (removed_service pid g bw)) r = Inr r' \<and> safe_from E r0 r'"
    by (rule call_rpc_bridge_goes_on [OF assms]) (rule refl, rule removed_service_safe)
  with Some show ?thesis by (simp add: router_removed_service_def rpc_bridge_of_def)
qed (use assms in \<open>simp add: router_removed_service_def rpc_bridge_of_def\<close>)

text \<open>
  A server is discovered: the service gets its bridge, then the bridge is told. The bridge refuses only
  a participant it has no registry for.
\<close>

definition with_service ::
    "('q, 's, 'hr, 'hw) router_env \<Rightarrow> rpc_topic \<Rightarrow> ('hr, 'hw) dds_router \<Rightarrow> ('hr, 'hw) dds_router" where
  "with_service E s r =
     (case smap_find rpc_topic_key s (rpc_bridges r) of
        Some _ \<Rightarrow> r
      | None \<Rightarrow>
         (let r0 = create_new_service s r
          in r0\<lparr>current_services := smap_set rpc_topic_key s (service_allowed E r0 s) (current_services r0)\<rparr>))"

lemma router_discovered_service_steps:
  "router_discovered_service E s pid g r =
     rbind (call_rpc_bridge s (\<lambda>(b, w). rbind (discovered_service pid g b) (\<lambda>b'. Inr (b', w))) (with_service E s r))
       (\<lambda>r2. if rt_enabled r2 \<and> smap_find rpc_topic_key s (current_services r2) = Some True
             then enable_rpc_bridge E s r2 else Inr r2)"
  by (simp add: router_discovered_service_def with_service_def Let_def)

lemma with_service_safe:
  assumes "safe_from E r0 r"
  shows "safe_from E r0 (with_service E s r) \<and> rpc_bridge_of (with_service E s r) s \<noteq> None"
proof (cases "rpc_bridge_of r s")
  case None
  have new: "registries_cover k (rpc_bridge_new s)" for k by (simp add: registries_cover_def rpc_bridge_new_def)
  note cover = safe_fromD(1) [OF assms] and flags = safe_fromD(2) [OF assms]
  have "safe_from E r0 (with_service E s r)"
  proof (rule safe_from_services [OF assms])
    show "rpc_bridge_of (with_service E s r) u = Some b \<Longrightarrow> registries_cover (kinds (rt_world r)) b" for u b
      using None new cover [of u b]
      by (auto simp: with_service_def create_new_service_def rpc_bridge_of_def Let_def split: if_splits)
    show "rpc_bridge_of (with_service E s r) u \<noteq> None"
      if "service_flag (with_service E s r) u \<noteq> None \<or> rpc_bridge_of r u \<noteq> None" for u
      using None that flags [of u]
      by (auto simp: with_service_def create_new_service_def rpc_bridge_of_def service_flag_def Let_def split: if_splits)
  qed (use None in \<open>simp_all add: with_service_def create_new_service_def rpc_bridge_of_def Let_def\<close>)
  with None show ?thesis by (simp add: with_service_def create_new_service_def rpc_bridge_of_def Let_def)
qed (use assms in \<open>simp add: with_service_def rpc_bridge_of_def\<close>)

lemma service_discovery_goes_on:
  assumes "safe_from E r0 r" and "rpc_bridge_of (with_service E s r) s = Some b"
    and "discovered_service pid g b = Inr b'"
  shows "\<exists>r'. router_discovered_service E s pid g r = Inr r' \<and> safe_from E r0 r'"
proof -
  let ?f = "\<lambda>(b, w). rbind (discovered_service pid g b) (\<lambda>b'. Inr (b', w))"
  have s1: "safe_from E r0 (with_service E s r)" using with_service_safe [OF assms(1)] by blast
  have "?f (b, rt_world (with_service E s r)) = Inr (b', rt_world (with_service E s r))"
    using assms(3) by simp
  from call_rpc_bridge_goes_on [where f = ?f, OF s1 assms(2) this discovered_service_safe [OF assms(3)]]
  obtain r2 where r2: "call_rpc_bridge s ?f (with_service E s r) = Inr r2" "safe_from E r0 r2" by blast
  have "rpc_bridge_of r2 s \<noteq> None"
    using r2(1) assms(2,3) by (auto simp: call_rpc_bridge_def rpc_bridge_of_def rbind_eq_Inr_iff)
  with r2(2) have "\<exists>r'. enable_rpc_bridge E s r2 = Inr r' \<and> safe_from E r0 r'" by (rule enable_rpc_goes_on)
  with r2 show ?thesis
    unfolding router_discovered_service_steps by simp
qed

lemma service_discovery_total:
  assumes "safe_from E r0 r" and "kinds (rt_world r) pid = Some True"
  shows "\<exists>r'. router_discovered_service E s pid g r = Inr r' \<and> safe_from E r0 r'"
proof -
  have w: "safe_from E r (with_service E s r)" "rpc_bridge_of (with_service E s r) s \<noteq> None"
    using with_service_safe [OF safe_from_refl, of E r s] assms(1) by (auto simp: safe_from_def)
  then obtain b where b: "rpc_bridge_of (with_service E s r) s = Some b" by blast
  then have "registries_cover (kinds (rt_world (with_service E s r))) b"
    "kinds (rt_world (with_service E s r)) pid = Some True"
    using w(1) assms(2) by (auto simp: safe_from_def router_safe_def)
  then obtain b' where "discovered_service pid g b = Inr b'" using discovered_service_total by blast
  with assms(1) b show ?thesis by (rule service_discovery_goes_on)
qed

lemma service_discovery_safe:
  assumes "safe_from E r0 r" and "router_discovered_service E s pid g r = Inr r'"
  shows "safe_from E r0 r'"
proof -
  obtain b where b: "rpc_bridge_of (with_service E s r) s = Some b"
    using with_service_safe [OF assms(1), of s] by blast
  obtain b' where "discovered_service pid g b = Inr b'"
    using assms(2) b unfolding router_discovered_service_steps
    by (auto simp: rbind_eq_Inr_iff call_rpc_bridge_def rpc_bridge_of_def split: option.splits)
  from service_discovery_goes_on [OF assms(1) b this] assms(2) show ?thesis by auto
qed

lemma rpc_topic_of_service: "is_service_topic t \<Longrightarrow> \<exists>s. rpc_topic_of_topic t = Inr s"
  by (auto simp: is_service_topic_def rpc_topic_of_topic_def Let_def)

text \<open>Only the discovery of a server depends on who discovered it.\<close>

definition discoverer_fits :: "endpoint \<Rightarrow> ('hr, 'hw) dds_router \<Rightarrow> bool" where
  "discoverer_fits e r \<longleftrightarrow>
     (endpoint_is_reader e \<and> endpoint_is_server_endpoint e \<longrightarrow>
      (case pdb_get_participant (discoverer_participant_id e) (w_participants (rt_world r)) of
         None \<Rightarrow> False | Some p \<Rightarrow> participant_is_rtps_kind p))"

lemma discovered_endpoint_total:
  assumes "safe_from E r0 r" and "discoverer_fits e r"
  shows "\<exists>r'. discovered_endpoint E e r = Inr r' \<and> safe_from E r0 r'"
proof -
  have "kinds (rt_world r) (discoverer_participant_id e) = Some True"
    if "endpoint_is_reader e" "endpoint_is_server_endpoint e"
    using assms(2) that by (auto simp: discoverer_fits_def kinds_def split: option.splits)
  note d = service_discovery_total [OF assms(1) this]
  show ?thesis
    using d discovered_topic_goes_on [OF assms(1)] assms(1) rpc_topic_of_service [of "ep_topic e"]
    by (auto simp: discovered_endpoint_def Let_def)
qed

lemma discovered_endpoint_safe:
  assumes "safe_from E r0 r" and "discovered_endpoint E e r = Inr r'"
  shows "safe_from E r0 r'"
proof -
  have "safe_from E r0 r'" if "discovered_topic E t r = Inr r'" for t
    using discovered_topic_goes_on [OF assms(1), of t] that by auto
  with assms service_discovery_safe [OF assms(1)] show ?thesis
    by (auto simp: discovered_endpoint_def Let_def rbind_eq_Inr_iff split: if_splits)
qed

lemma removed_endpoint_total:
  "safe_from E r0 r \<Longrightarrow> \<exists>r'. removed_endpoint e r = Inr r' \<and> safe_from E r0 r'"
  using removed_service_goes_on [of E r0 r] rpc_topic_of_service [of "ep_topic e"]
  by (auto simp: removed_endpoint_def Let_def)

lemma enable_known_rpc_goes_on:
  "safe_from E r0 r \<Longrightarrow> rpc_bridge_of r0 s = Some b \<Longrightarrow> \<exists>r'. enable_rpc_bridge E s r = Inr r' \<and> safe_from E r0 r'"
  by (rule enable_rpc_goes_on) (simp_all add: safe_from_def)

section \<open>The loops\<close>

interpretation activations: total_operation "safe_from E r0"
    "\<lambda>it r. if allowed E r (fst it) then activate_topic E (fst it) r else Inr r" UNIV
  for E :: "('q, 's, 'hr, 'hw) router_env" and r0 :: "('hr, 'hw) dds_router"
  by unfold_locales (auto dest: activate_topic_goes_on)

interpretation deactivations: total_operation "safe_from E r0" "\<lambda>it. deactivate_topic (fst it)" UNIV
  for E :: "('q, 's, 'hr, 'hw) router_env" and r0 :: "('hr, 'hw) dds_router"
  by unfold_locales (rule deactivate_topic_goes_on)

interpretation topic_reloads: total_operation "safe_from E r0" "reload_topic E" UNIV
  for E :: "('q, 's, 'hr, 'hw) router_env" and r0 :: "('hr, 'hw) dds_router"
  by unfold_locales (rule reload_topic_goes_on)

interpretation discoveries: total_operation "safe_from E r0" "discovered_topic E" UNIV
  for E :: "('q, 's, 'hr, 'hw) router_env" and r0 :: "('hr, 'hw) dds_router"
  by unfold_locales (rule discovered_topic_goes_on)

interpretation service_starts: total_operation "safe_from E r0"
    "\<lambda>it r. if snd it then enable_rpc_bridge E (fst it) r else Inr r" "{it. rpc_bridge_of r0 (fst it) \<noteq> None}"
  for E :: "('q, 's, 'hr, 'hw) router_env" and r0 :: "('hr, 'hw) dds_router"
  by unfold_locales (auto intro: enable_known_rpc_goes_on)

interpretation service_reloads: total_operation "safe_from E r0" "reload_service E"
    "{it. rpc_bridge_of r0 (fst it) \<noteq> None}"
  for E :: "('q, 's, 'hr, 'hw) router_env" and r0 :: "('hr, 'hw) dds_router"
  by unfold_locales (auto intro: reload_service_goes_on)

lemma services_have_bridges:
  assumes "router_safe r"
  shows "set (current_services r) \<subseteq> {it. rpc_bridge_of r (fst it) \<noteq> None}"
proof
  fix it
  assume "it \<in> set (current_services r)"
  then have "service_flag r (fst it) \<noteq> None"
    unfolding service_flag_def smap_find_None_iff by blast
  with assms show "it \<in> {it. rpc_bridge_of r (fst it) \<noteq> None}" by (simp add: router_safe_def)
qed

section \<open>Start, stop and reload\<close>

lemma router_start_total:
  assumes "safe_from E r r"
  shows "\<exists>ret r'. router_start E r = Inr (ret, r') \<and> safe_from E r r'"
proof (cases "rt_enabled r")
  case False
  let ?r0 = "r\<lparr>rt_enabled := True, thread_pool_enabled := True\<rparr>"
  have "safe_from E r ?r0" by (rule safe_from_fields [OF assms]) simp_all
  then obtain r1 where r1: "activate_all_topics E ?r0 = Inr r1" "safe_from E r r1"
    unfolding activate_all_topics_def using activations.loop_goes_on [of _ E r ?r0] by blast
  then have s: "router_safe r1" "safe_from E r1 r1" by (auto simp: safe_from_def)
  from service_starts.loop_goes_on [OF services_have_bridges [OF s(1)] s(2)]
  obtain r2 where "rfold (\<lambda>it r. if snd it then enable_rpc_bridge E (fst it) r else Inr r) (current_services r1) r1 = Inr r2"
    "safe_from E r1 r2" by blast
  with False r1 show ?thesis using safe_from_trans [of E r r1 r2] by (simp add: router_start_def)
qed (use assms in \<open>simp add: router_start_def\<close>)

lemma router_stop_total:
  assumes "safe_from E r r"
  shows "\<exists>ret r'. router_stop r = Inr (ret, r') \<and> safe_from E r r'"
proof (cases "rt_enabled r")
  case True
  let ?r0 = "r\<lparr>rt_enabled := False, thread_pool_enabled := False\<rparr>"
  have "safe_from E r ?r0" by (rule safe_from_fields [OF assms]) simp_all
  then obtain r1 where "deactivate_all_topics ?r0 = Inr r1" "safe_from E r r1"
    unfolding deactivate_all_topics_def using deactivations.loop_goes_on [of _ E r ?r0] by blast
  with True show ?thesis by (simp add: router_stop_def)
qed (use assms in \<open>simp add: router_stop_def\<close>)

lemma reload_total:
  assumes "safe_from E r r" and "reload_configuration_valid new"
  shows "\<exists>ret r'. reload_configuration E new r = Inr (ret, r') \<and> safe_from E r r'"
proof -
  let ?l = "allowed_topic_list_of (pointees (cfg_allowlist new)) (pointees (cfg_blocklist new))"
  have "safe_from E r (r\<lparr>allowed_topics := ?l\<rparr>)" by (rule safe_from_fields [OF assms(1)]) simp_all
  then obtain r1 where r1: "rfold (reload_topic E) (current_topics r) (r\<lparr>allowed_topics := ?l\<rparr>) = Inr r1"
    "safe_from E r r1"
    using topic_reloads.loop_goes_on [of "current_topics r" E r "r\<lparr>allowed_topics := ?l\<rparr>"] by blast
  then obtain r2 where r2: "rfold (discovered_topic E) (new_builtin_topics new r) r1 = Inr r2" "safe_from E r r2"
    using discoveries.loop_goes_on [of "new_builtin_topics new r" E r r1] by blast
  then have s: "router_safe r2" "safe_from E r2 r2" by (auto simp: safe_from_def)
  from service_reloads.loop_goes_on [OF services_have_bridges [OF s(1)] s(2)]
  obtain r3 where r3: "rfold (reload_service E) (current_services r2) r2 = Inr r3" "safe_from E r2 r3" by blast
  let ?r' = "r3\<lparr>rt_configuration := configuration_reload new (rt_configuration r3)\<rparr>"
  have "safe_from E r ?r'"
    by (rule safe_from_fields [OF safe_from_trans [OF r2(2) r3(2)]]) simp_all
  with assms r1(1) r2(1) r3(1) show ?thesis by (simp add: reload_configuration_def Let_def)
qed

lemma router_new_safe:
  assumes "\<not> lhs_first E" and "router_new E c = Some (Inr r)"
  shows "router_safe r"
proof -
  obtain r0 where r0: "rfold (discovered_topic E) (pointees (cfg_builtin_topics c)) r0 = Inr r"
    "bridges r0 = []" "rpc_bridges r0 = []" "current_services r0 = []"
    using assms(2)
    by (fastforce simp: router_new_def obind_def init_bridges_def split: if_splits option.splits sum.splits)
  then have "safe_from E r0 r0"
    using assms(1) by (simp add: safe_from_def router_safe_def bridge_of_def rpc_bridge_of_def service_flag_def)
  from discoveries.loop_goes_on [OF subset_UNIV this, of "pointees (cfg_builtin_topics c)"] r0(1)
  show ?thesis by (auto simp: safe_from_def)
qed

lemma router_step_safe:
  assumes "router_safe r" and "\<not> lhs_first E" and "router_step E r r'"
  shows "router_safe r'"
proof -
  have s: "safe_from E r r" using assms(1,2) by (rule safe_from_refl [rotated])
  from assms(3) have "safe_from E r r'"
  proof (cases rule: router_step.cases)
    case (step_router_start ret)
    with router_start_total [OF s] show ?thesis by auto
  next
    case (step_router_stop ret)
    with router_stop_total [OF s] show ?thesis by auto
  next
    case (step_router_reload new ret)
    then have "reload_configuration_valid new" by (auto simp: reload_configuration_def split: if_splits)
    with reload_total [OF s] step_router_reload show ?thesis by force
  next
    case (step_router_discovered e)
    with discovered_endpoint_safe [OF s] show ?thesis by blast
  next
    case (step_router_removed e)
    with removed_endpoint_total [OF s, of e] show ?thesis by auto
  qed
  then show ?thesis by (simp add: safe_from_def)
qed

interpretation safe_router: invariant_system "router_init E" "router_step E" "\<lambda>r. \<not> lhs_first E \<longrightarrow> router_safe r"
  for E :: "('q, 's, 'hr, 'hw) router_env"
  by unfold_locales (auto simp: router_init_def intro: router_new_safe router_step_safe)

section \<open>Properties\<close>


definition ordered_router_env :: "(unit, unit, unit, unit) router_env" where
  "ordered_router_env = sample_router_env\<lparr>lhs_first := False\<rparr>"


text \<open>
  With the other order of evaluation, a topic whose endpoints the middleware refuses leaves a null bridge
  behind when the router starts, and stopping the router dereferences it.
\<close>

definition refusing_router_env :: "(unit, unit, unit, unit) router_env" where
  "refusing_router_env =
     sample_router_env\<lparr>re_rtps := sample_env\<lparr>env_new_rtps_writer := \<lambda>p t q. None\<rparr>\<rparr>"

definition simple_router_configuration :: router_configuration where
  "simple_router_configuration = sample_router_configuration\<lparr>participants_configurations :=
     [Some (PC_simple \<lparr>conf_id = PId ''a'', conf_kind = PK_simple_rtps, conf_is_repeater = False\<rparr> (DomainId 0)),
      Some (PC_simple \<lparr>conf_id = PId ''b'', conf_kind = PK_simple_rtps, conf_is_repeater = False\<rparr> (DomainId 1))]\<rparr>"

theorem null_bridge_ends_the_process:
  "\<exists>r r'. router_new refusing_router_env simple_router_configuration = Some (Inr r) \<and>
     router_start refusing_router_env r = Inr (RETCODE_OK, r') \<and> router_stop r' = Inl NullDereference"
proof -
  have "case router_new refusing_router_env simple_router_configuration of
      Some (Inr r) \<Rightarrow> (case router_start refusing_router_env r of
         Inr (ret, r') \<Rightarrow> ret = RETCODE_OK \<and> (case router_stop r' of Inl e \<Rightarrow> e = NullDereference | Inr x \<Rightarrow> False)
       | _ \<Rightarrow> False)
    | _ \<Rightarrow> False"
    by code_simp
  then obtain r r' where r: "router_new refusing_router_env simple_router_configuration = Some (Inr r)"
    "router_start refusing_router_env r = Inr (RETCODE_OK, r')"
    and stop: "case router_stop r' of Inl e \<Rightarrow> e = NullDereference | Inr x \<Rightarrow> False"
    by (force split: option.split_asm sum.split_asm prod.split_asm)
  from stop have "router_stop r' = Inl NullDereference" by (cases "router_stop r'") auto
  with r show ?thesis by blast
qed

end
