(* ===== verification/Yaml_Reader.thy ===== *)
theory Yaml_Reader
  imports Configuration
begin

text \<open>
  The reader of the YAML configuration, first half (\<^verbatim>\<open>ddsrouter_yaml\<close>: \<^verbatim>\<open>impl/YamlReader.ipp\<close> and
  the generic, entity, QoS, topic and TLS parts of \<^verbatim>\<open>YamlReader.cpp\<close>). The YAML library is a
  parameter: a record of the functions the code calls on a node. The templates of the reader become
  functions that take the reader of the element as an argument.
\<close>

section \<open>The YAML library\<close>

text \<open>
  \<open>y_get\<close> is \<^verbatim>\<open>yml[tag]\<close>, \<open>None\<close> where the node it gives converts to false; a key whose value
  is null is present. \<open>y_elements\<close> and \<open>y_entries\<close> are what the iterators of a node visit,
  \<open>y_set\<close> is the assignment to \<^verbatim>\<open>yml[tag]\<close>, \<open>y_of_string\<close> the node of a string, and
  the functions \<open>y_as_\<dots>\<close> are \<^verbatim>\<open>as<T>()\<close>, \<open>None\<close> where it throws. The remaining members are
  the library functions and globals that the constructors of the read objects use;
  \<open>y_unset_string\<close> is what a fuzzy string without a value converts to.
\<close>

record 'n yaml_env =
  y_is_map :: "'n \<Rightarrow> bool"
  y_is_null :: "'n \<Rightarrow> bool"
  y_is_scalar :: "'n \<Rightarrow> bool"
  y_is_sequence :: "'n \<Rightarrow> bool"
  y_get :: "'n \<Rightarrow> string \<Rightarrow> 'n option"
  y_elements :: "'n \<Rightarrow> 'n list"
  y_entries :: "'n \<Rightarrow> ('n \<times> 'n) list"
  y_set :: "'n \<Rightarrow> string \<Rightarrow> 'n \<Rightarrow> 'n"
  y_of_string :: "string \<Rightarrow> 'n"
  y_as_string :: "'n \<Rightarrow> string option"
  y_as_bool :: "'n \<Rightarrow> bool option"
  y_as_uint32 :: "'n \<Rightarrow> 32 word option"
  y_as_uint16 :: "'n \<Rightarrow> 16 word option"
  y_load_file :: "string \<Rightarrow> 'n option"
  y_to_lowercase :: "string \<Rightarrow> string"
  y_parse_prefix :: "string \<Rightarrow> guid_prefix"
  y_ros_prefix :: string
  y_print_fuzzy :: "string \<Rightarrow> string"
  y_unset_string :: string
  y_ip_locator :: ip_locator
  y_garbage_ip_version :: ip_version
  y_default_history_depth :: "32 word"

section \<open>Tags\<close>

definition VERSION_TAG :: string where "VERSION_TAG = ''version''"
definition VERSION_TAG_V_1_0 :: string where "VERSION_TAG_V_1_0 = ''v1.0''"
definition VERSION_TAG_V_2_0 :: string where "VERSION_TAG_V_2_0 = ''v2.0''"
definition VERSION_TAG_V_3_0 :: string where "VERSION_TAG_V_3_0 = ''v3.0''"
definition ALLOWLIST_TAG :: string where "ALLOWLIST_TAG = ''allowlist''"
definition BLOCKLIST_TAG :: string where "BLOCKLIST_TAG = ''blocklist''"
definition BUILTIN_TAG :: string where "BUILTIN_TAG = ''builtin-topics''"
definition TOPIC_NAME_TAG :: string where "TOPIC_NAME_TAG = ''name''"
definition TOPIC_TYPE_NAME_TAG :: string where "TOPIC_TYPE_NAME_TAG = ''type''"
definition TOPIC_KIND_TAG :: string where "TOPIC_KIND_TAG = ''keyed''"
definition TOPIC_QOS_TAG :: string where "TOPIC_QOS_TAG = ''qos''"
definition QOS_RELIABLE_TAG :: string where "QOS_RELIABLE_TAG = ''reliability''"
definition QOS_TRANSIENT_TAG :: string where "QOS_TRANSIENT_TAG = ''durability''"
definition QOS_HISTORY_DEPTH_TAG :: string where "QOS_HISTORY_DEPTH_TAG = ''depth''"
definition QOS_PARTITION_TAG :: string where "QOS_PARTITION_TAG = ''partitions''"
definition QOS_OWNERSHIP_TAG :: string where "QOS_OWNERSHIP_TAG = ''ownership''"
definition PARTICIPANT_KIND_TAG :: string where "PARTICIPANT_KIND_TAG = ''kind''"
definition PARTICIPANT_NAME_TAG :: string where "PARTICIPANT_NAME_TAG = ''name''"
definition COLLECTION_PARTICIPANTS_TAG :: string where "COLLECTION_PARTICIPANTS_TAG = ''participants''"
definition IS_REPEATER_TAG :: string where "IS_REPEATER_TAG = ''repeater''"
definition ECHO_DATA_TAG :: string where "ECHO_DATA_TAG = ''data''"
definition ECHO_DISCOVERY_TAG :: string where "ECHO_DISCOVERY_TAG = ''discovery''"
definition ECHO_VERBOSE_TAG :: string where "ECHO_VERBOSE_TAG = ''verbose''"
definition DOMAIN_ID_TAG :: string where "DOMAIN_ID_TAG = ''domain''"
definition DISCOVERY_SERVER_GUID_PREFIX_TAG :: string where
  "DISCOVERY_SERVER_GUID_PREFIX_TAG = ''discovery-server-guid''"
definition LISTENING_ADDRESSES_TAG :: string where "LISTENING_ADDRESSES_TAG = ''listening-addresses''"
definition CONNECTION_ADDRESSES_TAG :: string where "CONNECTION_ADDRESSES_TAG = ''connection-addresses''"
definition COLLECTION_ADDRESSES_TAG :: string where "COLLECTION_ADDRESSES_TAG = ''addresses''"
definition TLS_TAG :: string where "TLS_TAG = ''tls''"
definition TLS_CA_TAG :: string where "TLS_CA_TAG = ''ca''"
definition TLS_PASSWORD_TAG :: string where "TLS_PASSWORD_TAG = ''password''"
definition TLS_PRIVATE_KEY_TAG :: string where "TLS_PRIVATE_KEY_TAG = ''private_key''"
definition TLS_CERT_TAG :: string where "TLS_CERT_TAG = ''cert''"
definition TLS_DHPARAMS_TAG :: string where "TLS_DHPARAMS_TAG = ''dh_params''"
definition TLS_PEER_VERIFICATION_TAG :: string where "TLS_PEER_VERIFICATION_TAG = ''peer_verification''"
definition TLS_SNI_HOST_TAG :: string where "TLS_SNI_HOST_TAG = ''sni_host''"
definition ADDRESS_IP_TAG :: string where "ADDRESS_IP_TAG = ''ip''"
definition ADDRESS_DNS_TAG :: string where "ADDRESS_DNS_TAG = ''domain''"
definition ADDRESS_PORT_TAG :: string where "ADDRESS_PORT_TAG = ''port''"
definition ADDRESS_EXTERNAL_PORT_TAG :: string where "ADDRESS_EXTERNAL_PORT_TAG = ''external-port''"
definition ADDRESS_IP_VERSION_TAG :: string where "ADDRESS_IP_VERSION_TAG = ''ip-version''"
definition ADDRESS_IP_VERSION_V4_TAG :: string where "ADDRESS_IP_VERSION_V4_TAG = ''v4''"
definition ADDRESS_IP_VERSION_V6_TAG :: string where "ADDRESS_IP_VERSION_V6_TAG = ''v6''"
definition ADDRESS_TRANSPORT_TAG :: string where "ADDRESS_TRANSPORT_TAG = ''transport''"
definition ADDRESS_TRANSPORT_UDP_TAG :: string where "ADDRESS_TRANSPORT_UDP_TAG = ''udp''"
definition ADDRESS_TRANSPORT_TCP_TAG :: string where "ADDRESS_TRANSPORT_TCP_TAG = ''tcp''"
definition DISCOVERY_SERVER_GUID_TAG :: string where "DISCOVERY_SERVER_GUID_TAG = ''guid''"
definition DISCOVERY_SERVER_ID_TAG :: string where "DISCOVERY_SERVER_ID_TAG = ''id''"
definition DISCOVERY_SERVER_ID_ROS_TAG :: string where "DISCOVERY_SERVER_ID_ROS_TAG = ''ros-discovery-server''"
definition SPECS_TAG :: string where "SPECS_TAG = ''specs''"
definition NUMBER_THREADS_TAG :: string where "NUMBER_THREADS_TAG = ''threads''"
definition MAX_HISTORY_DEPTH_TAG :: string where "MAX_HISTORY_DEPTH_TAG = ''max-depth''"
definition PARTICIPANT_KIND_TAG_V1 :: string where "PARTICIPANT_KIND_TAG_V1 = ''type''"

definition ddsrouter_tags :: "string list" where
  "ddsrouter_tags =
     [ALLOWLIST_TAG, BLOCKLIST_TAG, TOPIC_NAME_TAG, TOPIC_TYPE_NAME_TAG, TOPIC_KIND_TAG,
      PARTICIPANT_KIND_TAG, PARTICIPANT_NAME_TAG, COLLECTION_PARTICIPANTS_TAG, DOMAIN_ID_TAG,
      DISCOVERY_SERVER_GUID_PREFIX_TAG, LISTENING_ADDRESSES_TAG, CONNECTION_ADDRESSES_TAG,
      COLLECTION_ADDRESSES_TAG, TLS_TAG, TLS_CA_TAG, TLS_PASSWORD_TAG, TLS_PRIVATE_KEY_TAG,
      TLS_CERT_TAG, TLS_DHPARAMS_TAG, TLS_SNI_HOST_TAG, ADDRESS_IP_TAG, ADDRESS_DNS_TAG,
      ADDRESS_PORT_TAG, ADDRESS_IP_VERSION_TAG, ADDRESS_IP_VERSION_V4_TAG,
      ADDRESS_IP_VERSION_V6_TAG, ADDRESS_TRANSPORT_TAG, ADDRESS_TRANSPORT_UDP_TAG,
      ADDRESS_TRANSPORT_TCP_TAG, DISCOVERY_SERVER_GUID_TAG, DISCOVERY_SERVER_ID_TAG,
      DISCOVERY_SERVER_ID_ROS_TAG, VERSION_TAG, VERSION_TAG_V_1_0, VERSION_TAG_V_2_0,
      VERSION_TAG_V_3_0, PARTICIPANT_KIND_TAG_V1]"

definition is_tag :: "string \<Rightarrow> bool" where
  "is_tag str \<longleftrightarrow> str \<in> set ddsrouter_tags"

section \<open>Versions\<close>

datatype yaml_version = V_1_0 | V_2_0 | V_3_0 | LATEST

fun yaml_version_value :: "yaml_version \<Rightarrow> nat" where
  "yaml_version_value V_1_0 = 0"
| "yaml_version_value V_2_0 = 1"
| "yaml_version_value V_3_0 = 2"
| "yaml_version_value LATEST = 3"

fun yaml_version_print :: "yaml_version \<Rightarrow> string" where
  "yaml_version_print V_1_0 = VERSION_TAG_V_1_0"
| "yaml_version_print V_2_0 = VERSION_TAG_V_2_0"
| "yaml_version_print V_3_0 = VERSION_TAG_V_3_0"
| "yaml_version_print LATEST = VERSION_TAG_V_3_0"

section \<open>Generic reading\<close>

text \<open>
  The handlers \<^verbatim>\<open>catch (const std::exception& e)\<close> turn every exception into a
  \<^verbatim>\<open>ConfigurationException\<close>; an abort or an invalid access is not an exception.
\<close>

fun is_std_exception :: "exn \<Rightarrow> bool" where
  "is_std_exception ShouldNotHappen = False"
| "is_std_exception NullDereference = False"
| "is_std_exception InvalidMemoryAccess = False"
| "is_std_exception SignedOverflow = False"
| "is_std_exception _ = True"

definition rethrow_configuration :: "'a result \<Rightarrow> 'a result" where
  "rethrow_configuration m =
     (case m of
        Inl e \<Rightarrow> Inl (if is_std_exception e then ConfigurationException else e)
      | Inr x \<Rightarrow> Inr x)"

definition is_tag_present :: "'n yaml_env \<Rightarrow> 'n \<Rightarrow> string \<Rightarrow> bool result" where
  "is_tag_present E yml tag =
     (if \<not> y_is_map E yml \<and> \<not> y_is_null E yml then Inl ConfigurationException
      else Inr (y_get E yml tag \<noteq> None))"

definition get_value_in_tag :: "'n yaml_env \<Rightarrow> 'n \<Rightarrow> string \<Rightarrow> 'n result" where
  "get_value_in_tag E yml tag =
     rbind (is_tag_present E yml tag)
       (\<lambda>present. if present then Inr (the (y_get E yml tag)) else Inl ConfigurationException)"

definition get_in_tag ::
    "'n yaml_env \<Rightarrow> ('n \<Rightarrow> yaml_version \<Rightarrow> 'a result) \<Rightarrow> 'n \<Rightarrow> string \<Rightarrow> yaml_version \<Rightarrow> 'a result" where
  "get_in_tag E get yml tag version =
     rethrow_configuration (rbind (get_value_in_tag E yml tag) (\<lambda>n. get n version))"

definition get_scalar :: "'n yaml_env \<Rightarrow> ('n \<Rightarrow> 'a option) \<Rightarrow> 'n \<Rightarrow> 'a result" where
  "get_scalar E as yml =
     (if \<not> y_is_scalar E yml then Inl ConfigurationException
      else case as yml of None \<Rightarrow> Inl ConfigurationException | Some x \<Rightarrow> Inr x)"

definition get_scalar_in_tag :: "'n yaml_env \<Rightarrow> ('n \<Rightarrow> 'a option) \<Rightarrow> 'n \<Rightarrow> string \<Rightarrow> 'a result" where
  "get_scalar_in_tag E as yml tag =
     rethrow_configuration (rbind (get_value_in_tag E yml tag) (get_scalar E as))"

text \<open>The loop that appends the elements to the list.\<close>

definition get_elements ::
    "('n \<Rightarrow> yaml_version \<Rightarrow> 'a result) \<Rightarrow> yaml_version \<Rightarrow> 'n list \<Rightarrow> 'a list result" where
  "get_elements get version ns =
     rfold (\<lambda>n result. rbind (get n version) (\<lambda>x. Inr (result @ [x]))) ns []"

definition get_list ::
    "'n yaml_env \<Rightarrow> ('n \<Rightarrow> yaml_version \<Rightarrow> 'a result) \<Rightarrow> 'n \<Rightarrow> yaml_version \<Rightarrow> 'a list result" where
  "get_list E get yml version =
     (if \<not> y_is_sequence E yml then Inl ConfigurationException
      else rethrow_configuration (get_elements get version (y_elements E yml)))"

definition get_list_in_tag ::
    "'n yaml_env \<Rightarrow> ('n \<Rightarrow> yaml_version \<Rightarrow> 'a result) \<Rightarrow> 'n \<Rightarrow> string \<Rightarrow> yaml_version \<Rightarrow> 'a list result" where
  "get_list_in_tag E get yml tag version =
     rethrow_configuration (rbind (get_value_in_tag E yml tag) (\<lambda>n. get_list E get n version))"

text \<open>\<open>to_set\<close> builds the ordered set of the elements with the comparison of their class.\<close>

definition get_set ::
    "'n yaml_env \<Rightarrow> ('a list \<Rightarrow> 'a list) \<Rightarrow> ('n \<Rightarrow> yaml_version \<Rightarrow> 'a result) \<Rightarrow> 'n \<Rightarrow> string \<Rightarrow>
     yaml_version \<Rightarrow> 'a list result" where
  "get_set E to_set get yml tag version =
     rbind (get_list_in_tag E get yml tag version) (\<lambda>elements_list. Inr (to_set elements_list))"

definition get_enumeration :: "'n yaml_env \<Rightarrow> 'n \<Rightarrow> (string \<times> 'a) list \<Rightarrow> 'a result" where
  "get_enumeration E yml enum_values =
     rbind (get_scalar E (y_as_string E) yml)
       (\<lambda>value. case map_of enum_values value of
          None \<Rightarrow> Inl ConfigurationException
        | Some x \<Rightarrow> Inr x)"

text \<open>The statement \<^verbatim>\<open>if (is_tag_present(yml, tag)) { ... }\<close> whose body changes an object.\<close>

definition when_tag :: "'n yaml_env \<Rightarrow> 'n \<Rightarrow> string \<Rightarrow> ('a \<Rightarrow> 'a result) \<Rightarrow> 'a \<Rightarrow> 'a result" where
  "when_tag E yml tag body x =
     rbind (is_tag_present E yml tag) (\<lambda>present. if present then body x else Inr x)"

text \<open>Such a statement with a body that reads one member under the tag it tests.\<close>

definition optional_member ::
    "'n yaml_env \<Rightarrow> ('n \<Rightarrow> yaml_version \<Rightarrow> 'b result) \<Rightarrow> ('b \<Rightarrow> 'a \<Rightarrow> 'a) \<Rightarrow> 'n \<Rightarrow> yaml_version \<Rightarrow> string \<Rightarrow>
     'a \<Rightarrow> 'a result" where
  "optional_member E get update yml version tag =
     when_tag E yml tag (\<lambda>x. rbind (get_in_tag E get yml tag version) (\<lambda>v. Inr (update v x)))"

section \<open>Standard types and entities\<close>

definition get_uint :: "'n yaml_env \<Rightarrow> 'n \<Rightarrow> yaml_version \<Rightarrow> 32 word result" where
  "get_uint E yml version = get_scalar E (y_as_uint32 E) yml"

definition get_bool :: "'n yaml_env \<Rightarrow> 'n \<Rightarrow> yaml_version \<Rightarrow> bool result" where
  "get_bool E yml version = get_scalar E (y_as_bool E) yml"

definition get_string :: "'n yaml_env \<Rightarrow> 'n \<Rightarrow> yaml_version \<Rightarrow> string result" where
  "get_string E yml version = get_scalar E (y_as_string E) yml"

definition get_version :: "'n yaml_env \<Rightarrow> 'n \<Rightarrow> yaml_version \<Rightarrow> yaml_version result" where
  "get_version E yml version =
     get_enumeration E yml
       [(VERSION_TAG_V_1_0, V_1_0), (VERSION_TAG_V_2_0, V_2_0), (VERSION_TAG_V_3_0, V_3_0)]"

definition get_transport_protocol :: "'n yaml_env \<Rightarrow> 'n \<Rightarrow> yaml_version \<Rightarrow> transport_protocol result" where
  "get_transport_protocol E yml version =
     get_enumeration E yml [(ADDRESS_TRANSPORT_TCP_TAG, TCP), (ADDRESS_TRANSPORT_UDP_TAG, UDP)]"

definition get_ip_version :: "'n yaml_env \<Rightarrow> 'n \<Rightarrow> yaml_version \<Rightarrow> ip_version result" where
  "get_ip_version E yml version =
     get_enumeration E yml [(ADDRESS_IP_VERSION_V4_TAG, IPv4), (ADDRESS_IP_VERSION_V6_TAG, IPv6)]"

definition get_port :: "'n yaml_env \<Rightarrow> 'n \<Rightarrow> yaml_version \<Rightarrow> port result" where
  "get_port E yml version = get_scalar E (y_as_uint16 E) yml"

definition get_participant_id :: "'n yaml_env \<Rightarrow> 'n \<Rightarrow> yaml_version \<Rightarrow> participant_id result" where
  "get_participant_id E yml version =
     rbind (get_scalar E (y_as_string E) yml) (\<lambda>s. Inr (participant_id_of_string s))"

definition get_participant_kind :: "'n yaml_env \<Rightarrow> 'n \<Rightarrow> yaml_version \<Rightarrow> participant_kind result" where
  "get_participant_kind E yml version =
     rbind (get_scalar E (y_as_string E) yml)
       (\<lambda>s. let kind = participant_kind_from_name (y_to_lowercase E) s
            in Inr (if yaml_version_value version \<le> yaml_version_value V_2_0 \<and> kind = PK_wan_initial_peers
                    then PK_wan_discovery_server else kind))"

definition get_domain_id :: "'n yaml_env \<Rightarrow> 'n \<Rightarrow> yaml_version \<Rightarrow> domain_id result" where
  "get_domain_id E yml version =
     rbind (get_scalar E (y_as_uint32 E) yml) (\<lambda>d. Inr (DomainId d))"

definition get_guid_prefix :: "'n yaml_env \<Rightarrow> 'n \<Rightarrow> yaml_version \<Rightarrow> guid_prefix result" where
  "get_guid_prefix E yml version =
     rbind (is_tag_present E yml DISCOVERY_SERVER_GUID_TAG) (\<lambda>guid_set.
       if guid_set then
         rbind (get_scalar_in_tag E (y_as_string E) yml DISCOVERY_SERVER_GUID_TAG)
           (\<lambda>guid. Inr (guid_prefix_of_string (y_parse_prefix E) guid))
       else
         rbind (is_tag_present E yml DISCOVERY_SERVER_ID_ROS_TAG) (\<lambda>ros_id_set.
         rbind (if ros_id_set
                then rbind (get_scalar_in_tag E (y_as_bool E) yml DISCOVERY_SERVER_ID_ROS_TAG) (\<lambda>b. Inr (Some b))
                else Inr None) (\<lambda>ros_id.
         rbind (get_scalar_in_tag E (y_as_uint32 E) yml DISCOVERY_SERVER_ID_TAG) (\<lambda>id.
           Inr (case ros_id of
                  Some ros \<Rightarrow> guid_prefix_of_seed (y_parse_prefix E) (y_ros_prefix E) ros id
                | None \<Rightarrow> guid_prefix_of_id (y_parse_prefix E) (y_ros_prefix E) id)))))"

text \<open>A value that the code reads only if its tag is present, with the flag it keeps beside it.\<close>

definition get_if_present ::
    "'n yaml_env \<Rightarrow> ('n \<Rightarrow> yaml_version \<Rightarrow> 'a result) \<Rightarrow> 'n \<Rightarrow> string \<Rightarrow> yaml_version \<Rightarrow> 'a option result" where
  "get_if_present E get yml tag version =
     rbind (is_tag_present E yml tag) (\<lambda>present.
       if present then rbind (get_in_tag E get yml tag version) (\<lambda>v. Inr (Some v)) else Inr None)"

definition get_address :: "'n yaml_env \<Rightarrow> 'n \<Rightarrow> yaml_version \<Rightarrow> address result" where
  "get_address E yml version =
     rbind (get_if_present E (get_ip_version E) yml ADDRESS_IP_VERSION_TAG version) (\<lambda>ip_version.
     rbind (get_if_present E (get_string E) yml ADDRESS_IP_TAG version) (\<lambda>ip.
     rbind (get_if_present E (get_string E) yml ADDRESS_DNS_TAG version) (\<lambda>domain_name.
     rbind (if ip \<noteq> None \<and> domain_name \<noteq> None then Inr None
            else if ip = None \<and> domain_name = None then Inl ConfigurationException
            else Inr domain_name) (\<lambda>domain_name.
     rbind (get_if_present E (get_port E) yml ADDRESS_PORT_TAG version) (\<lambda>port_set.
     let port = (case port_set of Some p \<Rightarrow> p | None \<Rightarrow> DEFAULT_PORT) in
     rbind (get_if_present E (get_port E) yml ADDRESS_EXTERNAL_PORT_TAG version) (\<lambda>external_port_set.
     let external_port = (case external_port_set of Some p \<Rightarrow> p | None \<Rightarrow> port) in
     rbind (get_if_present E (get_transport_protocol E) yml ADDRESS_TRANSPORT_TAG version) (\<lambda>tp_set.
     let tp = (case tp_set of Some t \<Rightarrow> t | None \<Rightarrow> UDP) in
     Inr (case domain_name of
            Some domain \<Rightarrow>
              (case ip_version of
                 Some v \<Rightarrow> address_of_domain_version (y_ip_locator E) port external_port v domain tp
               | None \<Rightarrow> address_of_domain (y_garbage_ip_version E) (y_ip_locator E) port external_port domain tp)
          | None \<Rightarrow>
              (case ip_version of
                 Some v \<Rightarrow> address_of_ip_version (the ip) port external_port v tp
               | None \<Rightarrow> address_of_ip (y_ip_locator E) (the ip) port external_port tp)))))))))"

definition address_set :: "address list \<Rightarrow> address list" where
  "address_set = sset_of_list address_key"

definition get_discovery_server_connection_address_v1 ::
    "'n yaml_env \<Rightarrow> 'n \<Rightarrow> yaml_version \<Rightarrow> ds_connection_address result" where
  "get_discovery_server_connection_address_v1 E yml version =
     rbind (get_guid_prefix E yml version) (\<lambda>server_guid.
     rbind (get_set E address_set (get_address E) yml COLLECTION_ADDRESSES_TAG version) (\<lambda>addresses.
       Inr \<lparr>ds_guid_prefix = server_guid, ds_addresses = addresses\<rparr>))"

definition get_discovery_server_connection_address_latest ::
    "'n yaml_env \<Rightarrow> 'n \<Rightarrow> yaml_version \<Rightarrow> ds_connection_address result" where
  "get_discovery_server_connection_address_latest E yml version =
     rbind (get_in_tag E (get_guid_prefix E) yml DISCOVERY_SERVER_GUID_PREFIX_TAG version) (\<lambda>server_guid.
     rbind (get_set E address_set (get_address E) yml COLLECTION_ADDRESSES_TAG version) (\<lambda>addresses.
       Inr \<lparr>ds_guid_prefix = server_guid, ds_addresses = addresses\<rparr>))"

definition get_discovery_server_connection_address ::
    "'n yaml_env \<Rightarrow> 'n \<Rightarrow> yaml_version \<Rightarrow> ds_connection_address result" where
  "get_discovery_server_connection_address E yml version =
     (case version of
        V_1_0 \<Rightarrow> get_discovery_server_connection_address_v1 E yml version
      | _ \<Rightarrow> get_discovery_server_connection_address_latest E yml version)"

section \<open>QoS and topics\<close>

definition fill_topic_qos :: "'n yaml_env \<Rightarrow> topic_qos \<Rightarrow> 'n \<Rightarrow> yaml_version \<Rightarrow> topic_qos result" where
  "fill_topic_qos E object yml version =
     rbind (optional_member E (get_bool E)
              (\<lambda>b q. q\<lparr>reliability_qos := (if b then RELIABLE else BEST_EFFORT)\<rparr>) yml version QOS_RELIABLE_TAG object) (\<lambda>object.
     rbind (optional_member E (get_bool E)
              (\<lambda>b q. q\<lparr>durability_qos := (if b then TRANSIENT_LOCAL else VOLATILE)\<rparr>) yml version QOS_TRANSIENT_TAG object) (\<lambda>object.
     rbind (optional_member E (get_uint E)
              (\<lambda>d q. q\<lparr>history_depth := d\<rparr>) yml version QOS_HISTORY_DEPTH_TAG object) (\<lambda>object.
     rbind (optional_member E (get_bool E)
              (\<lambda>b q. q\<lparr>use_partitions := b\<rparr>) yml version QOS_PARTITION_TAG object) (\<lambda>object.
     optional_member E (get_bool E)
       (\<lambda>b q. q\<lparr>ownership_qos := (if b then EXCLUSIVE_OWNERSHIP_QOS else SHARED_OWNERSHIP_QOS)\<rparr>)
       yml version QOS_OWNERSHIP_TAG object))))"

definition fill_topic :: "'n yaml_env \<Rightarrow> dds_topic \<Rightarrow> 'n \<Rightarrow> yaml_version \<Rightarrow> dds_topic result" where
  "fill_topic E object yml version =
     rbind (get_in_tag E (get_string E) yml TOPIC_NAME_TAG version) (\<lambda>name. Inr (object\<lparr>topic_name := name\<rparr>))"

definition fill_dds_topic :: "'n yaml_env \<Rightarrow> dds_topic \<Rightarrow> 'n \<Rightarrow> yaml_version \<Rightarrow> dds_topic result" where
  "fill_dds_topic E object yml version =
     rbind (fill_topic E object yml version) (\<lambda>object.
     rbind (get_in_tag E (get_string E) yml TOPIC_TYPE_NAME_TAG version) (\<lambda>type.
     let object = object\<lparr>type_name := type\<rparr> in
     rbind (optional_member E (get_bool E) (\<lambda>b t. t\<lparr>keyed := b\<rparr>) yml version TOPIC_KIND_TAG object) (\<lambda>object.
     when_tag E yml TOPIC_QOS_TAG
       (\<lambda>object. rbind (get_value_in_tag E yml TOPIC_QOS_TAG) (\<lambda>qos_yml.
          rbind (fill_topic_qos E (topic_qos_of object) qos_yml version) (\<lambda>qos.
            Inr (object\<lparr>topic_qos_of := qos\<rparr>)))) object)))"

definition get_dds_topic :: "'n yaml_env \<Rightarrow> 'n \<Rightarrow> yaml_version \<Rightarrow> dds_topic result" where
  "get_dds_topic E yml version =
     fill_dds_topic E (dds_topic_of_names (y_default_history_depth E) '''' '''') yml version"

definition fill_wildcard_filter ::
    "'n yaml_env \<Rightarrow> wildcard_filter \<Rightarrow> 'n \<Rightarrow> yaml_version \<Rightarrow> wildcard_filter result" where
  "fill_wildcard_filter E object yml version =
     rbind (get_in_tag E (get_string E) yml TOPIC_NAME_TAG version) (\<lambda>name.
     let object = object\<lparr>filter_topic_name := name\<rparr> in
     rbind (optional_member E (get_string E) (\<lambda>s f. f\<lparr>filter_type_name := Some s\<rparr>)
              yml version TOPIC_TYPE_NAME_TAG object) (\<lambda>object.
     optional_member E (get_bool E) (\<lambda>b f. f\<lparr>filter_keyed := Some b\<rparr>) yml version TOPIC_KIND_TAG object))"

definition get_wildcard_filter :: "'n yaml_env \<Rightarrow> 'n \<Rightarrow> yaml_version \<Rightarrow> wildcard_filter result" where
  "get_wildcard_filter E yml version = fill_wildcard_filter E (wildcard_filter_of ''*'') yml version"

section \<open>TLS\<close>

text \<open>The end of the function: the strongest kind the members allow.\<close>

definition set_tls_kind :: "tls_configuration \<Rightarrow> tls_configuration result" where
  "set_tls_kind object =
     (if tls_both_valid object then Inr (object\<lparr>tls_kind_of := TLS_both\<rparr>)
      else if tls_client_valid object then Inr (object\<lparr>tls_kind_of := TLS_client\<rparr>)
      else if tls_server_valid object then Inr (object\<lparr>tls_kind_of := TLS_server\<rparr>)
      else Inl ConfigurationException)"

definition fill_tls :: "'n yaml_env \<Rightarrow> tls_configuration \<Rightarrow> 'n \<Rightarrow> yaml_version \<Rightarrow> tls_configuration result" where
  "fill_tls E object yml version =
     rbind (optional_member E (get_string E) (\<lambda>s t. t\<lparr>private_key_file := s\<rparr>) yml version TLS_PRIVATE_KEY_TAG object) (\<lambda>object.
     rbind (optional_member E (get_string E) (\<lambda>s t. t\<lparr>private_key_file_password := s\<rparr>) yml version TLS_PASSWORD_TAG object) (\<lambda>object.
     rbind (optional_member E (get_string E) (\<lambda>s t. t\<lparr>certificate_authority_file := s\<rparr>) yml version TLS_CA_TAG object) (\<lambda>object.
     rbind (optional_member E (get_string E) (\<lambda>s t. t\<lparr>certificate_chain_file := s\<rparr>) yml version TLS_CERT_TAG object) (\<lambda>object.
     rbind (optional_member E (get_string E) (\<lambda>s t. t\<lparr>sni_server_name := s\<rparr>) yml version TLS_SNI_HOST_TAG object) (\<lambda>object.
     rbind (optional_member E (get_string E) (\<lambda>s t. t\<lparr>dh_params_file := s\<rparr>) yml version TLS_DHPARAMS_TAG object) (\<lambda>object.
     rbind (optional_member E (get_bool E) (\<lambda>b t. t\<lparr>verify_peer := b\<rparr>) yml version TLS_PEER_VERIFICATION_TAG object) (\<lambda>object.
     set_tls_kind object)))))))"

definition get_tls :: "'n yaml_env \<Rightarrow> 'n \<Rightarrow> yaml_version \<Rightarrow> tls_configuration result" where
  "get_tls E yml version = fill_tls E tls_default yml version"


section \<open>Readers that fail with a configuration error only\<close>

definition config_only :: "'a result \<Rightarrow> bool" where
  "config_only m \<longleftrightarrow> (case m of Inl e \<Rightarrow> e = ConfigurationException | Inr _ \<Rightarrow> True)"

lemma config_only_simps [simp]:
  "config_only (Inr x)" "config_only (Inl e) \<longleftrightarrow> e = ConfigurationException"
  by (simp_all add: config_only_def)

lemma config_only_rbind [reader_intros]:
  "config_only m \<Longrightarrow> (\<And>x. config_only (f x)) \<Longrightarrow> config_only (rbind m f)"
  by (cases m) auto

lemma config_only_return [reader_intros]: "config_only (Inr x)"
  "config_only (Inl ConfigurationException)"
  by simp_all

lemma config_only_if [reader_intros]:
  "config_only a \<Longrightarrow> config_only b \<Longrightarrow> config_only (if c then a else b)"
  by simp

lemma config_only_rfold [reader_intros]:
  "(\<And>x s. config_only (f x s)) \<Longrightarrow> config_only (rfold f xs s)"
  by (induction xs arbitrary: s) (auto intro: config_only_rbind)

lemma rethrow_configuration_Inr [simp]:
  "rethrow_configuration m = Inr x \<longleftrightarrow> m = Inr x"
  by (cases m) (simp_all add: rethrow_configuration_def)

lemma config_only_rethrow [reader_intros]: "config_only m \<Longrightarrow> config_only (rethrow_configuration m)"
  by (cases m) (simp_all add: rethrow_configuration_def)

lemma config_only_tag [reader_intros]:
  "config_only (is_tag_present E yml tag)" "config_only (get_value_in_tag E yml tag)"
  unfolding get_value_in_tag_def is_tag_present_def by (intro reader_intros)+

lemma config_only_when_tag [reader_intros]:
  "(\<And>x. config_only (body x)) \<Longrightarrow> config_only (when_tag E yml tag body x)"
  unfolding when_tag_def by (intro reader_intros)

lemma config_only_scalar [reader_intros]: "config_only (get_scalar E as yml)"
  by (simp add: get_scalar_def split: option.splits)

lemma config_only_scalar_in_tag [reader_intros]: "config_only (get_scalar_in_tag E as yml tag)"
  unfolding get_scalar_in_tag_def by (intro reader_intros)

lemma config_only_enumeration [reader_intros]: "config_only (get_enumeration E yml vs)"
  unfolding get_enumeration_def
  by (rule config_only_rbind [OF config_only_scalar]) (simp split: option.splits)

text \<open>
  What the templates of the reader rely on: a reader of an element that raises nothing but a
  \<^verbatim>\<open>ConfigurationException\<close> gives readers of a tag, of a list and of a set that do the same.
\<close>

locale config_reader =
  fixes E :: "'n yaml_env"
    and get :: "'n \<Rightarrow> yaml_version \<Rightarrow> 'a result"
  assumes only_configuration [reader_intros]: "config_only (get n v)"
begin

lemma in_tag [reader_intros]: "config_only (get_in_tag E get yml tag v)"
  unfolding get_in_tag_def by (intro reader_intros)

lemma if_present [reader_intros]: "config_only (get_if_present E get yml tag v)"
  unfolding get_if_present_def by (intro reader_intros)

lemma optional [reader_intros]: "config_only (optional_member E get update yml v tag x)"
  unfolding optional_member_def by (intro reader_intros)

lemma list_in_tag [reader_intros]: "config_only (get_list_in_tag E get yml tag v)"
  unfolding get_list_in_tag_def get_list_def get_elements_def by (intro reader_intros)

lemma set_in_tag [reader_intros]: "config_only (get_set E to_set get yml tag v)"
  unfolding get_set_def by (intro reader_intros)

end

interpretation uint_reader: config_reader E "get_uint E" for E
  by unfold_locales (simp add: get_uint_def reader_intros)

interpretation bool_reader: config_reader E "get_bool E" for E
  by unfold_locales (simp add: get_bool_def reader_intros)

interpretation string_reader: config_reader E "get_string E" for E
  by unfold_locales (simp add: get_string_def reader_intros)

interpretation version_reader: config_reader E "get_version E" for E
  by unfold_locales (simp add: get_version_def reader_intros)

interpretation transport_reader: config_reader E "get_transport_protocol E" for E
  by unfold_locales (simp add: get_transport_protocol_def reader_intros)

interpretation ip_version_reader: config_reader E "get_ip_version E" for E
  by unfold_locales (simp add: get_ip_version_def reader_intros)

interpretation port_reader: config_reader E "get_port E" for E
  by unfold_locales (simp add: get_port_def reader_intros)

interpretation participant_id_reader: config_reader E "get_participant_id E" for E
  by unfold_locales (simp add: get_participant_id_def reader_intros)

interpretation participant_kind_reader: config_reader E "get_participant_kind E" for E
  by unfold_locales (simp add: get_participant_kind_def Let_def reader_intros)

interpretation domain_id_reader: config_reader E "get_domain_id E" for E
  by unfold_locales (simp add: get_domain_id_def reader_intros)

interpretation guid_prefix_reader: config_reader E "get_guid_prefix E" for E
  by unfold_locales (simp add: get_guid_prefix_def reader_intros)

interpretation address_reader: config_reader E "get_address E" for E
  by unfold_locales (unfold get_address_def Let_def, intro reader_intros)

interpretation ds_connection_reader: config_reader E "get_discovery_server_connection_address E" for E
proof unfold_locales
  fix n v
  have "config_only (get_discovery_server_connection_address_v1 E n v)"
    "config_only (get_discovery_server_connection_address_latest E n v)"
    unfolding get_discovery_server_connection_address_v1_def get_discovery_server_connection_address_latest_def
    by (intro reader_intros)+
  then show "config_only (get_discovery_server_connection_address E n v)"
    by (cases v) (simp_all add: get_discovery_server_connection_address_def)
qed

lemma config_only_fill_topic_qos [reader_intros]: "config_only (fill_topic_qos E q yml v)"
  unfolding fill_topic_qos_def by (intro reader_intros)

interpretation dds_topic_reader: config_reader E "get_dds_topic E" for E
  by unfold_locales (unfold get_dds_topic_def fill_dds_topic_def fill_topic_def Let_def, intro reader_intros)

interpretation wildcard_filter_reader: config_reader E "get_wildcard_filter E" for E
  by unfold_locales (unfold get_wildcard_filter_def fill_wildcard_filter_def Let_def, intro reader_intros)

lemma config_only_fill_tls [reader_intros]: "config_only (fill_tls E t yml v)"
  unfolding fill_tls_def set_tls_kind_def by (intro reader_intros)

interpretation tls_reader: config_reader E "get_tls E" for E
  by unfold_locales (unfold get_tls_def, intro reader_intros)

end
