(* ===== verification/Yaml_Configuration.thy ===== *)
theory Yaml_Configuration
  imports Yaml_Reader
begin

text \<open>
  The reader of the YAML configuration, second half: the configurations of the participants, the
  configuration of the router in the first version of the format and in the later ones, and the entry
  points of \<^verbatim>\<open>YamlReaderConfiguration.cpp\<close>. The parent class a \<^verbatim>\<open>fill\<close> reads first is the base of the
  configuration it fills.
\<close>

section \<open>Participants\<close>

text \<open>The default-constructed configuration; its kind is always overwritten.\<close>

definition participant_conf_default :: participant_conf_base where
  "participant_conf_default =
     \<lparr>conf_id = participant_id_invalid, conf_kind = PK_invalid, conf_is_repeater = False\<rparr>"

definition fill_participant ::
    "'n yaml_env \<Rightarrow> participant_conf_base \<Rightarrow> 'n \<Rightarrow> yaml_version \<Rightarrow> participant_conf_base result" where
  "fill_participant E object yml version =
     rbind (get_in_tag E (get_participant_id E) yml PARTICIPANT_NAME_TAG version) (\<lambda>id.
     rbind (get_in_tag E (get_participant_kind E) yml PARTICIPANT_KIND_TAG version) (\<lambda>kind.
       Inr (object\<lparr>conf_id := id, conf_kind := kind\<rparr>)))"

definition get_participant_configuration_base ::
    "'n yaml_env \<Rightarrow> 'n \<Rightarrow> yaml_version \<Rightarrow> participant_configuration result" where
  "get_participant_configuration_base E yml version =
     rbind (fill_participant E participant_conf_default yml version) (\<lambda>b. Inr (PC_participant b))"

definition echo_conf_default :: echo_configuration where
  "echo_conf_default = \<lparr>echo_data = False, echo_discovery = True, echo_verbose = False\<rparr>"

definition get_echo_configuration ::
    "'n yaml_env \<Rightarrow> 'n \<Rightarrow> yaml_version \<Rightarrow> participant_configuration result" where
  "get_echo_configuration E yml version =
     rbind (fill_participant E participant_conf_default yml version) (\<lambda>b.
     rbind (optional_member E (get_bool E) (\<lambda>x e. e\<lparr>echo_data := x\<rparr>) yml version ECHO_DATA_TAG echo_conf_default) (\<lambda>e.
     rbind (optional_member E (get_bool E) (\<lambda>x e. e\<lparr>echo_discovery := x\<rparr>) yml version ECHO_DISCOVERY_TAG e) (\<lambda>e.
     rbind (optional_member E (get_bool E) (\<lambda>x e. e\<lparr>echo_verbose := x\<rparr>) yml version ECHO_VERBOSE_TAG e) (\<lambda>e.
       Inr (PC_echo b e)))))"

definition fill_simple ::
    "'n yaml_env \<Rightarrow> participant_conf_base \<times> domain_id \<Rightarrow> 'n \<Rightarrow> yaml_version \<Rightarrow>
     (participant_conf_base \<times> domain_id) result" where
  "fill_simple E object yml version =
     rbind (fill_participant E (fst object) yml version) (\<lambda>b.
       optional_member E (get_domain_id E) (\<lambda>d object. (fst object, d)) yml version DOMAIN_ID_TAG
         (b, snd object))"

definition simple_conf_default :: "participant_conf_base \<times> domain_id" where
  "simple_conf_default = (participant_conf_default, DomainId 0)"

definition get_simple_configuration ::
    "'n yaml_env \<Rightarrow> 'n \<Rightarrow> yaml_version \<Rightarrow> participant_configuration result" where
  "get_simple_configuration E yml version =
     rbind (fill_simple E simple_conf_default yml version) (\<lambda>(b, d). Inr (PC_simple b d))"

text \<open>The optional set of addresses and the optional TLS block, with the values that stay otherwise.\<close>

definition get_optional_set ::
    "'n yaml_env \<Rightarrow> ('a list \<Rightarrow> 'a list) \<Rightarrow> ('n \<Rightarrow> yaml_version \<Rightarrow> 'a result) \<Rightarrow> 'n \<Rightarrow> yaml_version \<Rightarrow> string \<Rightarrow>
     'a list \<Rightarrow> 'a list result" where
  "get_optional_set E to_set get yml version tag =
     when_tag E yml tag (\<lambda>_. get_set E to_set get yml tag version)"

definition fill_optional_tls ::
    "'n yaml_env \<Rightarrow> 'n \<Rightarrow> yaml_version \<Rightarrow> tls_configuration \<Rightarrow> tls_configuration result" where
  "fill_optional_tls E yml version =
     when_tag E yml TLS_TAG (\<lambda>t. rbind (get_value_in_tag E yml TLS_TAG) (\<lambda>n. fill_tls E t n version))"

definition get_discovery_server_configuration ::
    "'n yaml_env \<Rightarrow> 'n \<Rightarrow> yaml_version \<Rightarrow> participant_configuration result" where
  "get_discovery_server_configuration E yml version =
     rbind (fill_simple E simple_conf_default yml version) (\<lambda>(b, d).
     rbind (get_optional_set E address_set (get_address E) yml version LISTENING_ADDRESSES_TAG []) (\<lambda>listening.
     rbind (get_optional_set E (sset_of_list ds_connection_key) (get_discovery_server_connection_address E)
              yml version CONNECTION_ADDRESSES_TAG []) (\<lambda>connection.
     rbind (fill_optional_tls E yml version tls_default) (\<lambda>tls.
     rbind (case version of
              V_1_0 \<Rightarrow> get_guid_prefix E yml version
            | _ \<Rightarrow> get_in_tag E (get_guid_prefix E) yml DISCOVERY_SERVER_GUID_PREFIX_TAG version) (\<lambda>prefix.
       Inr (PC_discovery_server b d prefix listening connection tls))))))"

definition get_initial_peers_configuration ::
    "'n yaml_env \<Rightarrow> 'n \<Rightarrow> yaml_version \<Rightarrow> participant_configuration result" where
  "get_initial_peers_configuration E yml version =
     rbind (fill_simple E simple_conf_default yml version) (\<lambda>(b, d).
     rbind (get_optional_set E address_set (get_address E) yml version LISTENING_ADDRESSES_TAG []) (\<lambda>listening.
     rbind (get_optional_set E address_set (get_address E) yml version CONNECTION_ADDRESSES_TAG []) (\<lambda>connection.
     rbind (fill_optional_tls E yml version tls_default) (\<lambda>tls.
     rbind (optional_member E (get_bool E) (\<lambda>x b. b\<lparr>conf_is_repeater := x\<rparr>) yml version IS_REPEATER_TAG b) (\<lambda>b.
       Inr (PC_initial_peers b d listening connection tls))))))"

definition get_participant_configuration ::
    "'n yaml_env \<Rightarrow> 'n \<Rightarrow> yaml_version \<Rightarrow> participant_configuration result" where
  "get_participant_configuration E yml version =
     rbind (get_in_tag E (get_participant_kind E) yml PARTICIPANT_KIND_TAG version) (\<lambda>kind.
       case kind of
         PK_blank \<Rightarrow> get_participant_configuration_base E yml version
       | PK_dummy \<Rightarrow> get_participant_configuration_base E yml version
       | PK_echo \<Rightarrow> get_echo_configuration E yml version
       | PK_simple_rtps \<Rightarrow> get_simple_configuration E yml version
       | PK_local_discovery_server \<Rightarrow> get_discovery_server_configuration E yml version
       | PK_wan_discovery_server \<Rightarrow> get_discovery_server_configuration E yml version
       | PK_wan_initial_peers \<Rightarrow> get_initial_peers_configuration E yml version
       | PK_invalid \<Rightarrow>
           rbind (get_in_tag E (get_string E) yml PARTICIPANT_KIND_TAG version)
             (\<lambda>invalid_kind. Inl ConfigurationException))"

section \<open>Router\<close>

definition fill_specs ::
    "'n yaml_env \<Rightarrow> specs_configuration \<Rightarrow> 'n \<Rightarrow> yaml_version \<Rightarrow> specs_configuration result" where
  "fill_specs E object yml version =
     rbind (optional_member E (get_uint E) (\<lambda>x s. s\<lparr>number_of_threads := x\<rparr>) yml version NUMBER_THREADS_TAG object) (\<lambda>object.
     optional_member E (get_uint E) (\<lambda>x s. s\<lparr>max_history_depth := x\<rparr>) yml version MAX_HISTORY_DEPTH_TAG object)"

definition router_configuration_default :: router_configuration where
  "router_configuration_default =
     \<lparr>cfg_allowlist = [], cfg_blocklist = [], cfg_builtin_topics = [],
      participants_configurations = [], advanced_options = specs_default\<rparr>"

text \<open>
  The comparison of filters is the reverse of the order of their printed forms, so the set is visited
  from the largest printed form down.
\<close>

definition filter_set :: "'n yaml_env \<Rightarrow> wildcard_filter list \<Rightarrow> wildcard_filter list" where
  "filter_set E fs = rev (sset_of_list (wildcard_serialize (y_print_fuzzy E)) fs)"

definition fill_allowlist ::
    "'n yaml_env \<Rightarrow> 'n \<Rightarrow> yaml_version \<Rightarrow> router_configuration \<Rightarrow> router_configuration result" where
  "fill_allowlist E yml version =
     when_tag E yml ALLOWLIST_TAG (\<lambda>c.
       rbind (get_set E (filter_set E) (get_wildcard_filter E) yml ALLOWLIST_TAG version)
         (\<lambda>fs. Inr (c\<lparr>cfg_allowlist := map Some fs\<rparr>)))"

definition fill_blocklist ::
    "'n yaml_env \<Rightarrow> 'n \<Rightarrow> yaml_version \<Rightarrow> router_configuration \<Rightarrow> router_configuration result" where
  "fill_blocklist E yml version =
     when_tag E yml BLOCKLIST_TAG (\<lambda>c.
       rbind (get_set E (filter_set E) (get_wildcard_filter E) yml BLOCKLIST_TAG version)
         (\<lambda>fs. Inr (c\<lparr>cfg_blocklist := map Some fs\<rparr>)))"

text \<open>The body of the loop that makes builtin topics of the entries of the allowlist.\<close>

definition filter_type_string :: "'n yaml_env \<Rightarrow> wildcard_filter \<Rightarrow> string" where
  "filter_type_string E f = (case filter_type_name f of None \<Rightarrow> y_unset_string E | Some ty \<Rightarrow> ty)"

definition builtin_topic_of_filter :: "'n yaml_env \<Rightarrow> wildcard_filter option \<Rightarrow> dds_topic option list" where
  "builtin_topic_of_filter E topic =
     (case topic of
        None \<Rightarrow> []
      | Some f \<Rightarrow>
          if is_valid_dds_topic (y_default_history_depth E) (filter_topic_name f) (filter_type_string E f) then
            (let real_topic = dds_topic_of_names (y_default_history_depth E) (filter_topic_name f)
                                (filter_type_string E f)
             in [Some (case filter_keyed f of None \<Rightarrow> real_topic | Some k \<Rightarrow> real_topic\<lparr>keyed := k\<rparr>)])
          else [])"

definition insert_participant_v1 ::
    "'n yaml_env \<Rightarrow> yaml_version \<Rightarrow> 'n \<times> 'n \<Rightarrow> router_configuration \<Rightarrow> router_configuration result" where
  "insert_participant_v1 E version entry object =
     (case y_as_string E (fst entry) of
        None \<Rightarrow> Inl YamlException
      | Some name_str \<Rightarrow>
          if is_tag name_str then Inr object
          else
            let participant_yml = snd entry in
            if \<not> y_is_map E participant_yml then Inl ConfigurationException
            else case y_get E participant_yml PARTICIPANT_KIND_TAG_V1 of
                None \<Rightarrow> Inl ConfigurationException
              | Some _ \<Rightarrow>
                  let participant_yml = y_set E participant_yml PARTICIPANT_NAME_TAG (y_of_string E name_str);
                      participant_yml = y_set E participant_yml PARTICIPANT_KIND_TAG
                        (the (y_get E participant_yml PARTICIPANT_KIND_TAG_V1))
                  in rbind (get_participant_configuration E participant_yml version) (\<lambda>p.
                       Inr (object\<lparr>participants_configurations :=
                              participants_configurations object @ [Some p]\<rparr>)))"

definition fill_ddsrouter_configuration_v1 ::
    "'n yaml_env \<Rightarrow> router_configuration \<Rightarrow> 'n \<Rightarrow> yaml_version \<Rightarrow> router_configuration result" where
  "fill_ddsrouter_configuration_v1 E object yml version =
     rbind (fill_allowlist E yml version object) (\<lambda>object.
     rbind (fill_blocklist E yml version object) (\<lambda>object.
     let object = object\<lparr>cfg_builtin_topics :=
           cfg_builtin_topics object @ concat (map (builtin_topic_of_filter E) (cfg_allowlist object))\<rparr>
     in rfold (insert_participant_v1 E version) (y_entries E yml) object))"

definition insert_participant ::
    "'n yaml_env \<Rightarrow> yaml_version \<Rightarrow> 'n \<Rightarrow> router_configuration \<Rightarrow> router_configuration result" where
  "insert_participant E version conf object =
     rbind (get_participant_configuration E conf version) (\<lambda>p.
       Inr (object\<lparr>participants_configurations := participants_configurations object @ [Some p]\<rparr>))"

definition fill_builtin_topics ::
    "'n yaml_env \<Rightarrow> 'n \<Rightarrow> yaml_version \<Rightarrow> router_configuration \<Rightarrow> router_configuration result" where
  "fill_builtin_topics E yml version =
     when_tag E yml BUILTIN_TAG (\<lambda>c.
       rbind (get_set E (sset_of_list dds_topic_key) (get_dds_topic E) yml BUILTIN_TAG version)
         (\<lambda>ts. Inr (c\<lparr>cfg_builtin_topics := map Some ts\<rparr>)))"

definition fill_advanced_options ::
    "'n yaml_env \<Rightarrow> 'n \<Rightarrow> yaml_version \<Rightarrow> router_configuration \<Rightarrow> router_configuration result" where
  "fill_advanced_options E yml version =
     when_tag E yml SPECS_TAG (\<lambda>c.
       rbind (get_value_in_tag E yml SPECS_TAG) (\<lambda>n.
       rbind (fill_specs E (advanced_options c) n version) (\<lambda>specs.
         Inr (c\<lparr>advanced_options := specs\<rparr>))))"

definition fill_ddsrouter_configuration_latest ::
    "'n yaml_env \<Rightarrow> router_configuration \<Rightarrow> 'n \<Rightarrow> yaml_version \<Rightarrow> router_configuration result" where
  "fill_ddsrouter_configuration_latest E object yml version =
     rbind (fill_allowlist E yml version object) (\<lambda>object.
     rbind (fill_blocklist E yml version object) (\<lambda>object.
     rbind (fill_builtin_topics E yml version object) (\<lambda>object.
     rbind (get_value_in_tag E yml COLLECTION_PARTICIPANTS_TAG) (\<lambda>participants_configurations_yml.
     if \<not> y_is_sequence E participants_configurations_yml then Inl ConfigurationException
     else
       rbind (rfold (insert_participant E version) (y_elements E participants_configurations_yml) object) (\<lambda>object.
         fill_advanced_options E yml version object)))))"

definition get_router_configuration :: "'n yaml_env \<Rightarrow> 'n \<Rightarrow> yaml_version \<Rightarrow> router_configuration result" where
  "get_router_configuration E yml version =
     (case version of
        V_1_0 \<Rightarrow> fill_ddsrouter_configuration_v1 E router_configuration_default yml version
      | _ \<Rightarrow> fill_ddsrouter_configuration_latest E router_configuration_default yml version)"

section \<open>Entry points\<close>

definition default_yaml_version :: yaml_version where
  "default_yaml_version = V_1_0"

definition read_yaml_version :: "'n yaml_env \<Rightarrow> 'n \<Rightarrow> yaml_version result" where
  "read_yaml_version E yml =
     rbind (is_tag_present E yml VERSION_TAG) (\<lambda>present.
       if present then get_in_tag E (get_version E) yml VERSION_TAG LATEST
       else Inr default_yaml_version)"

definition load_ddsrouter_configuration :: "'n yaml_env \<Rightarrow> 'n \<Rightarrow> router_configuration result" where
  "load_ddsrouter_configuration E yml =
     rethrow_configuration
       (rbind (read_yaml_version E yml) (\<lambda>version. get_router_configuration E yml version))"

definition load_file :: "'n yaml_env \<Rightarrow> string \<Rightarrow> 'n result" where
  "load_file E file_path =
     (case y_load_file E file_path of None \<Rightarrow> Inl ConfigurationException | Some yml \<Rightarrow> Inr yml)"

definition load_ddsrouter_configuration_from_file :: "'n yaml_env \<Rightarrow> string \<Rightarrow> router_configuration result" where
  "load_ddsrouter_configuration_from_file E file_path =
     rbind (rethrow_configuration (load_file E file_path)) (load_ddsrouter_configuration E)"


section \<open>Lemmas: errors\<close>

lemma config_only_fill_participant [reader_intros]: "config_only (fill_participant E b yml v)"
  unfolding fill_participant_def by (intro reader_intros)

lemma config_only_fill_simple [reader_intros]: "config_only (fill_simple E s yml v)"
  unfolding fill_simple_def by (intro reader_intros)

lemma config_only_fill_optional_tls [reader_intros]: "config_only (fill_optional_tls E yml v t)"
  unfolding fill_optional_tls_def by (intro reader_intros)

lemma config_only_optional_set [reader_intros]:
  "(\<And>n v. config_only (get n v)) \<Longrightarrow> config_only (get_optional_set E to_set get yml v tag s)"
  unfolding get_optional_set_def
  by (intro config_only_when_tag config_reader.set_in_tag config_reader.intro)

lemma config_only_case_prod [reader_intros]:
  "(\<And>a b. config_only (f a b)) \<Longrightarrow> config_only (case p of (a, b) \<Rightarrow> f a b)"
  by (cases p) simp

lemma config_only_ds_prefix [reader_intros]:
  "config_only (case v of V_1_0 \<Rightarrow> get_guid_prefix E yml w
     | _ \<Rightarrow> get_in_tag E (get_guid_prefix E) yml tag w)"
  by (cases v) (simp_all add: reader_intros)

interpretation participant_reader: config_reader E "get_participant_configuration E" for E
proof unfold_locales
  fix n v
  have "config_only (get_participant_configuration_base E n v)"
    "config_only (get_echo_configuration E n v)" "config_only (get_simple_configuration E n v)"
    "config_only (get_discovery_server_configuration E n v)"
    "config_only (get_initial_peers_configuration E n v)"
    unfolding get_participant_configuration_base_def get_echo_configuration_def
      get_simple_configuration_def get_discovery_server_configuration_def get_initial_peers_configuration_def
    by (intro reader_intros)+
  then show "config_only (get_participant_configuration E n v)"
    unfolding get_participant_configuration_def
    by (intro config_only_rbind participant_kind_reader.in_tag)
      (simp add: config_only_rbind string_reader.in_tag split: participant_kind.split)
qed

lemma config_only_fill_specs [reader_intros]: "config_only (fill_specs E s yml v)"
  unfolding fill_specs_def by (intro reader_intros)

lemma config_only_filter_lists [reader_intros]:
  "config_only (fill_allowlist E yml v c)" "config_only (fill_blocklist E yml v c)"
  unfolding fill_allowlist_def fill_blocklist_def by (intro reader_intros)+

lemma config_only_latest: "config_only (fill_ddsrouter_configuration_latest E c yml v)"
  unfolding fill_ddsrouter_configuration_latest_def insert_participant_def fill_builtin_topics_def
    fill_advanced_options_def
  by (intro reader_intros)

text \<open>The names of the first version may raise an exception of the YAML library too.\<close>

definition std_exception_only :: "'a result \<Rightarrow> bool" where
  "std_exception_only m \<longleftrightarrow> (case m of Inl e \<Rightarrow> is_std_exception e | Inr _ \<Rightarrow> True)"

lemma config_only_std: "config_only m \<Longrightarrow> std_exception_only m"
  by (cases m) (simp_all add: std_exception_only_def)

lemma std_exception_only_rbind:
  "std_exception_only m \<Longrightarrow> (\<And>x. std_exception_only (f x)) \<Longrightarrow> std_exception_only (rbind m f)"
  by (cases m) (simp_all add: std_exception_only_def)

lemma std_exception_only_rfold:
  "(\<And>x s. std_exception_only (f x s)) \<Longrightarrow> std_exception_only (rfold f xs s)"
proof (induction xs arbitrary: s)
  case Nil
  then show ?case by (simp add: std_exception_only_def)
next
  case (Cons x xs)
  then show ?case by (simp add: std_exception_only_rbind)
qed

lemma rethrow_std: "std_exception_only m \<Longrightarrow> config_only (rethrow_configuration m)"
  by (cases m) (simp_all add: std_exception_only_def rethrow_configuration_def)

lemma std_exception_only_insert_v1: "std_exception_only (insert_participant_v1 E v entry c)"
proof -
  have "std_exception_only (rbind (get_participant_configuration E n v) (\<lambda>p. Inr (f p)))"
    for n and f :: "participant_configuration \<Rightarrow> router_configuration"
    by (intro config_only_std reader_intros)
  then show ?thesis
    by (simp add: insert_participant_v1_def Let_def config_only_std std_exception_only_def [of "Inl _"]
        std_exception_only_def [of "Inr _"] split: option.split)
qed

lemma std_exception_only_v1: "std_exception_only (fill_ddsrouter_configuration_v1 E c yml v)"
  unfolding fill_ddsrouter_configuration_v1_def Let_def
  by (intro std_exception_only_rbind std_exception_only_rfold std_exception_only_insert_v1)
    (simp_all add: config_only_std reader_intros)

lemma std_exception_only_router: "std_exception_only (get_router_configuration E yml v)"
  by (cases v) (simp_all add: get_router_configuration_def std_exception_only_v1
      config_only_std config_only_latest)

lemma config_only_load [reader_intros]: "config_only (load_ddsrouter_configuration E yml)"
  unfolding load_ddsrouter_configuration_def read_yaml_version_def
  by (intro rethrow_std std_exception_only_rbind std_exception_only_router config_only_std reader_intros)

lemma config_only_load_file: "config_only (load_ddsrouter_configuration_from_file E path)"
  unfolding load_ddsrouter_configuration_from_file_def load_file_def
  by (intro config_only_rbind config_only_rethrow config_only_load) (simp split: option.split)


section \<open>Lemmas: what is read\<close>

lemma when_tag_Inr: "when_tag E yml tag body x = Inr y \<Longrightarrow> y = x \<or> body x = Inr y"
  by (auto simp: when_tag_def rbind_eq_Inr_iff split: if_splits)

lemma optional_member_Inr:
  "optional_member E get update yml v tag x = Inr y \<Longrightarrow> y = x \<or> (\<exists>m. y = update m x)"
  unfolding optional_member_def by (drule when_tag_Inr) (auto simp: rbind_eq_Inr_iff)

lemma rfold_append_Inr:
  assumes "rfold f xs s = Inr s'" and "\<And>x s s'. f x s = Inr s' \<Longrightarrow> P s \<Longrightarrow> P s'" and "P s"
  shows "P s'"
  using assms(1,3) by (induction xs arbitrary: s) (auto simp: rbind_eq_Inr_iff intro: assms(2))

text \<open>A TLS block leaves a configuration that serves a role exactly when its files allow the role.\<close>

definition tls_roles_exact :: "tls_configuration \<Rightarrow> bool" where
  "tls_roles_exact t \<longleftrightarrow>
     tls_is_active t \<and> tls_is_valid t \<and>
     tls_compatible TLS_client t = tls_client_valid t \<and> tls_compatible TLS_server t = tls_server_valid t"

lemma tls_kind_valid_update [simp]:
  "tls_client_valid (t\<lparr>tls_kind_of := k\<rparr>) = tls_client_valid t"
  "tls_server_valid (t\<lparr>tls_kind_of := k\<rparr>) = tls_server_valid t"
  by (simp_all add: tls_client_valid_def tls_server_valid_def)

lemma set_tls_kind_roles: "set_tls_kind t = Inr t' \<Longrightarrow> tls_roles_exact t'"
  by (cases "tls_client_valid t"; cases "tls_server_valid t")
    (auto simp: set_tls_kind_def tls_roles_exact_def tls_is_active_def tls_is_valid_def
      tls_compatible_def tls_both_valid_def)

lemma fill_tls_roles: "fill_tls E t yml v = Inr t' \<Longrightarrow> tls_roles_exact t'"
  by (auto simp: fill_tls_def rbind_eq_Inr_iff dest: set_tls_kind_roles)

fun pc_tls :: "participant_configuration \<Rightarrow> tls_configuration option" where
  "pc_tls (PC_discovery_server b d g ls cs t) = Some t"
| "pc_tls (PC_initial_peers b d ls cs t) = Some t"
| "pc_tls _ = None"

lemma fill_optional_tls_roles:
  "fill_optional_tls E yml v tls_default = Inr t \<Longrightarrow> t = tls_default \<or> tls_roles_exact t"
  unfolding fill_optional_tls_def by (drule when_tag_Inr) (auto simp: rbind_eq_Inr_iff dest: fill_tls_roles)

abbreviation reads_kind :: "'n yaml_env \<Rightarrow> 'n \<Rightarrow> yaml_version \<Rightarrow> participant_kind \<Rightarrow> bool" where
  "reads_kind E yml v k \<equiv> get_in_tag E (get_participant_kind E) yml PARTICIPANT_KIND_TAG v = Inr k"

lemma fill_participant_Inr:
  "fill_participant E b yml v = Inr b' \<Longrightarrow>
     reads_kind E yml v (conf_kind b') \<and> conf_is_repeater b' = conf_is_repeater b"
  by (auto simp: fill_participant_def rbind_eq_Inr_iff)

lemma fill_simple_Inr:
  "fill_simple E simple_conf_default yml v = Inr (b, d) \<Longrightarrow>
     reads_kind E yml v (conf_kind b) \<and> \<not> conf_is_repeater b"
  by (auto simp: fill_simple_def simple_conf_default_def participant_conf_default_def rbind_eq_Inr_iff
      dest!: optional_member_Inr fill_participant_Inr)

text \<open>What holds of every participant configuration the reader returns.\<close>

definition pc_read_ok :: "yaml_version \<Rightarrow> participant_configuration \<Rightarrow> bool" where
  "pc_read_ok v p \<longleftrightarrow>
     conf_kind (pc_base p) \<noteq> PK_invalid \<and> check_correct_configuration_object p \<and>
     (conf_is_repeater (pc_base p) \<longrightarrow> conf_kind (pc_base p) = PK_wan_initial_peers) \<and>
     (yaml_version_value v \<le> yaml_version_value V_2_0 \<longrightarrow> conf_kind (pc_base p) \<noteq> PK_wan_initial_peers) \<and>
     (case pc_tls p of None \<Rightarrow> True | Some t \<Rightarrow> t = tls_default \<or> tls_roles_exact t)"

lemma reads_kind_version:
  "reads_kind E yml v k \<Longrightarrow> yaml_version_value v \<le> yaml_version_value V_2_0 \<Longrightarrow> k \<noteq> PK_wan_initial_peers"
  by (auto simp: get_in_tag_def get_participant_kind_def rbind_eq_Inr_iff Let_def split: if_splits)

lemma participant_base_Inr:
  "get_participant_configuration_base E yml v = Inr p \<Longrightarrow>
     \<exists>b. p = PC_participant b \<and> reads_kind E yml v (conf_kind b) \<and> \<not> conf_is_repeater b"
  by (auto simp: get_participant_configuration_base_def participant_conf_default_def rbind_eq_Inr_iff
      dest!: fill_participant_Inr)

lemma echo_Inr:
  "get_echo_configuration E yml v = Inr p \<Longrightarrow>
     \<exists>b e. p = PC_echo b e \<and> reads_kind E yml v (conf_kind b) \<and> \<not> conf_is_repeater b"
  by (auto simp: get_echo_configuration_def participant_conf_default_def rbind_eq_Inr_iff
      dest!: fill_participant_Inr)

lemma simple_Inr:
  "get_simple_configuration E yml v = Inr p \<Longrightarrow>
     \<exists>b d. p = PC_simple b d \<and> reads_kind E yml v (conf_kind b) \<and> \<not> conf_is_repeater b"
  by (auto simp: get_simple_configuration_def rbind_eq_Inr_iff dest!: fill_simple_Inr)

lemma discovery_server_Inr:
  "get_discovery_server_configuration E yml v = Inr p \<Longrightarrow>
     \<exists>b d g ls cs t. p = PC_discovery_server b d g ls cs t \<and> reads_kind E yml v (conf_kind b) \<and>
       \<not> conf_is_repeater b \<and> (t = tls_default \<or> tls_roles_exact t)"
  by (auto simp: get_discovery_server_configuration_def rbind_eq_Inr_iff
      dest!: fill_simple_Inr fill_optional_tls_roles)

lemma initial_peers_Inr:
  "get_initial_peers_configuration E yml v = Inr p \<Longrightarrow>
     \<exists>b d ls cs t. p = PC_initial_peers b d ls cs t \<and> reads_kind E yml v (conf_kind b) \<and>
       (t = tls_default \<or> tls_roles_exact t)"
  by (auto simp: get_initial_peers_configuration_def rbind_eq_Inr_iff
      dest!: fill_simple_Inr fill_optional_tls_roles optional_member_Inr)

lemmas participant_read_Inr =
  participant_base_Inr echo_Inr simple_Inr discovery_server_Inr initial_peers_Inr

lemma participant_read_ok:
  assumes "get_participant_configuration E yml v = Inr p"
  shows "pc_read_ok v p"
proof -
  obtain k where k: "reads_kind E yml v k"
    using assms by (auto simp: get_participant_configuration_def rbind_eq_Inr_iff)
  then show ?thesis
    using assms reads_kind_version [OF k]
    by (cases k)
      (auto simp: get_participant_configuration_def pc_read_ok_def check_correct_configuration_object_def
        rbind_eq_Inr_iff dest!: participant_read_Inr)
qed


text \<open>The loops over the participants only append participants that were read.\<close>

definition appends_read :: "yaml_version \<Rightarrow> router_configuration \<Rightarrow> router_configuration \<Rightarrow> bool" where
  "appends_read v c c' \<longleftrightarrow>
     (\<exists>ps. list_all (pc_read_ok v) ps \<and>
        c' = c\<lparr>participants_configurations := participants_configurations c @ map Some ps\<rparr>)"

lemma appends_read_refl: "appends_read v c c"
  unfolding appends_read_def by (rule exI [of _ "[]"]) simp

lemma appends_read_trans: "appends_read v a b \<Longrightarrow> appends_read v b c \<Longrightarrow> appends_read v a c"
proof -
  assume "appends_read v a b" "appends_read v b c"
  then obtain ps qs where "list_all (pc_read_ok v) (ps @ qs)"
    "b = a\<lparr>participants_configurations := participants_configurations a @ map Some ps\<rparr>"
    "c = b\<lparr>participants_configurations := participants_configurations b @ map Some qs\<rparr>"
    by (auto simp: appends_read_def)
  then show ?thesis unfolding appends_read_def by (intro exI [of _ "ps @ qs"]) simp
qed

lemma appends_read_one:
  "pc_read_ok v p \<Longrightarrow>
   appends_read v c (c\<lparr>participants_configurations := participants_configurations c @ [Some p]\<rparr>)"
  unfolding appends_read_def by (rule exI [of _ "[p]"]) simp

lemma appends_read_rfold:
  assumes "rfold f xs c = Inr c'" and "\<And>x c c'. f x c = Inr c' \<Longrightarrow> appends_read v c c'"
  shows "appends_read v c c'"
  by (rule rfold_append_Inr [OF assms(1), where P = "appends_read v c"])
    (auto intro: appends_read_refl appends_read_trans assms(2))

lemma insert_participant_Inr: "insert_participant E v n c = Inr c' \<Longrightarrow> appends_read v c c'"
  by (auto simp: insert_participant_def rbind_eq_Inr_iff intro: appends_read_one dest: participant_read_ok)

lemma insert_participant_v1_Inr: "insert_participant_v1 E v entry c = Inr c' \<Longrightarrow> appends_read v c c'"
  by (auto simp: insert_participant_v1_def rbind_eq_Inr_iff Let_def intro: appends_read_one appends_read_refl
      dest: participant_read_ok split: option.splits if_splits)

text \<open>The parts read before the participants.\<close>

lemma fill_allowlist_Inr:
  "fill_allowlist E yml v c = Inr c' \<Longrightarrow> c' = c \<or> (\<exists>fs. c' = c\<lparr>cfg_allowlist := map Some fs\<rparr>)"
  unfolding fill_allowlist_def by (drule when_tag_Inr) (auto simp: rbind_eq_Inr_iff)

lemma fill_blocklist_Inr:
  "fill_blocklist E yml v c = Inr c' \<Longrightarrow> c' = c \<or> (\<exists>fs. c' = c\<lparr>cfg_blocklist := map Some fs\<rparr>)"
  unfolding fill_blocklist_def by (drule when_tag_Inr) (auto simp: rbind_eq_Inr_iff)

lemma fill_lists_Inr:
  assumes "fill_allowlist E yml v router_configuration_default = Inr c1" and "fill_blocklist E yml v c1 = Inr c2"
  shows "\<exists>as bs. c2 = router_configuration_default\<lparr>cfg_allowlist := map Some as, cfg_blocklist := map Some bs\<rparr>"
  using fill_allowlist_Inr [OF assms(1)] fill_blocklist_Inr [OF assms(2)]
proof (elim disjE exE)
  show ?thesis if "c1 = router_configuration_default" "c2 = c1"
    by (rule exI [of _ "[]"], rule exI [of _ "[]"]) (simp add: that router_configuration_default_def)
  show ?thesis if "c1 = router_configuration_default" "c2 = c1\<lparr>cfg_blocklist := map Some fs\<rparr>" for fs
    by (rule exI [of _ "[]"], rule exI [of _ fs]) (simp add: that router_configuration_default_def)
  show ?thesis if "c1 = router_configuration_default\<lparr>cfg_allowlist := map Some fs\<rparr>" "c2 = c1" for fs
    by (rule exI [of _ fs], rule exI [of _ "[]"]) (simp add: that router_configuration_default_def)
  show ?thesis if "c1 = router_configuration_default\<lparr>cfg_allowlist := map Some fs\<rparr>"
    "c2 = c1\<lparr>cfg_blocklist := map Some gs\<rparr>" for fs gs
    using that by auto
qed

text \<open>The builtin topics of the first version.\<close>

definition builtin_of_filter :: "'n yaml_env \<Rightarrow> wildcard_filter \<Rightarrow> dds_topic" where
  "builtin_of_filter E f =
     dds_topic_of (filter_topic_name f) (filter_type_string E f)
       (case filter_keyed f of None \<Rightarrow> False | Some k \<Rightarrow> k) (topic_qos_default (y_default_history_depth E))"

lemma dds_topic_is_valid_cong:
  "topic_name t = topic_name u \<Longrightarrow> type_name t = type_name u \<Longrightarrow> dds_topic_is_valid t = dds_topic_is_valid u"
  by (simp add: dds_topic_is_valid_def)

lemma builtin_of_filter_valid:
  "dds_topic_is_valid (builtin_of_filter E f) =
   is_valid_dds_topic (y_default_history_depth E) (filter_topic_name f) (filter_type_string E f)"
  unfolding is_valid_dds_topic_def
  by (rule dds_topic_is_valid_cong) (simp_all add: builtin_of_filter_def dds_topic_of_def dds_topic_of_names_def)

lemma builtin_topic_of_filter_eq:
  "builtin_topic_of_filter E (Some f) =
     (if dds_topic_is_valid (builtin_of_filter E f) then [Some (builtin_of_filter E f)] else [])"
  unfolding builtin_of_filter_valid
  by (simp add: builtin_topic_of_filter_def builtin_of_filter_def dds_topic_of_def dds_topic_of_names_def
      split: option.split)

lemma builtin_topics_of_allowlist:
  "concat (map (builtin_topic_of_filter E) (map Some fs)) =
     map Some (filter dds_topic_is_valid (map (builtin_of_filter E) fs))"
  by (induction fs) (simp_all add: builtin_topic_of_filter_eq)

text \<open>The whole configuration.\<close>

definition cfg_read_ok :: "yaml_version \<Rightarrow> router_configuration \<Rightarrow> bool" where
  "cfg_read_ok v c \<longleftrightarrow>
     (\<exists>as bs ts ps sp. list_all (pc_read_ok v) ps \<and>
        c = \<lparr>cfg_allowlist = map Some as, cfg_blocklist = map Some bs, cfg_builtin_topics = map Some ts,
             participants_configurations = map Some ps, advanced_options = sp\<rparr>)"

lemma v1_Inr:
  assumes "fill_ddsrouter_configuration_v1 E router_configuration_default yml v = Inr c"
  shows "\<exists>as bs ps. list_all (pc_read_ok v) ps \<and>
    c = \<lparr>cfg_allowlist = map Some as, cfg_blocklist = map Some bs,
         cfg_builtin_topics = map Some (filter dds_topic_is_valid (map (builtin_of_filter E) as)),
         participants_configurations = map Some ps, advanced_options = specs_default\<rparr>"
proof -
  from assms obtain c1 c2 where *: "fill_allowlist E yml v router_configuration_default = Inr c1"
      "fill_blocklist E yml v c1 = Inr c2"
      "rfold (insert_participant_v1 E v) (y_entries E yml)
        (c2\<lparr>cfg_builtin_topics := cfg_builtin_topics c2 @ concat (map (builtin_topic_of_filter E) (cfg_allowlist c2))\<rparr>)
        = Inr c"
    by (auto simp: fill_ddsrouter_configuration_v1_def rbind_eq_Inr_iff Let_def)
  obtain as bs where c2: "c2 = router_configuration_default\<lparr>cfg_allowlist := map Some as, cfg_blocklist := map Some bs\<rparr>"
    using fill_lists_Inr [OF *(1,2)] by blast
  from appends_read_rfold [OF *(3) insert_participant_v1_Inr] show ?thesis
    unfolding c2 router_configuration_default_def appends_read_def
    by (force simp: builtin_topics_of_allowlist [unfolded map_map comp_def] comp_def)
qed


lemma fill_builtin_topics_Inr:
  "fill_builtin_topics E yml v c = Inr c' \<Longrightarrow> c' = c \<or> (\<exists>ts. c' = c\<lparr>cfg_builtin_topics := map Some ts\<rparr>)"
  unfolding fill_builtin_topics_def by (drule when_tag_Inr) (auto simp: rbind_eq_Inr_iff)

lemma fill_advanced_options_Inr:
  "fill_advanced_options E yml v c = Inr c' \<Longrightarrow> c' = c \<or> (\<exists>sp. c' = c\<lparr>advanced_options := sp\<rparr>)"
  unfolding fill_advanced_options_def by (drule when_tag_Inr) (auto simp: rbind_eq_Inr_iff)

lemma cfg_read_ok_lists:
  "cfg_read_ok v (router_configuration_default\<lparr>cfg_allowlist := map Some as, cfg_blocklist := map Some bs\<rparr>)"
  by (auto simp: cfg_read_ok_def router_configuration_default_def)

lemma cfg_read_ok_update:
  "cfg_read_ok v c \<Longrightarrow> cfg_read_ok v (c\<lparr>cfg_builtin_topics := map Some ts\<rparr>)"
  "cfg_read_ok v c \<Longrightarrow> cfg_read_ok v (c\<lparr>advanced_options := sp\<rparr>)"
  by (auto simp: cfg_read_ok_def)

lemma cfg_read_ok_append: "cfg_read_ok v c \<Longrightarrow> appends_read v c c' \<Longrightarrow> cfg_read_ok v c'"
  unfolding cfg_read_ok_def appends_read_def by (force simp: map_append [symmetric] simp del: map_append)

lemma latest_Inr:
  assumes "fill_ddsrouter_configuration_latest E router_configuration_default yml v = Inr c"
  shows "cfg_read_ok v c"
proof -
  from assms obtain c1 c2 c3 c4 n where *: "fill_allowlist E yml v router_configuration_default = Inr c1"
      "fill_blocklist E yml v c1 = Inr c2" "fill_builtin_topics E yml v c2 = Inr c3"
      "rfold (insert_participant E v) (y_elements E n) c3 = Inr c4"
      "fill_advanced_options E yml v c4 = Inr c"
    unfolding fill_ddsrouter_configuration_latest_def rbind_eq_Inr_iff by (auto split: if_splits simp: rbind_eq_Inr_iff)
  have "cfg_read_ok v c2"
    using fill_lists_Inr [OF *(1,2)] cfg_read_ok_lists by blast
  with fill_builtin_topics_Inr [OF *(3)] have "cfg_read_ok v c3" by (auto intro: cfg_read_ok_update)
  then have "cfg_read_ok v c4"
    by (rule cfg_read_ok_append) (rule appends_read_rfold [OF *(4) insert_participant_Inr])
  with fill_advanced_options_Inr [OF *(5)] show ?thesis by (auto intro: cfg_read_ok_update)
qed

lemma router_read_ok: "get_router_configuration E yml v = Inr c \<Longrightarrow> cfg_read_ok v c"
  by (cases v) (auto simp: get_router_configuration_def cfg_read_ok_def dest!: v1_Inr latest_Inr)

lemma pointees_map_Some [simp]: "pointees (map Some xs) = xs"
  by (induction xs) simp_all

lemma cfg_read_ok_valid:
  assumes "cfg_read_ok v c"
  shows "router_configuration_valid L c \<longleftrightarrow>
    list_all dds_topic_is_valid (pointees (cfg_builtin_topics c)) \<and> participants_configurations c \<noteq> [] \<and>
    list_all (participant_configuration_valid L) (pointees (participants_configurations c)) \<and>
    distinct (map pc_id (pointees (participants_configurations c)))"
  using assms
  by (auto simp: router_configuration_valid_iff cfg_read_ok_def pc_read_ok_def list_all_iff)

lemma sum_case_InrE:
  assumes "case r of Inl _ \<Rightarrow> False | Inr c \<Rightarrow> P c"
  obtains c where "r = Inr c" and "P c"
  using assms by (cases r) auto

section \<open>A concrete YAML library\<close>

datatype ynode = YScalar string | YSeq "ynode list" | YMap "(string \<times> ynode) list"

fun ynode_get :: "ynode \<Rightarrow> string \<Rightarrow> ynode option" where
  "ynode_get (YMap kvs) tag = map_of kvs tag"
| "ynode_get _ tag = None"

fun ynode_set :: "ynode \<Rightarrow> string \<Rightarrow> ynode \<Rightarrow> ynode" where
  "ynode_set (YMap kvs) tag n = YMap ((tag, n) # filter (\<lambda>kv. fst kv \<noteq> tag) kvs)"
| "ynode_set n tag m = n"

fun ynode_string :: "ynode \<Rightarrow> string option" where
  "ynode_string (YScalar s) = Some s"
| "ynode_string _ = None"

fun ynode_elements :: "ynode \<Rightarrow> ynode list" where
  "ynode_elements (YSeq ns) = ns"
| "ynode_elements _ = []"

fun ynode_entries :: "ynode \<Rightarrow> (ynode \<times> ynode) list" where
  "ynode_entries (YMap kvs) = map (\<lambda>kv. (YScalar (fst kv), snd kv)) kvs"
| "ynode_entries _ = []"

definition ynode_number :: "ynode \<Rightarrow> nat option" where
  "ynode_number n =
     (case ynode_string n of
        None \<Rightarrow> None
      | Some s \<Rightarrow> if list_all (\<lambda>c. c \<in> set ''0123456789'') s
                  then Some (fold (\<lambda>c k. 10 * k + (of_char c - 48)) s 0) else None)"

definition sample_yaml_env :: "ynode yaml_env" where
  "sample_yaml_env =
     \<lparr>y_is_map = (\<lambda>n. case n of YMap _ \<Rightarrow> True | _ \<Rightarrow> False), y_is_null = (\<lambda>n. False),
      y_is_scalar = (\<lambda>n. case n of YScalar _ \<Rightarrow> True | _ \<Rightarrow> False),
      y_is_sequence = (\<lambda>n. case n of YSeq _ \<Rightarrow> True | _ \<Rightarrow> False),
      y_get = ynode_get, y_elements = ynode_elements, y_entries = ynode_entries, y_set = ynode_set,
      y_of_string = YScalar, y_as_string = ynode_string,
      y_as_bool = (\<lambda>n. if ynode_string n = Some ''true'' then Some True
                       else if ynode_string n = Some ''false'' then Some False else None),
      y_as_uint32 = (\<lambda>n. map_option of_nat (ynode_number n)),
      y_as_uint16 = (\<lambda>n. map_option of_nat (ynode_number n)),
      y_load_file = (\<lambda>f. None), y_to_lowercase = (\<lambda>s. s), y_parse_prefix = (\<lambda>s. replicate 12 1),
      y_ros_prefix = [], y_print_fuzzy = (\<lambda>s. s), y_unset_string = [],
      y_ip_locator = sample_locator, y_garbage_ip_version = IPv4, y_default_history_depth = 5000\<rparr>"

definition sample_yaml_v1 :: ynode where
  "sample_yaml_v1 =
     YMap [(''allowlist'', YSeq [YMap [(''name'', YScalar ''rt/chatter''), (''type'', YScalar ''String''),
                                       (''keyed'', YScalar ''true'')],
                                 YMap [(''name'', YScalar ''rt/*'')]]),
           (''domain'', YMap [(''type'', YScalar ''echo'')]),
           (''WanRouter'', YMap [(''type'', YScalar ''wan''), (''id'', YScalar ''2''),
              (''listening-addresses'', YSeq [YMap [(''ip'', YScalar ''10.0.0.1''), (''port'', YScalar ''1100'')]])])]"

section \<open>Properties\<close>

text \<open>
  C33. Loading a configuration either fails with a \<^verbatim>\<open>ConfigurationException\<close>, whatever is wrong in the
  document, or gives a configuration on which the validity check of the router reduces to the builtin
  topics, the presence of participants, their own validity and their distinct ids: null pointers and
  configurations of the wrong class cannot come out of the reader.
\<close>

theorem loaded_configuration_valid_exact:
  "case load_ddsrouter_configuration E yml of
     Inl e \<Rightarrow> e = ConfigurationException
   | Inr c \<Rightarrow>
       router_configuration_valid L c \<longleftrightarrow>
         list_all dds_topic_is_valid (pointees (cfg_builtin_topics c)) \<and> participants_configurations c \<noteq> [] \<and>
         list_all (participant_configuration_valid L) (pointees (participants_configurations c)) \<and>
         distinct (map pc_id (pointees (participants_configurations c)))"
proof (cases "load_ddsrouter_configuration E yml")
  case (Inl e)
  with config_only_load [of E yml] show ?thesis by simp
next
  case (Inr c)
  then have "\<exists>v. cfg_read_ok v c"
    by (auto simp: load_ddsrouter_configuration_def rbind_eq_Inr_iff dest!: router_read_ok)
  with Inr show ?thesis by (auto simp: cfg_read_ok_valid)
qed

text \<open>
  C34. Every participant of a configuration that is read has a valid kind and the class its kind asks
  for; only initial peers participants are repeaters, and none exists up to version 2.0, where the
  kind \<^verbatim>\<open>wan\<close> means a discovery server; a TLS block that was read serves as client and as
  server exactly when its files allow that role.
\<close>

theorem read_participants_fit:
  assumes "get_router_configuration E yml v = Inr c"
  shows "list_all (pc_read_ok v) (pointees (participants_configurations c))"
  using router_read_ok [OF assms] by (auto simp: cfg_read_ok_def)

theorem read_participants_fit_witness:
  "\<exists>c. get_router_configuration sample_yaml_env sample_yaml_v1 V_1_0 = Inr c \<and>
     map (\<lambda>p. (pc_id p, conf_kind (pc_base p))) (pointees (participants_configurations c)) =
       [(PId ''WanRouter'', PK_wan_discovery_server)] \<and>
     list_all (pc_read_ok V_1_0) (pointees (participants_configurations c))"
proof (rule sum_case_InrE)
  show "case get_router_configuration sample_yaml_env sample_yaml_v1 V_1_0 of Inl _ \<Rightarrow> False | Inr c \<Rightarrow>
     map (\<lambda>p. (pc_id p, conf_kind (pc_base p))) (pointees (participants_configurations c)) =
       [(PId ''WanRouter'', PK_wan_discovery_server)]"
    by code_simp
  show ?thesis if "get_router_configuration sample_yaml_env sample_yaml_v1 V_1_0 = Inr c"
    "map (\<lambda>p. (pc_id p, conf_kind (pc_base p))) (pointees (participants_configurations c)) =
       [(PId ''WanRouter'', PK_wan_discovery_server)]" for c
    using read_participants_fit [OF that(1)] that by (intro exI [of _ c] conjI)
qed

text \<open>
  In the first version of the format the builtin topics are the entries of the allowlist that
  are valid topics (a name, a type, no wildcard), each with the keyed flag of its entry and the default
  quality of service, in the order of the allowlist; so the builtin topics never make the configuration
  invalid, and the advanced options stay at their defaults.
\<close>

lemma v1_builtin_topics_from_allowlist:
  assumes "get_router_configuration E yml V_1_0 = Inr c"
  shows "pointees (cfg_builtin_topics c) =
      filter dds_topic_is_valid (map (builtin_of_filter E) (pointees (cfg_allowlist c))) \<and>
    advanced_options c = specs_default"
  using assms by (auto simp: get_router_configuration_def dest!: v1_Inr)

end
