(* ===== verification/Tool.thy ===== *)
theory Tool
  imports Router_Safety Yaml_Configuration
begin

text \<open>
  The executable (\<^verbatim>\<open>src/tools/ddsrouter_tool\<close>): the command line, and \<^verbatim>\<open>main\<close> with its exit codes, the
  exceptions it catches and those it does not, and the callbacks that load the configuration file
  again. The option parser is vendored code and a parameter: it is given the functions that check the
  argument of an option, and returns the options it found. The handlers of signals and of the file are
  parameters too: what they do to the router is the list of events of a run.
\<close>

section \<open>Numbers on the command line\<close>

definition LONG_MAX :: int where "LONG_MAX = 2 ^ 63 - 1"
definition LONG_MIN :: int where "LONG_MIN = - (2 ^ 63)"

definition is_space :: "char \<Rightarrow> bool" where
  "is_space c \<longleftrightarrow> c \<in> set (map char_of [9, 10, 11, 12, 13, 32 :: nat])"

definition is_digit :: "char \<Rightarrow> bool" where
  "is_digit c \<longleftrightarrow> c \<in> set ''0123456789''"

fun digits_value :: "int \<Rightarrow> string \<Rightarrow> int" where
  "digits_value n [] = n"
| "digits_value n (c # cs) = digits_value (10 * n + (of_char c - 48)) cs"

text \<open>
  \<^verbatim>\<open>std::strtol\<close> in base 10: the number at the start of the string, before it is cut to the range of
  \<^verbatim>\<open>long\<close>, and the rest of the string; \<open>None\<close> when there is no number.
\<close>

definition strtol :: "string \<Rightarrow> (int \<times> string) option" where
  "strtol s =
     (let s1 = dropWhile is_space s;
          (negative, s2) = (case s1 of
              [] \<Rightarrow> (False, s1)
            | c # cs \<Rightarrow> if c = CHR ''-'' then (True, cs) else if c = CHR ''+'' then (False, cs) else (False, s1));
          ds = takeWhile is_digit s2
      in if ds = [] then None
         else Some (if negative then - digits_value 0 ds else digits_value 0 ds, dropWhile is_digit s2))"

definition stol :: "string \<Rightarrow> int result" where
  "stol s =
     (case strtol s of
        None \<Rightarrow> Inl InvalidArgumentException
      | Some (v, _) \<Rightarrow> if v < LONG_MIN \<or> LONG_MAX < v then Inl OutOfRangeException else Inr v)"

section \<open>Options\<close>

datatype option_index =
    UNKNOWN_OPT
  | HELP
  | CONFIGURATION_FILE
  | RELOAD_TIME
  | ACTIVATE_DEBUG
  | VERSION
  | TIMEOUT
  | LOG_FILTER
  | LOG_VERBOSITY

datatype log_kind = LogKind_error | LogKind_warning | LogKind_info

datatype arg_status = ARG_NONE | ARG_OK | ARG_ILLEGAL

datatype process_return_code =
    success
  | help_argument
  | version_argument
  | incorrect_argument
  | required_argument_failed
  | execution_failed

fun process_return_code_value :: "process_return_code \<Rightarrow> int" where
  "process_return_code_value success = 0"
| "process_return_code_value help_argument = 1"
| "process_return_code_value version_argument = 2"
| "process_return_code_value incorrect_argument = 10"
| "process_return_code_value required_argument_failed = 11"
| "process_return_code_value execution_failed = 20"

record parsed_options =
  parse_error :: bool
  non_options :: "string list"
  parsed :: "(option_index \<times> string option) list"

text \<open>
  \<open>te_log_kind_names\<close> and \<open>te_log_kind_from\<close> are the functions \<^verbatim>\<open>string_vector_LogKind\<close> and
  \<^verbatim>\<open>from_string_LogKind\<close> that a macro of the utility package defines, \<open>te_duration\<close> the conversion to its
  type of durations, \<open>te_watch\<close> the constructor of its file watcher, \<open>Some\<close> what it throws.
\<close>

record ('n, 'q, 's, 'hr, 'hw) tool_env =
  te_parser :: "(option_index \<Rightarrow> string option \<Rightarrow> arg_status) \<Rightarrow> string list \<Rightarrow> parsed_options"
  te_file_accessible :: "string \<Rightarrow> bool"
  te_log_kind_names :: "string list"
  te_log_kind_from :: "string \<Rightarrow> log_kind result"
  te_duration :: "int \<Rightarrow> int"
  te_watch :: "string \<Rightarrow> exn option"
  te_yaml :: "'n yaml_env"
  te_router :: "('q, 's, 'hr, 'hw) router_env"

definition arg_none :: "string option \<Rightarrow> arg_status" where
  "arg_none arg = ARG_NONE"

definition arg_unknown :: "string option \<Rightarrow> arg_status" where
  "arg_unknown arg = ARG_ILLEGAL"

definition arg_required :: "string option \<Rightarrow> arg_status" where
  "arg_required arg = (case arg of None \<Rightarrow> ARG_ILLEGAL | Some s \<Rightarrow> if s \<noteq> [] then ARG_OK else ARG_ILLEGAL)"

definition arg_numeric :: "string option \<Rightarrow> arg_status" where
  "arg_numeric arg =
     (case arg of
        None \<Rightarrow> ARG_ILLEGAL
      | Some s \<Rightarrow> (case strtol s of
            None \<Rightarrow> ARG_ILLEGAL
          | Some (_, rest) \<Rightarrow> if rest = [] then ARG_OK else ARG_ILLEGAL))"

definition arg_string :: "string option \<Rightarrow> arg_status" where
  "arg_string arg = (case arg of None \<Rightarrow> ARG_ILLEGAL | Some _ \<Rightarrow> ARG_OK)"

definition arg_readable_file :: "(string \<Rightarrow> bool) \<Rightarrow> string option \<Rightarrow> arg_status" where
  "arg_readable_file is_file_accessible arg =
     (case arg of
        None \<Rightarrow> ARG_ILLEGAL
      | Some s \<Rightarrow> if is_file_accessible s then ARG_OK else ARG_ILLEGAL)"

definition arg_valid_options :: "string list \<Rightarrow> string option \<Rightarrow> arg_status" where
  "arg_valid_options valid_options arg =
     (case arg of
        None \<Rightarrow> ARG_ILLEGAL
      | Some s \<Rightarrow> if s \<in> set valid_options then ARG_OK else ARG_ILLEGAL)"

definition arg_log_kind ::
    "('n, 'q, 's, 'hr, 'hw) tool_env \<Rightarrow> string option \<Rightarrow> arg_status" where
  "arg_log_kind E arg = arg_valid_options (te_log_kind_names E) arg"

text \<open>The table of the options: the check of the argument of each.\<close>

fun usage_check ::
    "('n, 'q, 's, 'hr, 'hw) tool_env \<Rightarrow> option_index \<Rightarrow> string option \<Rightarrow> arg_status" where
  "usage_check E UNKNOWN_OPT = arg_none"
| "usage_check E HELP = arg_none"
| "usage_check E VERSION = arg_none"
| "usage_check E CONFIGURATION_FILE = arg_readable_file (te_file_accessible E)"
| "usage_check E RELOAD_TIME = arg_numeric"
| "usage_check E TIMEOUT = arg_numeric"
| "usage_check E ACTIVATE_DEBUG = arg_none"
| "usage_check E LOG_FILTER = arg_string"
| "usage_check E LOG_VERBOSITY = arg_log_kind E"

record arguments =
  file_path :: string
  reload_time :: int
  timeout :: int
  log_filter :: string
  log_verbosity :: log_kind

definition arguments_default :: arguments where
  "arguments_default =
     \<lparr>file_path = '''', reload_time = 0, timeout = 0, log_filter = ''DDSROUTER'',
      log_verbosity = LogKind_warning\<rparr>"

text \<open>A time in seconds, in milliseconds: the product is computed in \<^verbatim>\<open>long\<close>.\<close>

definition milliseconds :: "('n, 'q, 's, 'hr, 'hw) tool_env \<Rightarrow> string \<Rightarrow> int result" where
  "milliseconds E s =
     rbind (stol s) (\<lambda>v.
       if v * 1000 < LONG_MIN \<or> LONG_MAX < v * 1000 then Inl SignedOverflow else Inr (te_duration E (v * 1000)))"

text \<open>The use of the argument of an option, a pointer that may be null.\<close>

definition with_arg :: "string option \<Rightarrow> (string \<Rightarrow> 'a result) \<Rightarrow> 'a result" where
  "with_arg arg f = (case arg of None \<Rightarrow> Inl NullDereference | Some s \<Rightarrow> f s)"

fun parse_options ::
    "('n, 'q, 's, 'hr, 'hw) tool_env \<Rightarrow> (option_index \<times> string option) list \<Rightarrow> arguments \<Rightarrow>
     (process_return_code \<times> arguments) result" where
  "parse_options E [] a = Inr (success, a)"
| "parse_options E ((i, arg) # opts) a =
     (case i of
        CONFIGURATION_FILE \<Rightarrow> with_arg arg (\<lambda>s. parse_options E opts (a\<lparr>file_path := s\<rparr>))
      | RELOAD_TIME \<Rightarrow>
          with_arg arg (\<lambda>s. rbind (milliseconds E s) (\<lambda>t. parse_options E opts (a\<lparr>reload_time := t\<rparr>)))
      | ACTIVATE_DEBUG \<Rightarrow> parse_options E opts (a\<lparr>log_filter := ''DDSROUTER'', log_verbosity := LogKind_info\<rparr>)
      | TIMEOUT \<Rightarrow>
          with_arg arg (\<lambda>s. rbind (milliseconds E s) (\<lambda>t. parse_options E opts (a\<lparr>timeout := t\<rparr>)))
      | LOG_FILTER \<Rightarrow> with_arg arg (\<lambda>s. parse_options E opts (a\<lparr>log_filter := s\<rparr>))
      | LOG_VERBOSITY \<Rightarrow>
          with_arg arg (\<lambda>s. rbind (te_log_kind_from E s) (\<lambda>k. parse_options E opts (a\<lparr>log_verbosity := k\<rparr>)))
      | UNKNOWN_OPT \<Rightarrow> Inr (incorrect_argument, a)
      | _ \<Rightarrow> parse_options E opts a)"

definition parse_arguments ::
    "('n, 'q, 's, 'hr, 'hw) tool_env \<Rightarrow> string list \<Rightarrow> arguments \<Rightarrow> (process_return_code \<times> arguments) result" where
  "parse_arguments E argv a =
     (case argv of
        [] \<Rightarrow> Inr (incorrect_argument, a)
      | program # args \<Rightarrow>
          let parse = te_parser E (usage_check E) args in
          if parse_error parse then Inr (incorrect_argument, a)
          else if non_options parse \<noteq> [] then Inr (incorrect_argument, a)
          else if HELP \<in> set (map fst (parsed parse)) then Inr (help_argument, a)
          else if VERSION \<in> set (map fst (parsed parse)) then Inr (version_argument, a)
          else parse_options E (parsed parse) a)"

section \<open>Main\<close>

text \<open>
  What happens to the router between its construction and its end: the file watcher and the periodic
  timer load the file again, whose content at that moment is the node, \<open>None\<close> where it cannot be
  loaded, and the discovery database calls back.
\<close>

datatype 'n tool_event =
    File_Changed "'n option"
  | Timer_Raised "'n option"
  | Endpoint_Discovered endpoint
  | Endpoint_Removed endpoint

text \<open>
  The callback of the watcher and of the timer: every exception is caught. Errors of the router other
  than the refused configuration arise in \<^verbatim>\<open>noexcept\<close> functions.
\<close>

definition reload_from_file ::
    "('n, 'q, 's, 'hr, 'hw) tool_env \<Rightarrow> string \<Rightarrow> 'n option \<Rightarrow> ('hr, 'hw) dds_router \<Rightarrow>
     ('hr, 'hw) dds_router result" where
  "reload_from_file E path content r =
     (let Y = (te_yaml E)\<lparr>y_load_file := (\<lambda>_. content), y_default_history_depth := default_history_depth r\<rparr> in
      case load_ddsrouter_configuration_from_file Y path of
        Inl e \<Rightarrow> if is_std_exception e then Inr r else Inl e
      | Inr c \<Rightarrow>
         (case Router.reload_configuration (te_router E) c r of
            Inl e \<Rightarrow> if e = ConfigurationException then Inr r else Inl e
          | Inr (_, r') \<Rightarrow> Inr r'))"

fun tool_event_step ::
    "('n, 'q, 's, 'hr, 'hw) tool_env \<Rightarrow> string \<Rightarrow> int \<Rightarrow> 'n tool_event \<Rightarrow> ('hr, 'hw) dds_router \<Rightarrow>
     ('hr, 'hw) dds_router result" where
  "tool_event_step E path time (File_Changed content) r = reload_from_file E path content r"
| "tool_event_step E path time (Timer_Raised content) r =
     (if time > 0 then reload_from_file E path content r else Inr r)"
| "tool_event_step E path time (Endpoint_Discovered e) r = discovered_endpoint (te_router E) e r"
| "tool_event_step E path time (Endpoint_Removed e) r = removed_endpoint e r"

text \<open>
  How the process ends: with an exit code, by an error that nothing catches, or not at all.
\<close>

datatype process_end = Exit process_return_code | Terminated exn | Running_forever

definition main_handlers :: "exn \<Rightarrow> process_end" where
  "main_handlers e =
     (if e = ConfigurationException then Exit execution_failed
      else if e = InitializationException then Exit execution_failed
      else Terminated e)"

text \<open>
  From the construction of the router to the end of the block. The handlers are reset before the
  router is stopped, the router is destroyed when the block is left.
\<close>

definition main_run ::
    "('n, 'q, 's, 'hr, 'hw) tool_env \<Rightarrow> string \<Rightarrow> arguments \<Rightarrow> 'n tool_event list \<Rightarrow> 'n tool_event list \<Rightarrow>
     ('hr, 'hw) dds_router \<Rightarrow> ('hr, 'hw) dds_router result" where
  "main_run E path a before_start running router =
     rbind (rfold (tool_event_step E path (reload_time a)) before_start router) (\<lambda>router.
     rbind (router_start (te_router E) router) (\<lambda>(_, router).
     rbind (rfold (tool_event_step E path (reload_time a)) running router) (\<lambda>router.
     rbind (router_stop router) (\<lambda>(_, router). Inr router))))"

definition main_block ::
    "('n, 'q, 's, 'hr, 'hw) tool_env \<Rightarrow> string \<Rightarrow> arguments \<Rightarrow> 'n tool_event list \<Rightarrow> 'n tool_event list \<Rightarrow>
     process_end" where
  "main_block E path a before_start running =
     (case load_ddsrouter_configuration_from_file (te_yaml E) path of
        Inl e \<Rightarrow> main_handlers e
      | Inr router_configuration \<Rightarrow>
         (case router_new (te_router E) router_configuration of
            None \<Rightarrow> Running_forever
          | Some (Inl e) \<Rightarrow> main_handlers e
          | Some (Inr router) \<Rightarrow>
             (case te_watch E path of
                Some e \<Rightarrow> main_handlers e
              | None \<Rightarrow>
                 (case rbind (main_run E path a before_start running router) router_destroy of
                    Inl e \<Rightarrow> Terminated e
                  | Inr _ \<Rightarrow> Exit success))))"

definition DEFAULT_CONFIGURATION_FILE_NAME :: string where
  "DEFAULT_CONFIGURATION_FILE_NAME = ''DDS_ROUTER_CONFIGURATION.yaml''"

definition tool_main ::
    "('n, 'q, 's, 'hr, 'hw) tool_env \<Rightarrow> string list \<Rightarrow> 'n tool_event list \<Rightarrow> 'n tool_event list \<Rightarrow> process_end" where
  "tool_main E argv before_start running =
     (case parse_arguments E argv arguments_default of
        Inl e \<Rightarrow> Terminated e
      | Inr (arg_parse_result, a) \<Rightarrow>
          if arg_parse_result = help_argument then Exit success
          else if arg_parse_result = version_argument then Exit success
          else if arg_parse_result \<noteq> success then Exit arg_parse_result
          else
            let path = (if file_path a = '''' then DEFAULT_CONFIGURATION_FILE_NAME else file_path a) in
            if \<not> te_file_accessible E path then Exit required_argument_failed
            else main_block E path a before_start running)"


section \<open>Lemmas\<close>

lemma discovered_topic_disabled:
  "\<not> rt_enabled r \<Longrightarrow> \<exists>r'. discovered_topic E t r = Inr r' \<and> \<not> rt_enabled r'"
  by (simp add: discovered_topic_def Let_def split: option.split)

lemma rfold_discovered_disabled:
  "\<not> rt_enabled r \<Longrightarrow> \<exists>r'. rfold (discovered_topic E) ts r = Inr r'"
proof (induction ts arbitrary: r)
  case (Cons t ts)
  then obtain r1 where "discovered_topic E t r = Inr r1" "\<not> rt_enabled r1"
    using discovered_topic_disabled by blast
  with Cons.IH [of r1] show ?case by simp
qed simp

lemma router_new_error:
  assumes "router_new E c = Some (Inl e)"
  shows "e = ConfigurationException \<or> e = InitializationException"
proof (cases "router_configuration_valid (re_ip_locator E) c")
  case True
  let ?init = "init_participants (re_ip_locator E) (re_create_rtps E) (pointees (participants_configurations c))"
  have "?init = Some (Inl e)"
  proof (cases ?init)
    case None
    with assms True show ?thesis by (simp add: router_new_def)
  next
    case (Some x)
    show ?thesis
    proof (cases x)
      case (Inl e')
      with assms True Some show ?thesis by (simp add: router_new_def)
    next
      case (Inr db)
      have "\<exists>r. router_new E c = Some (Inr r)"
        by (simp add: router_new_def init_bridges_def rfold_discovered_disabled True Some Inr)
      with assms show ?thesis by simp
    qed
  qed
  with init_participants_error [OF True, of "re_create_rtps E"] show ?thesis by blast
qed (use assms in \<open>simp add: router_new_def\<close>)

text \<open>The callbacks keep the router consistent and switched as it is.\<close>

lemma call_rpc_bridge_enabled: "call_rpc_bridge s f r = Inr r' \<Longrightarrow> rt_enabled r' = rt_enabled r"
  by (drule call_rpc_bridge_effect) (auto simp: same_topics_def)

lemma discovered_endpoint_enabled:
  assumes "discovered_endpoint E e r = Inr r'" and "router_ok E r"
  shows "rt_enabled r' = rt_enabled r"
proof -
  have "rt_enabled r' = rt_enabled r" if "discovered_topic E t r = Inr r'" for t
    using discovered_topic_ok [OF that] assms(2) by (simp add: router_ok_def same_frame_def)
  moreover have "rt_enabled r' = rt_enabled r" if "router_discovered_service E s pid g r = Inr r'" for s pid g
    using that
    by (auto simp: router_discovered_service_def create_new_service_def enable_rpc_bridge_def Let_def
        rbind_eq_Inr_iff split: option.splits if_splits dest!: call_rpc_bridge_enabled)
  ultimately show ?thesis using assms(1)
    by (auto simp: discovered_endpoint_def Let_def rbind_eq_Inr_iff split: if_splits)
qed

lemma removed_endpoint_enabled: "removed_endpoint e r = Inr r' \<Longrightarrow> rt_enabled r' = rt_enabled r"
  by (auto simp: removed_endpoint_def router_removed_service_def Let_def rbind_eq_Inr_iff
      split: if_splits option.splits dest!: call_rpc_bridge_enabled)

definition keeps_consistent ::
    "('q, 's, 'hr, 'hw) router_env \<Rightarrow> ('hr, 'hw) dds_router \<Rightarrow> ('hr, 'hw) dds_router \<Rightarrow> bool" where
  "keeps_consistent E r r' \<longleftrightarrow> (router_ok E r \<longrightarrow> router_ok E r' \<and> rt_enabled r' = rt_enabled r)"

lemma keeps_consistent_refl [simp]: "keeps_consistent E r r"
  by (simp add: keeps_consistent_def)

lemma reload_from_file_consistent:
  "reload_from_file E path content r = Inr r' \<Longrightarrow> keeps_consistent (te_router E) r r'"
  by (auto simp: reload_from_file_def Let_def keeps_consistent_def split: sum.splits if_splits
      dest: reload_configuration_ok)

lemma tool_event_consistent:
  "tool_event_step E path time ev r = Inr r' \<Longrightarrow> keeps_consistent (te_router E) r r'"
proof (cases ev)
  case (Endpoint_Discovered e)
  assume "tool_event_step E path time ev r = Inr r'"
  with Endpoint_Discovered show ?thesis
    by (simp add: keeps_consistent_def discovered_endpoint_ok discovered_endpoint_enabled)
next
  case (Endpoint_Removed e)
  assume "tool_event_step E path time ev r = Inr r'"
  with Endpoint_Removed removed_endpoint_ok [of e r r' "te_router E"] removed_endpoint_enabled [of e r r']
  show ?thesis by (simp add: keeps_consistent_def)
qed (auto split: if_splits dest: reload_from_file_consistent)

lemma tool_events_consistent:
  assumes "rfold (tool_event_step E path time) evs r = Inr r'"
  shows "keeps_consistent (te_router E) r r'"
  by (rule rfold_append_Inr [OF assms, where P = "keeps_consistent (te_router E) r"])
    (auto simp: keeps_consistent_def dest: tool_event_consistent)

text \<open>A run of the executable that does not fail keeps the router running and consistent.\<close>

lemma tool_run_keeps_consistent:
  assumes "router_new (te_router E) c = Some (Inr r0)"
    and "rfold (tool_event_step E path time) before_start r0 = Inr r1"
    and "router_start (te_router E) r1 = Inr (ret, r2)"
    and "rfold (tool_event_step E path time) running r2 = Inr r3"
  shows "ret = RETCODE_OK \<and> rt_enabled r3 \<and>
    (\<forall>(t, active)\<in>set (current_topics r3).
       active = is_topic_allowed (re_match_pattern (te_router E)) (allowed_topics r3) t) \<and>
    (\<forall>t b. smap_find dds_topic_key t (bridges r3) = Some (Some b) \<longrightarrow>
       smap_find dds_topic_key t (current_topics r3) = Some (brg_enabled b))"
proof -
  have r1: "router_ok (te_router E) r1" "\<not> rt_enabled r1"
    using router_new_ok [OF assms(1)] tool_events_consistent [OF assms(2)] by (auto simp: keeps_consistent_def)
  have "router_ok (te_router E) r2" "rt_enabled r2"
    using router_start_ok [OF assms(3) r1(1)] by auto
  then have r3: "router_ok (te_router E) r3" "rt_enabled r3"
    using tool_events_consistent [OF assms(4)] by (auto simp: keeps_consistent_def)
  have "ret = RETCODE_OK"
    using assms(3) r1(2) by (auto simp: router_start_def rbind_eq_Inr_iff)
  with r3 router_ok_facts [OF r3(1)] show ?thesis by auto
qed

text \<open>It does not fail: the callbacks go on from every state the router can be in.\<close>

fun event_fits :: "('hr, 'hw) dds_router \<Rightarrow> 'n tool_event \<Rightarrow> bool" where
  "event_fits r (Endpoint_Discovered e) = discoverer_fits e r"
| "event_fits r ev = True"

lemma discoverer_fits_kinds:
  "discoverer_fits e r \<longleftrightarrow>
     (endpoint_is_reader e \<and> endpoint_is_server_endpoint e \<longrightarrow>
      kinds (rt_world r) (discoverer_participant_id e) = Some True)"
  by (simp add: discoverer_fits_def kinds_def split: option.split)

lemma reload_from_file_goes_on:
  assumes "safe_from (te_router E) r0 r"
  shows "\<exists>r'. reload_from_file E path content r = Inr r' \<and> safe_from (te_router E) r0 r'"
proof -
  let ?Y = "(te_yaml E)\<lparr>y_load_file := (\<lambda>_. content), y_default_history_depth := default_history_depth r\<rparr>"
  have s: "safe_from (te_router E) r r" using assms by (simp add: safe_from_def)
  show ?thesis
  proof (cases "load_ddsrouter_configuration_from_file ?Y path")
    case (Inl e)
    with config_only_load_file [of ?Y path] assms show ?thesis
      by (simp add: reload_from_file_def)
  next
    case (Inr c)
    show ?thesis
    proof (cases "reload_configuration_valid c")
      case True
      with reload_total [OF s] obtain ret r' where
        "Router.reload_configuration (te_router E) c r = Inr (ret, r')" "safe_from (te_router E) r r'" by blast
      with Inr assms safe_from_trans [of "te_router E" r0 r r'] show ?thesis by (simp add: reload_from_file_def)
    next
      case False
      with Inr assms show ?thesis by (simp add: reload_from_file_def Router.reload_configuration_def)
    qed
  qed
qed

lemma tool_event_goes_on:
  assumes "event_fits r0 ev" and "safe_from (te_router E) r0 r"
  shows "\<exists>r'. tool_event_step E path time ev r = Inr r' \<and> safe_from (te_router E) r0 r'"
proof (cases ev)
  case (Endpoint_Discovered e)
  then have "discoverer_fits e r" using assms by (simp add: discoverer_fits_kinds safe_from_def)
  with Endpoint_Discovered discovered_endpoint_total [OF assms(2)] show ?thesis by simp
qed (use assms(2) reload_from_file_goes_on [OF assms(2)] removed_endpoint_total [OF assms(2)] in auto)

interpretation tool_events: total_operation "safe_from (te_router E) r0" "tool_event_step E path time"
    "Collect (event_fits r0)"
  for E :: "('n, 'q, 's, 'hr, 'hw) tool_env" and r0 :: "('hr, 'hw) dds_router" and path time
  by unfold_locales (simp add: tool_event_goes_on)

lemma main_run_goes_on:
  assumes "\<not> lhs_first (te_router E)" and "router_new (te_router E) c = Some (Inr r0)"
    and "list_all (event_fits r0) (before_start @ running)"
  shows "\<exists>r1 ret r2 r3 r4.
    rfold (tool_event_step E path time) before_start r0 = Inr r1 \<and>
    router_start (te_router E) r1 = Inr (ret, r2) \<and>
    rfold (tool_event_step E path time) running r2 = Inr r3 \<and>
    router_stop r3 = Inr r4 \<and> safe_from (te_router E) (snd r4) (snd r4)"
proof -
  let ?E = "te_router E"
  have evs: "set before_start \<subseteq> Collect (event_fits r0)" "set running \<subseteq> Collect (event_fits r0)"
    using assms(3) by (auto simp: list_all_iff)
  have "safe_from ?E r0 r0" using router_new_safe [OF assms(1,2)] assms(1) by (simp add: safe_from_def)
  with tool_events.loop_goes_on [OF evs(1)] obtain r1
    where r1: "rfold (tool_event_step E path time) before_start r0 = Inr r1" "safe_from ?E r0 r1" by blast
  then have "safe_from ?E r1 r1" by (simp add: safe_from_def)
  with router_start_total obtain ret r2
    where r2: "router_start ?E r1 = Inr (ret, r2)" "safe_from ?E r1 r2" by blast
  with r1(2) have "safe_from ?E r0 r2" using safe_from_trans by blast
  with tool_events.loop_goes_on [OF evs(2)] obtain r3
    where r3: "rfold (tool_event_step E path time) running r2 = Inr r3" "safe_from ?E r0 r3" by blast
  then have "safe_from ?E r3 r3" by (simp add: safe_from_def)
  with router_stop_total obtain ret' r4
    where r4: "router_stop r3 = Inr (ret', r4)" "safe_from ?E r3 r4" by blast
  then have "safe_from ?E r4 r4" by (simp add: safe_from_def)
  with r1 r2 r3 r4 show ?thesis by (metis snd_conv)
qed

lemma numeric_argument_iff:
  "arg_numeric (Some s) = ARG_OK \<longleftrightarrow> (\<exists>v. strtol s = Some (v, []))"
  by (auto simp: arg_numeric_def split: option.splits if_splits)


lemma option_case_SomeE:
  assumes "case m of None \<Rightarrow> False | Some x \<Rightarrow> P x"
  obtains x where "m = Some x" and "P x"
  using assms by (cases m) auto

section \<open>A concrete executable\<close>

text \<open>A parser that takes the names of the options apart from their arguments by position.\<close>

fun sample_parse :: "string list \<Rightarrow> (option_index \<times> string option) list" where
  "sample_parse (x # y # zs) =
     (if x = ''-t'' then (TIMEOUT, Some y) # sample_parse zs
      else if x = ''-c'' then (CONFIGURATION_FILE, Some y) # sample_parse zs
      else (UNKNOWN_OPT, None) # sample_parse (y # zs))"
| "sample_parse [x] = [(UNKNOWN_OPT, None)]"
| "sample_parse [] = []"

definition sample_yaml_v2 :: ynode where
  "sample_yaml_v2 =
     YMap [(''version'', YScalar ''v2.0''),
           (''participants'', YSeq [YMap [(''name'', YScalar ''a''), (''kind'', YScalar ''echo'')],
                                    YMap [(''name'', YScalar ''b''), (''kind'', YScalar ''blank'')]]),
           (''builtin-topics'', YSeq [YMap [(''name'', YScalar ''t''), (''type'', YScalar ''T'')]])]"

definition sample_yaml_blocked :: ynode where
  "sample_yaml_blocked =
     YMap [(''version'', YScalar ''v2.0''),
           (''participants'', YSeq [YMap [(''name'', YScalar ''a''), (''kind'', YScalar ''echo'')]]),
           (''blocklist'', YSeq [YMap [(''name'', YScalar ''t'')]])]"

definition sample_tool_env :: "(ynode, unit, unit, unit, unit) tool_env" where
  "sample_tool_env =
     \<lparr>te_parser = (\<lambda>check args. let opts = sample_parse args in
          \<lparr>parse_error = list_ex (\<lambda>(i, a). check i a = ARG_ILLEGAL) opts, non_options = [], parsed = opts\<rparr>),
      te_file_accessible = (\<lambda>f. True), te_log_kind_names = [''error'', ''warning'', ''info''],
      te_log_kind_from = (\<lambda>s. Inr LogKind_info), te_duration = (\<lambda>d. d), te_watch = (\<lambda>f. None),
      te_yaml = sample_yaml_env\<lparr>y_load_file := (\<lambda>f. if f = ''good.yaml'' then Some sample_yaml_v2 else None)\<rparr>,
      te_router = sample_router_env\<rparr>"


section \<open>Properties\<close>


definition sample_events :: "ynode tool_event list" where
  "sample_events = [File_Changed None, File_Changed (Some sample_yaml_blocked), File_Changed (Some (YSeq []))]"

definition ordered_tool_env :: "(ynode, unit, unit, unit, unit) tool_env" where
  "ordered_tool_env = sample_tool_env\<lparr>te_router := ordered_router_env\<rparr>"


text \<open>
  When the file cannot be loaded or the router cannot be built from it, for whatever reason, the
  executable ends with the exit code of a failed execution: no error of the start escapes the handlers.
\<close>

lemma startup_failure_exit_code:
  assumes "parse_arguments E argv arguments_default = Inr (success, a)"
    and "path = (if file_path a = [] then DEFAULT_CONFIGURATION_FILE_NAME else file_path a)"
    and "te_file_accessible E path"
    and "case load_ddsrouter_configuration_from_file (te_yaml E) path of
           Inl _ \<Rightarrow> True
         | Inr c \<Rightarrow> (case router_new (te_router E) c of Some (Inl _) \<Rightarrow> True | _ \<Rightarrow> False)"
  shows "tool_main E argv before_start running = Exit execution_failed \<and>
    process_return_code_value execution_failed = 20"
proof -
  have "main_block E path a before_start running = Exit execution_failed"
  proof (cases "load_ddsrouter_configuration_from_file (te_yaml E) path")
    case (Inl e)
    with config_only_load_file [of "te_yaml E" path] show ?thesis
      by (simp add: main_block_def main_handlers_def)
  next
    case (Inr c)
    with assms(4) obtain e where e: "router_new (te_router E) c = Some (Inl e)"
      by (auto split: option.splits sum.splits)
    with Inr router_new_error [OF e] show ?thesis by (auto simp: main_block_def main_handlers_def)
  qed
  with assms(1-3) show ?thesis by (simp add: tool_main_def Let_def)
qed

text \<open>
  A number that does not fit in \<^verbatim>\<open>long\<close> passes the check of a numeric argument, and reading it then
  throws outside the handlers of \<^verbatim>\<open>main\<close>: the process is terminated instead of reporting an incorrect
  argument.
\<close>

lemma huge_number_ends_the_process:
  assumes "strtol s = Some (v, [])" and "LONG_MAX < v"
    and "te_parser E (usage_check E) args =
      \<lparr>parse_error = False, non_options = [], parsed = [(if reload then RELOAD_TIME else TIMEOUT, Some s)]\<rparr>"
  shows "usage_check E TIMEOUT (Some s) = ARG_OK \<and> usage_check E RELOAD_TIME (Some s) = ARG_OK \<and>
    tool_main E (program # args) before_start running = Terminated OutOfRangeException"
proof -
  have "stol s = Inl OutOfRangeException" using assms(1,2) by (simp add: stol_def)
  then have "parse_arguments E (program # args) arguments_default = Inl OutOfRangeException"
    using assms(3) by (cases reload) (simp_all add: parse_arguments_def with_arg_def milliseconds_def)
  then show ?thesis using assms(1) by (simp add: tool_main_def numeric_argument_iff)
qed

end
