(* ===== verification/System_Safety.thy ===== *)
theory System_Safety
  imports Router_Safety
begin

text \<open>
  The router and its discovery database together never end the process: whatever the participants queue and
  whatever the application calls, interleaved with the processing thread, the callbacks find a router they
  can work on.
\<close>

section \<open>Invariant\<close>

text \<open>Only RTPS participants report servers.\<close>

definition fits_kinds :: "(participant_id \<Rightarrow> bool option) \<Rightarrow> endpoint \<Rightarrow> bool" where
  "fits_kinds K e \<longleftrightarrow>
     (endpoint_is_reader e \<and> endpoint_is_server_endpoint e \<longrightarrow> K (discoverer_participant_id e) = Some True)"

lemma fits_kinds_discoverer: "discoverer_fits e r \<longleftrightarrow> fits_kinds (kinds (rt_world r)) e"
  by (simp add: discoverer_fits_def fits_kinds_def kinds_def split: option.split)

definition additions_fit :: "(participant_id \<Rightarrow> bool option) \<Rightarrow> db_item list \<Rightarrow> bool" where
  "additions_fit K items \<longleftrightarrow> (\<forall>e. (DB_add, e) \<in> set items \<longrightarrow> fits_kinds K e)"

definition client_safe ::
    "('q, 's, 'hr, 'hw) router_env \<Rightarrow> (participant_id \<Rightarrow> bool option) \<Rightarrow> ('p, 'hr, 'hw) router_sys \<Rightarrow> bool" where
  "client_safe E K s \<longleftrightarrow>
     (additions_fit K (sys_pushed s) \<longrightarrow>
      (\<exists>r. sys_client s = Inr r \<and> safe_from E r r \<and> kinds (rt_world r) = K))"

definition safe_system_inv ::
    "('q, 's, 'hr, 'hw) router_env \<Rightarrow> 'p db_queue_ops \<Rightarrow> ('p \<Rightarrow> db_item list) \<Rightarrow> ('p \<Rightarrow> db_item list) \<Rightarrow>
     (participant_id \<Rightarrow> bool option) \<Rightarrow> ('p, 'hr, 'hw) router_sys \<Rightarrow> bool" where
  "safe_system_inv E Q fg bg K s \<longleftrightarrow>
     (\<not> lhs_first E \<and> db_queue_laws Q fg bg \<longrightarrow> system_inv E Q fg bg s \<and> client_safe E K s)"

text \<open>One item of the queue: the router is called back at most once.\<close>

lemma process_item_calls:
  assumes "callbacks_ok E db"
  shows "snd (process_item (opn, e) (db, Inr r)) = Inr r \<or>
    opn = DB_add \<and> snd (process_item (opn, e) (db, Inr r)) = discovered_endpoint E e r \<or>
    opn = DB_erase \<and> snd (process_item (opn, e) (db, Inr r)) = removed_endpoint e r"
  using assms
  by (cases opn) (auto simp: process_item_def db_op_defs callbacks_ok_def run_callbacks_def
      split: option.splits if_splits)

lemma safe_next:
  assumes "safe_from E r r'"
  shows "safe_from E r' r'" and "kinds (rt_world r') = kinds (rt_world r)"
  using assms by (auto simp: safe_from_def)

lemma process_item_safe:
  assumes "callbacks_ok E db" and "safe_from E r r" and "opn = DB_add \<Longrightarrow> fits_kinds (kinds (rt_world r)) e"
  shows "\<exists>r'. snd (process_item (opn, e) (db, Inr r)) = Inr r' \<and> safe_from E r r'"
  using process_item_calls [OF assms(1), of opn e r] assms(2,3)
    discovered_endpoint_total [OF assms(2), of e] removed_endpoint_total [OF assms(2), of e]
  by (auto simp: fits_kinds_discoverer)

lemma client_safe_step:
  assumes step: "db_step Q s s'" and inv: "db_sys_inv Q fg bg s" and laws: "db_queue_laws Q fg bg"
    and cb: "callbacks_ok E (sys_db s)" and safe: "client_safe E K s"
  shows "client_safe E K s'"
  using step
proof (cases rule: db_step.cases)
  case (step_push item)
  with safe show ?thesis by (auto simp: client_safe_def additions_fit_def)
next
  case (step_item res)
  let ?q = "entities_to_process (sys_db s)"
  have fg: "fg ?q \<noteq> []" using step_item laws by (simp add: db_queue_lawsD)
  obtain opn e where i: "q_front Q ?q = (opn, e)" by fastforce
  show ?thesis
    unfolding client_safe_def
  proof
    assume "additions_fit K (sys_pushed s')"
    then have fit: "additions_fit K (sys_pushed s)" using step_item by simp
    with safe obtain r where r: "sys_client s = Inr r" "safe_from E r r" "kinds (rt_world r) = K"
      by (auto simp: client_safe_def)
    have "(opn, e) \<in> set (fg ?q)" using db_queue_lawsD(7) [OF laws fg] i fg by (cases "fg ?q") auto
    then have "(opn, e) \<in> set (sys_pushed s)" using inv laws by (auto simp: db_sys_inv_def)
    with fit r(3) have "opn = DB_add \<Longrightarrow> fits_kinds (kinds (rt_world r)) e" by (auto simp: additions_fit_def)
    from process_item_safe [OF cb r(2) this] obtain r' where
      "snd (process_item (opn, e) (sys_db s, Inr r)) = Inr r'" "safe_from E r r'" by blast
    moreover have "sys_client s' = snd (process_item (opn, e) (sys_db s, Inr r))"
      using step_item i r(1) by (simp add: process_front_def Let_def)
    ultimately show "\<exists>r. sys_client s' = Inr r \<and> safe_from E r r \<and> kinds (rt_world r) = K"
      using safe_next [of E r r'] r(3) by auto
  qed
qed (use safe in \<open>auto simp: client_safe_def\<close>)

lemma client_safe_call:
  assumes "client_safe E K s" and "sys_client s = Inr r"
    and "safe_from E r r \<Longrightarrow> \<exists>ret r'. m = Inr (ret, r') \<and> safe_from E r r'"
  shows "client_safe E K (s\<lparr>sys_client := rbind m (\<lambda>x. Inr (snd x))\<rparr>)"
  unfolding client_safe_def
proof
  assume "additions_fit K (sys_pushed (s\<lparr>sys_client := rbind m (\<lambda>x. Inr (snd x))\<rparr>))"
  with assms(1,2) have r: "safe_from E r r" "kinds (rt_world r) = K" by (auto simp: client_safe_def)
  from assms(3) [OF r(1)] obtain ret r' where m: "m = Inr (ret, r')" "safe_from E r r'" by blast
  from safe_next [OF m(2)] m(1) r(2)
  show "\<exists>r. sys_client (s\<lparr>sys_client := rbind m (\<lambda>x. Inr (snd x))\<rparr>) = Inr r \<and> safe_from E r r \<and> kinds (rt_world r) = K"
    by simp
qed

lemma safe_system_step:
  assumes "safe_system_inv E Q fg bg K s" and "system_step E Q s s'"
  shows "safe_system_inv E Q fg bg K s'"
proof (cases "\<not> lhs_first E \<and> db_queue_laws Q fg bg")
  case True
  then have inv: "system_inv E Q fg bg s" "client_safe E K s"
    using assms(1) by (auto simp: safe_system_inv_def)
  have "client_safe E K s'"
    using assms(2)
  proof (cases rule: system_step.cases)
    case system_database
    with inv True show ?thesis by (auto simp: system_inv_def intro: client_safe_step)
  next
    case (system_start r)
    show ?thesis unfolding system_start(1)
      by (rule client_safe_call [OF inv(2) system_start(2)]) (rule router_start_total)
  next
    case (system_stop r)
    show ?thesis unfolding system_stop(1)
      by (rule client_safe_call [OF inv(2) system_stop(2)]) (rule router_stop_total)
  next
    case (system_reload r new)
    show ?thesis unfolding system_reload(1)
      by (rule client_safe_call [OF inv(2) system_reload(2)]) (rule reload_total [OF _ system_reload(3)])
  qed
  with system_inv_step [OF inv(1) assms(2)] show ?thesis by (simp add: safe_system_inv_def)
qed (auto simp: safe_system_inv_def)

definition system_init_with ::
    "('q, 's, 'hr, 'hw) router_env \<Rightarrow> ('p \<Rightarrow> db_item list) \<Rightarrow> ('p \<Rightarrow> db_item list) \<Rightarrow>
     (participant_id \<Rightarrow> bool option) \<Rightarrow> ('p, 'hr, 'hw) router_sys \<Rightarrow> bool" where
  "system_init_with E fg bg K s \<longleftrightarrow>
     system_init E fg bg s \<and> (\<exists>r. sys_client s = Inr r \<and> kinds (rt_world r) = K)"

interpretation safe_systems: invariant_system "system_init_with E fg bg K" "system_step E Q"
    "safe_system_inv E Q fg bg K"
  for E :: "('q, 's, 'hr, 'hw) router_env" and Q :: "'p db_queue_ops" and fg bg :: "'p \<Rightarrow> db_item list" and K
proof
  show "safe_system_inv E Q fg bg K s" if "system_init_with E fg bg K s" for s
    using that router_new_safe [of E] system_inv_init [of E fg bg s Q]
    by (auto simp: system_init_with_def system_init_def safe_system_inv_def client_safe_def safe_from_def)
qed (rule safe_system_step)

section \<open>Properties\<close>



end
