(* ===== verification/RPC_Trace.thy ===== *)
theory RPC_Trace
  imports RPC_Bridge Transition "HOL-Library.Multiset"
begin

text \<open>
  An RPC bridge over time: the requests its proxy servers take, the replies its proxy clients take, and the
  calls that switch it or tell it of servers, in any order. Between two of them anything may happen to the
  endpoints and to the payload pool. What was asked and what was answered is recorded beside the bridge.
\<close>

section \<open>Steps\<close>

record rpc_trace =
  tr_bridge :: rpc_bridge
  tr_asked :: "registry_entry multiset"
  tr_answered :: "(participant_id \<times> registry_entry) multiset"

text \<open>The request a reply is handed back for, when handling it succeeds in writing it.\<close>

definition reply_delivered ::
    "('q, 's, 'hr, 'hw) rtps_env \<Rightarrow> guid \<Rightarrow> participant_id \<Rightarrow> data_received \<Rightarrow> ('hr, 'hw) rpc_run \<Rightarrow>
     registry_entry option" where
  "reply_delivered E g pid data run =
     (let si = wp_sample_identity (params_of data) in
      if writer_guid si \<noteq> g then None
      else case registry_of (fst run) pid of
          None \<Rightarrow> None
        | Some reg \<Rightarrow>
           (let entry = registry_get (sequence_no si) reg in
            if \<not> participant_id_is_valid (fst entry) then None
            else case write_through E (smap_find id (fst entry) (reply_writers (fst run)))
                        (set_related (snd entry) data) (fst (snd run)) (snd (snd run)) of
                Inl _ \<Rightarrow> None
              | Inr (ret, _) \<Rightarrow> if ret_ok ret then Some entry else None))"

inductive rpc_step :: "('q, 's, 'hr, 'hw) rtps_env \<Rightarrow> rpc_trace \<Rightarrow> rpc_trace \<Rightarrow> bool"
  for E :: "('q, 's, 'hr, 'hw) rtps_env" where
  rpc_request:
    "handle_request E data (tr_bridge s, w, p) = Inr (data', b', w', p') \<Longrightarrow>
     rpc_step E s (s\<lparr>tr_bridge := b', tr_asked :=
       (if reply_identity data = sample_identity_unknown then tr_asked s
        else add_mset (participant_receiver (dr_properties data), reply_identity data) (tr_asked s))\<rparr>)"
| rpc_reply:
    "handle_reply E g pid data (tr_bridge s, w, p) = Inr (data', b', w', p') \<Longrightarrow>
     rpc_step E s (s\<lparr>tr_bridge := b', tr_answered :=
       (case reply_delivered E g pid data (tr_bridge s, w, p) of
          None \<Rightarrow> tr_answered s | Some e \<Rightarrow> add_mset (pid, e) (tr_answered s))\<rparr>)"
| rpc_on: "rpc_step E s (s\<lparr>tr_bridge := fst (rpc_bridge_enable E (tr_bridge s, w))\<rparr>)"
| rpc_off: "rpc_step E s (s\<lparr>tr_bridge := fst (rpc_bridge_disable (tr_bridge s, w :: ('hr, 'hw) world))\<rparr>)"
| rpc_server:
    "discovered_service pid g (tr_bridge s) = Inr b' \<Longrightarrow> rpc_step E s (s\<lparr>tr_bridge := b'\<rparr>)"
| rpc_server_gone: "rpc_step E s (s\<lparr>tr_bridge := fst (removed_service pid g (tr_bridge s, w :: ('hr, 'hw) world))\<rparr>)"
| rpc_announced: "rpc_step E s (s\<lparr>tr_bridge := fst (rpc_data_available g (tr_bridge s, w :: ('hr, 'hw) world))\<rparr>)"

inductive_cases rpc_stepE: "rpc_step E s s'"

definition rpc_trace_init :: "rpc_trace \<Rightarrow> bool" where
  "rpc_trace_init s \<longleftrightarrow>
     (\<exists>t. tr_bridge s = rpc_bridge_new t) \<and> tr_asked s = {#} \<and> tr_answered s = {#}"

section \<open>Open requests\<close>

text \<open>How often a request waits for its reply in a registry, and in the registry of a participant.\<close>

definition times_open :: "service_registry \<Rightarrow> registry_entry \<Rightarrow> nat" where
  "times_open r e = length (filter (\<lambda>x. snd x = e) (registry r))"

definition open_requests :: "rpc_bridge \<Rightarrow> participant_id \<Rightarrow> registry_entry \<Rightarrow> nat" where
  "open_requests b pid e = (case registry_of b pid of None \<Rightarrow> 0 | Some r \<Rightarrow> times_open r e)"

lemma filter_smap_set:
  "length (filter (\<lambda>x. snd x = e) (smap_set key k v m)) \<le>
     length (filter (\<lambda>x. snd x = e) m) + (if v = e then 1 else 0)"
  by (induction m) auto

lemma times_open_add: "times_open (registry_add idx new r) e \<le> times_open r e + (if new = e then 1 else 0)"
proof -
  let ?m = "smap_set id idx new (registry r)"
  have "length (filter P (if length ?m = DEFAULT_MAX_ENTRIES then tl ?m else ?m)) \<le> length (filter P ?m)" for P
    by (cases ?m) auto
  note bound = le_trans [OF this filter_smap_set]
  show ?thesis
  proof (cases "smap_find id idx (registry r)")
    case None
    with bound [of e] show ?thesis by (simp only: times_open_def registry_add_def Let_def) simp
  qed (simp add: times_open_def registry_add_def)
qed

lemma length_filter_conj: "length (filter (\<lambda>x. Q x \<and> P x) xs) \<le> length (filter P xs)"
  by (induction xs) auto

lemma times_open_erase: "times_open (registry_erase idx r) e \<le> times_open r e"
  using length_filter_conj [of "\<lambda>x. fst x \<noteq> idx" "\<lambda>x. snd x = e" "registry r"]
  by (simp add: times_open_def registry_erase_def smap_erase_def split: option.split)

lemma times_open_erase_found:
  assumes "smap_find id idx (registry r) = Some e"
  shows "times_open (registry_erase idx r) e < times_open r e"
proof -
  have "length (filter (\<lambda>x. snd x = e) (smap_erase id idx m)) < length (filter (\<lambda>x. snd x = e) m)"
    if "smap_find id idx m = Some e" for m
    using that
  proof (induction m)
    case (Cons x m)
    have "length (filter (\<lambda>x. snd x = e) (smap_erase id idx m)) \<le> length (filter (\<lambda>x. snd x = e) m)"
      using length_filter_conj [of "\<lambda>x. fst x \<noteq> idx" "\<lambda>x. snd x = e" m] by (simp add: smap_erase_def)
    with Cons show ?case by (cases x) (auto simp: smap_erase_def split: if_splits)
  qed simp
  with assms show ?thesis by (simp add: times_open_def registry_erase_def)
qed

text \<open>Operations that add no request.\<close>

definition adds_no_request :: "rpc_bridge \<Rightarrow> rpc_bridge \<Rightarrow> bool" where
  "adds_no_request b b' \<longleftrightarrow>
     (\<forall>pid e. open_requests b' pid e \<le> open_requests b pid e) \<and>
     (smap_ok id (service_registries b) \<longrightarrow> smap_ok id (service_registries b'))"

lemma adds_no_request_refl [simp]: "adds_no_request b b"
  by (simp add: adds_no_request_def)

lemma adds_no_request_trans: "adds_no_request a b \<Longrightarrow> adds_no_request b c \<Longrightarrow> adds_no_request a c"
  unfolding adds_no_request_def by (meson le_trans)

lemma same_registries_add_nothing:
  "service_registries b' = service_registries b \<Longrightarrow> adds_no_request b b'"
  by (simp add: adds_no_request_def open_requests_def registry_of_def)

lemma fresh_registry_adds_nothing:
  "service_registries b' = smap_set id pid (service_registry_new t q) (service_registries b) \<Longrightarrow> adds_no_request b b'"
  by (auto simp: adds_no_request_def open_requests_def registry_of_def times_open_def service_registry_new_def
      intro: smap_ok_set)

lemma map_registry_adds_nothing:
  assumes "\<And>r e. times_open (f r) e \<le> times_open r e"
  shows "adds_no_request b (map_registry f pid b)"
proof -
  have "smap_ok id (service_registries b) \<Longrightarrow> smap_ok id (service_registries (map_registry f pid b))"
    by (simp add: map_registry_def split: option.split)
  moreover have "open_requests (map_registry f pid b) q e \<le> open_requests b q e" for q e
    using assms by (simp add: open_requests_def registry_of_map split: option.split)
  ultimately show ?thesis by (simp add: adds_no_request_def)
qed

lemma create_slot_registries [simp]: "service_registries (fst (create_slot r bw)) = service_registries (fst bw)"
  by (simp add: create_slot_def Let_def)

lemma proxy_client_adds_nothing: "adds_no_request (fst bw) (fst (snd (create_proxy_client_nts E pid bw)))"
  by (auto simp: create_proxy_client_nts_def Let_def case_prod_unfold split: sum.split
      intro: same_registries_add_nothing fresh_registry_adds_nothing)

lemma proxy_server_adds_nothing: "adds_no_request (fst bw) (fst (snd (create_proxy_server_nts E pid bw)))"
  by (auto simp: create_proxy_server_nts_def Let_def split: sum.split intro: same_registries_add_nothing)

lemma registry_enable_adds_nothing: "adds_no_request b (map_registry registry_enable pid b)"
  by (rule map_registry_adds_nothing) (simp add: times_open_def)

lemma init_loop_adds_nothing: "adds_no_request (fst bw) (fst (snd (init_loop E ids bw)))"
proof (induction ids arbitrary: bw)
  case (Cons pid ids)
  obtain e1 bw1 where c: "create_proxy_client_nts E pid bw = (e1, bw1)" by (metis surj_pair)
  obtain e2 b2 w2 where p: "create_proxy_server_nts E pid bw1 = (e2, b2, w2)" by (metis surj_pair)
  have 1: "adds_no_request (fst bw) (fst bw1)" using proxy_client_adds_nothing [of bw E pid] c by simp
  have 2: "adds_no_request (fst bw1) b2" using proxy_server_adds_nothing [of bw1 E pid] p by simp
  let ?b3 = "touch_servers pid b2"
  let ?b4 = "if servers_of pid ?b3 \<noteq> [] then map_registry registry_enable pid ?b3 else ?b3"
  have "adds_no_request b2 ?b3" by (rule same_registries_add_nothing) (simp add: touch_servers_def)
  then have "adds_no_request b2 ?b4"
    using adds_no_request_trans [OF _ registry_enable_adds_nothing] by simp
  with 1 2 have "adds_no_request (fst bw) ?b4" using adds_no_request_trans by blast
  from adds_no_request_trans [OF this Cons.IH [of "(?b4, w2)", unfolded fst_conv]]
  have 3: "adds_no_request (fst bw) (fst (snd (init_loop E ids (?b4, w2))))" .
  have 12: "adds_no_request (fst bw) b2" by (rule adds_no_request_trans [OF 1 2])
  show ?case
  proof (cases e1)
    case None
    with 3 12 c p show ?thesis by (cases e2) (simp_all add: Let_def)
  qed (use 1 c in simp)
qed simp

lemma init_nts_adds_nothing: "adds_no_request (fst bw) (fst (snd (init_nts E bw)))"
proof -
  let ?ids = "pdb_get_rtps_participants_ids participant_is_rtps_kind (w_participants (snd bw))"
  obtain e b w where l: "init_loop E ?ids bw = (e, b, w)" by (metis surj_pair)
  have 1: "adds_no_request (fst bw) b" using init_loop_adds_nothing [of bw E ?ids] l by simp
  have "adds_no_request b (b\<lparr>rpc_init := True\<rparr>)" by (rule same_registries_add_nothing) simp
  from adds_no_request_trans [OF 1 this] 1 l show ?thesis by (simp add: init_nts_def Let_def split: option.split)
qed

lemma data_available_registries [simp]:
  "service_registries (fst (rpc_data_available g bw)) = service_registries (fst bw)"
  by (simp add: rpc_data_available_def Let_def split: option.split prod.split)

lemma enable_reader_registries [simp]:
  "service_registries (fst (rpc_enable_reader r bw)) = service_registries (fst bw)"
proof -
  have "service_registries (fst (fold (\<lambda>cb. case cb of CB_rpc s g \<Rightarrow> rpc_data_available g | CB_track k p \<Rightarrow> id) cbs bw'))
    = service_registries (fst bw')" for cbs and bw' :: "('a, 'b) rpc_state"
    by (rule fold_const_field) (simp split: callback.split)
  then show ?thesis by (simp add: rpc_enable_reader_def Let_def)
qed

lemma enable_readers_registries [simp]:
  "service_registries (fst (fold (\<lambda>e. rpc_enable_reader (snd e)) rs bw)) = service_registries (fst bw)"
  by (rule fold_const_field) simp

lemma enable_adds_nothing: "adds_no_request (fst bw) (fst (rpc_bridge_enable E bw))"
proof -
  obtain err bw1 where i: "(if \<not> rpc_init (fst bw) then init_nts E bw else (None, bw)) = (err, bw1)" by (metis surj_pair)
  then have 1: "adds_no_request (fst bw) (fst bw1)" using init_nts_adds_nothing [of bw E] by (auto split: if_splits)
  have "adds_no_request (fst bw1) b'" if "service_registries b' = service_registries (fst bw1)" for b'
    using that by (rule same_registries_add_nothing)
  note 2 = adds_no_request_trans [OF 1 this]
  show ?thesis
    unfolding rpc_bridge_enable_def i Let_def case_prod_conv using 1 2 by (simp split: option.split)
qed

lemma disable_adds_nothing: "adds_no_request (fst bw) (fst (rpc_bridge_disable bw))"
  by (rule same_registries_add_nothing) (simp add: rpc_bridge_disable_def Let_def)

lemma removed_service_adds_nothing: "adds_no_request (fst bw) (fst (removed_service pid g bw))"
  by (rule same_registries_add_nothing) (simp add: removed_service_def rpc_bridge_disable_def Let_def)

lemma discovered_service_adds_nothing:
  assumes "discovered_service pid g b = Inr b'"
  shows "adds_no_request b b'"
proof -
  let ?b1 = "b\<lparr>current_servers := smap_set id pid (sset_insert id g (servers_of pid b)) (current_servers b)\<rparr>"
  have 1: "adds_no_request b ?b1" by (rule same_registries_add_nothing) simp
  have "b' = ?b1 \<or> b' = map_registry registry_enable pid ?b1"
    using assms by (auto simp: discovered_service_def Let_def split: if_splits option.splits)
  with 1 adds_no_request_trans [OF 1 registry_enable_adds_nothing, of pid] show ?thesis by auto
qed

section \<open>Requests and replies\<close>

text \<open>A request opens at most one entry in each registry, for itself.\<close>

lemma request_opens_once:
  assumes "handle_request E data (b, w, p) = Inr (data', b', w', p')" and "smap_ok id (service_registries b)"
  shows "open_requests b' pid e \<le> open_requests b pid e +
    (if reply_identity data \<noteq> sample_identity_unknown \<and>
        e = (participant_receiver (dr_properties data), reply_identity data) then 1 else 0)"
proof (cases "reply_identity data = sample_identity_unknown")
  case True
  with assms(1) show ?thesis by (simp add: handle_request_def)
next
  case False
  let ?new = "(participant_receiver (dr_properties data), reply_identity data)"
  from False assms(1) have loop:
    "request_loop E (reply_identity data) (service_registries b) data (b, w, p) = Inr (data', b', w', p')"
    by (simp add: handle_request_def)
  have "distinct (map fst (service_registries b))" using smap_ok_distinct [OF assms(2)] by simp
  note sends = request_loop_sends [OF loop this]
  have "registry_of b' pid = registry_of b pid \<or>
    (\<exists>k. registry_of b' pid = map_option (registry_add k ?new) (registry_of b pid))"
  proof (cases "pid \<in> fst ` set (service_registries b)")
    case True
    then obtain reg where "(pid, reg) \<in> set (service_registries b)" by auto
    with sends show ?thesis by (fastforce simp: request_sent_def split: if_splits)
  qed (use sends in blast)
  then show ?thesis
  proof
    assume "registry_of b' pid = registry_of b pid"
    then show ?thesis by (simp add: open_requests_def)
  next
    assume "\<exists>k. registry_of b' pid = map_option (registry_add k ?new) (registry_of b pid)"
    then obtain k where k: "registry_of b' pid = map_option (registry_add k ?new) (registry_of b pid)" by blast
    show ?thesis
    proof (cases "registry_of b pid")
      case (Some reg)
      with k times_open_add [of k ?new reg e] False show ?thesis by (auto simp: open_requests_def)
    qed (use k in \<open>simp add: open_requests_def\<close>)
  qed
qed

lemma request_loop_ok:
  "request_loop E si regs data (b, w, p) = Inr (data', b', w', p') \<Longrightarrow> smap_ok id (service_registries b) \<Longrightarrow>
   smap_ok id (service_registries b')"
proof (induction regs arbitrary: data b w p)
  case (Cons pr regs)
  have ok: "smap_ok id (service_registries (map_registry f q b))" for f q
    using Cons.prems(2) by (simp add: map_registry_def split: option.split)
  obtain pid reg where pr: "pr = (pid, reg)" by fastforce
  from Cons show ?case
    using ok unfolding pr by (auto simp: Let_def split: if_splits option.splits sum.splits)
qed simp

text \<open>A reply that is handed back closes its request; every other reply changes nothing.\<close>

lemma reply_closes:
  assumes "handle_reply E g pid data (b, w, p) = Inr (data', b', w', p')"
  shows "case reply_delivered E g pid data (b, w, p) of
      None \<Rightarrow> b' = b
    | Some e \<Rightarrow> adds_no_request b b' \<and> open_requests b' pid e < open_requests b pid e"
proof (cases "writer_guid (wp_sample_identity (params_of data)) = g")
  case True
  then obtain reg where reg: "smap_find id pid (service_registries b) = Some reg"
    using assms by (auto simp: handle_reply_def Let_def split: option.splits)
  let ?k = "sequence_no (wp_sample_identity (params_of data))"
  let ?e = "registry_get ?k reg"
  show ?thesis
  proof (cases "participant_id_is_valid (fst ?e)")
    case valid: True
    then have found: "smap_find id ?k (registry reg) = Some ?e"
      by (auto simp: registry_get_def participant_id_is_valid_def participant_id_invalid_def
          participant_id_is_valid_id_def split: option.splits)
    obtain ret d1 w1 p1 where wt: "write_through E (smap_find id (fst ?e) (reply_writers b))
        (set_related (snd ?e) data) w p = Inr (ret, d1, w1, p1)"
      using assms True reg valid by (auto simp: handle_reply_def Let_def rbind_eq_Inr_iff)
    have "pending b pid (reply_number data) = Some (fst ?e, snd ?e)"
      using reg found by (simp add: pending_def registry_of_def reply_number_def)
    from handle_reply_written [OF True this valid wt] assms
    have b': "b' = (if \<not> ret_ok ret then b else map_registry (registry_erase ?k) pid b)"
      by (simp add: reply_number_def)
    have "adds_no_request b (map_registry (registry_erase ?k) pid b)"
      by (rule map_registry_adds_nothing) (rule times_open_erase)
    moreover have "open_requests (map_registry (registry_erase ?k) pid b) pid ?e < open_requests b pid ?e"
      using reg times_open_erase_found [OF found] by (simp add: open_requests_def registry_of_map) (simp add: registry_of_def)
    ultimately show ?thesis
      using True reg valid wt b' by (simp add: reply_delivered_def registry_of_def)
  next
    case False
    with assms True reg show ?thesis by (simp add: handle_reply_def reply_delivered_def registry_of_def Let_def)
  qed
qed (use assms in \<open>simp add: handle_reply_def reply_delivered_def\<close>)

section \<open>Invariant\<close>

definition rpc_trace_inv :: "rpc_trace \<Rightarrow> bool" where
  "rpc_trace_inv s \<longleftrightarrow> smap_ok id (service_registries (tr_bridge s)) \<and>
     (\<forall>pid e. count (tr_answered s) (pid, e) + open_requests (tr_bridge s) pid e \<le> count (tr_asked s) e)"

lemma trace_inv_no_request:
  "rpc_trace_inv s \<Longrightarrow> adds_no_request (tr_bridge s) b' \<Longrightarrow> rpc_trace_inv (s\<lparr>tr_bridge := b'\<rparr>)"
  unfolding rpc_trace_inv_def adds_no_request_def by simp (meson add_le_mono le_refl le_trans)

lemma trace_inv_request:
  assumes inv: "rpc_trace_inv s" and req: "handle_request E data (tr_bridge s, w, p) = Inr (data', b', w', p')"
  shows "rpc_trace_inv (s\<lparr>tr_bridge := b', tr_asked :=
    (if reply_identity data = sample_identity_unknown then tr_asked s
     else add_mset (participant_receiver (dr_properties data), reply_identity data) (tr_asked s))\<rparr>)"
    (is "rpc_trace_inv ?s")
proof -
  have ok: "smap_ok id (service_registries (tr_bridge s))" using inv by (simp add: rpc_trace_inv_def)
  then have "smap_ok id (service_registries b')"
    using req by (auto simp: handle_request_def split: if_splits intro: request_loop_ok)
  moreover have "count (tr_answered s) (pid, e) + open_requests b' pid e \<le> count (tr_asked ?s) e" for pid e
  proof -
    have "count (tr_answered s) (pid, e) + open_requests (tr_bridge s) pid e \<le> count (tr_asked s) e"
      using inv unfolding rpc_trace_inv_def by blast
    with request_opens_once [OF req ok, of pid e] show ?thesis by auto
  qed
  ultimately show ?thesis by (simp add: rpc_trace_inv_def)
qed

lemma trace_inv_reply:
  assumes inv: "rpc_trace_inv s" and reply: "handle_reply E g pid data (tr_bridge s, w, p) = Inr (data', b', w', p')"
  shows "rpc_trace_inv (s\<lparr>tr_bridge := b', tr_answered :=
    (case reply_delivered E g pid data (tr_bridge s, w, p) of
       None \<Rightarrow> tr_answered s | Some e \<Rightarrow> add_mset (pid, e) (tr_answered s))\<rparr>)"
    (is "rpc_trace_inv ?s")
proof (cases "reply_delivered E g pid data (tr_bridge s, w, p)")
  case None
  with reply_closes [OF reply] inv show ?thesis by (simp add: rpc_trace_inv_def)
next
  case (Some e)
  with reply_closes [OF reply]
  have b': "adds_no_request (tr_bridge s) b'" "open_requests b' pid e < open_requests (tr_bridge s) pid e" by auto
  have "count (tr_answered ?s) (q, f) + open_requests b' q f \<le> count (tr_asked s) f" for q f
  proof -
    have "open_requests b' q f \<le> open_requests (tr_bridge s) q f"
      "count (tr_answered s) (q, f) + open_requests (tr_bridge s) q f \<le> count (tr_asked s) f"
      using b'(1) inv unfolding adds_no_request_def rpc_trace_inv_def by blast+
    with b'(2) Some show ?thesis by (cases "(q, f) = (pid, e)") auto
  qed
  with b'(1) inv show ?thesis by (simp add: rpc_trace_inv_def adds_no_request_def)
qed

lemma rpc_trace_inv_step:
  assumes inv: "rpc_trace_inv s" and "rpc_step E s s'"
  shows "rpc_trace_inv s'"
  using assms(2)
proof (cases rule: rpc_step.cases)
  case (rpc_request data w p data' b' w' p')
  with trace_inv_request [OF inv rpc_request(2)] show ?thesis by simp
next
  case (rpc_reply g pid data w p data' b' w' p')
  with trace_inv_reply [OF inv rpc_reply(2)] show ?thesis by simp
next
  case (rpc_on w)
  with trace_inv_no_request [OF inv] enable_adds_nothing [of "(tr_bridge s, w)" E] show ?thesis by simp
next
  case (rpc_off w)
  with trace_inv_no_request [OF inv] disable_adds_nothing [of "(tr_bridge s, w)"] show ?thesis by simp
next
  case (rpc_server pid g b')
  with trace_inv_no_request [OF inv] discovered_service_adds_nothing show ?thesis by simp
next
  case (rpc_server_gone pid g w)
  with trace_inv_no_request [OF inv] removed_service_adds_nothing [of "(tr_bridge s, w)"] show ?thesis by simp
next
  case (rpc_announced g w)
  with trace_inv_no_request [OF inv] same_registries_add_nothing show ?thesis by simp
qed

interpretation rpc_traces: invariant_system rpc_trace_init "rpc_step E" rpc_trace_inv
  for E :: "('q, 's, 'hr, 'hw) rtps_env"
proof
  show "rpc_trace_init s \<Longrightarrow> rpc_trace_inv s" for s
    by (auto simp: rpc_trace_init_def rpc_trace_inv_def rpc_bridge_new_def open_requests_def registry_of_def)
qed (rule rpc_trace_inv_step)

section \<open>Properties\<close>

text \<open>
  C27. Replies answer requests, at most once. However requests, replies, enables, disables and the coming and
  going of servers follow each other, through the servers of one participant a client is handed at most as
  many replies related to a request as it sent that request: none is invented, none goes to another client,
  none is delivered twice.
\<close>

theorem replies_answer_requests:
  assumes "reachable rpc_trace_init (rpc_step E) s"
  shows "count (tr_answered s) (pid, client, si) \<le> count (tr_asked s) (client, si)"
  using rpc_traces.reachable_inv [OF assms]
  unfolding rpc_trace_inv_def by (meson add_leE)

text \<open>
  A service with a server behind the participant \<open>a\<close> and a client behind \<open>b\<close>: the server is discovered, the
  bridge enabled, a request taken by the proxy server of \<open>b\<close> and its reply by the proxy client of \<open>a\<close>.
\<close>

definition sample_rtps_participant :: "string \<Rightarrow> participant" where
  "sample_rtps_participant s =
     P_base \<lparr>pt_id = PId s, pt_kind = PK_simple_rtps, pt_is_repeater = False, pt_writers = [], pt_readers = []\<rparr>"

definition sample_service_world :: "(unit, unit) world" where
  "sample_service_world =
     sample_world\<lparr>w_participants := [(PId ''a'', sample_rtps_participant ''a''), (PId ''b'', sample_rtps_participant ''b'')]\<rparr>"

definition sample_service_topic :: rpc_topic where
  "sample_service_topic =
     rpc_topic_of ''add'' (dds_topic_of_names 1 ''rq/addRequest'' ''T_Request'') (dds_topic_of_names 1 ''rr/addReply'' ''T_Response'')"

definition sample_open_world :: "(unit, unit) world" where
  "sample_open_world =
     sample_service_world\<lparr>w_store := \<lparr>next_ref = 8, writer_at = (\<lambda>r. Some WO_blank), reader_at = (\<lambda>r. Some RO_blank)\<rparr>\<rparr>"

definition sample_reply :: data_received where
  "sample_reply =
     data_received_default\<lparr>dr_properties := data_properties_default
       \<lparr>dp_write_params := Some (write_params_default
          \<lparr>wp_sample_identity := \<lparr>writer_guid = guid_unknown, sequence_no = 0\<rparr>\<rparr>)\<rparr>\<rparr>"

theorem replies_answer_requests_witness:
  "\<exists>s. reachable rpc_trace_init (rpc_step sample_env) s \<and>
     count (tr_answered s) (PId ''a'', PId ''b'', reply_identity sample_request) = 1 \<and>
     count (tr_answered s) (PId ''a'', PId ''b'', reply_identity sample_request) \<le>
       count (tr_asked s) (PId ''b'', reply_identity sample_request)"
proof -
  let ?e = "(PId ''b'', reply_identity sample_request)" and ?d = sample_reply
  let ?s0 = "\<lparr>tr_bridge = rpc_bridge_new sample_service_topic, tr_asked = {#}, tr_answered = {#}\<rparr>"
  have "case discovered_service (PId ''a'') (guid_prefix_of guid_unknown) (tr_bridge ?s0) of Inl _ \<Rightarrow> False | Inr b1 \<Rightarrow>
    (case handle_request sample_env sample_request
        (fst (rpc_bridge_enable sample_env (b1, sample_service_world)), sample_open_world, sample_fast_pool) of
       Inl _ \<Rightarrow> False | Inr (d3, b3, w3, p3) \<Rightarrow>
    (case handle_reply sample_env guid_unknown (PId ''a'') ?d (b3, sample_open_world, sample_fast_pool) of
       Inl _ \<Rightarrow> False | Inr (d4, b4, w4, p4) \<Rightarrow>
     reply_delivered sample_env guid_unknown (PId ''a'') ?d (b3, sample_open_world, sample_fast_pool) = Some ?e \<and>
     reply_identity sample_request \<noteq> sample_identity_unknown))"
    by code_simp
  then obtain b1 b2 d3 b3 w3 p3 d4 b4 w4 p4 where
    1: "discovered_service (PId ''a'') (guid_prefix_of guid_unknown) (tr_bridge ?s0) = Inr b1" and
    2: "b2 = fst (rpc_bridge_enable sample_env (b1, sample_service_world))" and
    3: "handle_request sample_env sample_request (b2, sample_open_world, sample_fast_pool) = Inr (d3, b3, w3, p3)" and
    4: "handle_reply sample_env guid_unknown (PId ''a'') ?d (b3, sample_open_world, sample_fast_pool) = Inr (d4, b4, w4, p4)" and
    e: "reply_delivered sample_env guid_unknown (PId ''a'') ?d (b3, sample_open_world, sample_fast_pool) = Some ?e"
      "reply_identity sample_request \<noteq> sample_identity_unknown"
    by (auto split: sum.split_asm prod.split_asm)
  have r: "participant_receiver (dr_properties sample_request) = PId ''b''" by (simp add: sample_request_def)
  let ?R = "reachable rpc_trace_init (rpc_step sample_env)"
  let ?s3 = "?s0\<lparr>tr_bridge := b3, tr_asked := {#?e#}\<rparr>"
  have "?R ?s0" by (rule reach_init) (auto simp: rpc_trace_init_def)
  then have "?R (?s0\<lparr>tr_bridge := b1\<rparr>)" by (rule reach_step) (rule rpc_server [OF 1])
  then have "?R (?s0\<lparr>tr_bridge := b2\<rparr>)"
    by (rule reach_step) (use rpc_on [of sample_env "?s0\<lparr>tr_bridge := b1\<rparr>" sample_service_world] 2 in simp)
  then have "?R ?s3"
    by (rule reach_step) (use rpc_request [of sample_env sample_request "?s0\<lparr>tr_bridge := b2\<rparr>"] 3 e(2) r in force)
  then have R: "?R (?s3\<lparr>tr_bridge := b4, tr_answered := {#(PId ''a'', ?e)#}\<rparr>)"
    by (rule reach_step) (use rpc_reply [of sample_env guid_unknown "PId ''a''" ?d ?s3] 4 e(1) in force)
  from replies_answer_requests [OF R, of "PId ''a''" "PId ''b''" "reply_identity sample_request"] R show ?thesis
    by (intro exI [of _ "?s3\<lparr>tr_bridge := b4, tr_answered := {#(PId ''a'', ?e)#}\<rparr>"] conjI) simp_all
qed

end
