(* ===== verification/Dummy_Forwarding.thy ===== *)
theory Dummy_Forwarding
  imports Track_Run DDS_Bridge
begin

text \<open>
  Dummy participants (\<^verbatim>\<open>participant/implementations/auxiliar/DummyParticipant\<close>) and the way of a sample through
  a bridge between them: the reception at a reader, the callback of its track, the task the track emits, the
  transmission, and what the dummy writers of the other participants report as sent.
\<close>

section \<open>Operations\<close>

text \<open>The static map of all dummy participants, by id; a participant object is known by its address.\<close>

type_synonym dummy_participants = "(participant_id, nat) smap"

definition dummy_participant_new :: "participant_id \<Rightarrow> nat \<Rightarrow> dummy_participants \<Rightarrow> dummy_participants" where
  "dummy_participant_new pid this participants = smap_set id pid this participants"

definition dummy_participant_destroy :: "participant_id \<Rightarrow> dummy_participants \<Rightarrow> dummy_participants" where
  "dummy_participant_destroy pid participants = smap_erase id pid participants"

definition dummy_get_participant :: "participant_id \<Rightarrow> dummy_participants \<Rightarrow> nat option" where
  "dummy_get_participant pid participants = smap_find id pid participants"

definition simulate_discovered_endpoint ::
    "'q db_queue_ops \<Rightarrow> endpoint \<Rightarrow> ('q, 's) discovery_database \<Rightarrow> ('q, 's) discovery_database" where
  "simulate_discovered_endpoint Q new_endpoint db = db_add_endpoint Q new_endpoint db"

definition get_discovered_endpoint :: "guid \<Rightarrow> ('q, 's) discovery_database \<Rightarrow> endpoint result" where
  "get_discovered_endpoint g db = db_get_endpoint g db"

text \<open>The dynamic casts give a null pointer for an endpoint that is not a dummy.\<close>

definition simulate_data_reception ::
    "base_participant \<Rightarrow> dds_topic \<Rightarrow> dummy_data_received \<Rightarrow> ('cb, 'hr, 'hw) object_store \<Rightarrow>
     ('cb list \<times> ('cb, 'hr, 'hw) object_store) result" where
  "simulate_data_reception b topic data st =
     (case smap_find dds_topic_key topic (pt_readers b) of
        None \<Rightarrow> Inr ([], st)
      | Some r \<Rightarrow>
         (case reader_at st r of
            Some (RO_dummy reader) \<Rightarrow>
              (let (cbs, reader') = dummy_simulate_data_reception data reader
               in Inr (cbs, st\<lparr>reader_at := (reader_at st)(r \<mapsto> RO_dummy reader')\<rparr>))
          | _ \<Rightarrow> Inl NullDereference))"

definition get_data_that_should_have_been_sent ::
    "base_participant \<Rightarrow> dds_topic \<Rightarrow> ('cb, 'hr, 'hw) object_store \<Rightarrow> dummy_data_stored list result" where
  "get_data_that_should_have_been_sent b topic st =
     (case smap_find dds_topic_key topic (pt_writers b) of
        None \<Rightarrow> Inr []
      | Some r \<Rightarrow>
         (case writer_at st r of
            Some (WO_dummy writer) \<Rightarrow> Inr (data_stored writer)
          | _ \<Rightarrow> Inl NullDereference))"

text \<open>Whether the wait for \<open>n\<close> samples is over.\<close>

definition wait_until_n_data_sent ::
    "base_participant \<Rightarrow> dds_topic \<Rightarrow> 16 word \<Rightarrow> ('cb, 'hr, 'hw) object_store \<Rightarrow> bool result" where
  "wait_until_n_data_sent b topic n st =
     (case smap_find dds_topic_key topic (pt_writers b) of
        None \<Rightarrow> Inr True
      | Some r \<Rightarrow>
         (case writer_at st r of
            Some (WO_dummy writer) \<Rightarrow> Inr (dummy_wait_condition (unat n) writer)
          | _ \<Rightarrow> Inl NullDereference))"

text \<open>
  The callbacks of the readers of a bridge are \<^verbatim>\<open>data_available_\<close> of its tracks; what they emit goes to the
  thread pool.
\<close>

definition notify_track :: "callback \<Rightarrow> dds_bridge \<times> ('hr, 'hw) world \<Rightarrow> dds_bridge \<times> ('hr, 'hw) world" where
  "notify_track cb bw =
     (case cb of
        CB_track key pid \<Rightarrow>
          (if key = dds_topic_key (brg_topic (fst bw)) then
             (case smap_find id pid (brg_tracks (fst bw)) of
                None \<Rightarrow> bw
              | Some t \<Rightarrow>
                 (let (es, t') = data_available t
                  in ((fst bw)\<lparr>brg_tracks := smap_set id pid t' (brg_tracks (fst bw))\<rparr>,
                      (snd bw)\<lparr>w_emitted := w_emitted (snd bw) @ es\<rparr>)))
           else bw)
      | CB_rpc service g \<Rightarrow> bw)"

definition receive_data ::
    "participant_id \<Rightarrow> dummy_data_received \<Rightarrow> dds_bridge \<times> ('hr, 'hw) world \<Rightarrow>
     (dds_bridge \<times> ('hr, 'hw) world) result" where
  "receive_data pid data bw =
     (case pdb_get_participant pid (w_participants (snd bw)) of
        Some (P_base p) \<Rightarrow>
          rbind (simulate_data_reception p (brg_topic (fst bw)) data (w_store (snd bw))) (\<lambda>(cbs, st).
            Inr (fold notify_track cbs (fst bw, (snd bw)\<lparr>w_store := st\<rparr>)))
      | _ \<Rightarrow> Inl NullDereference)"

section \<open>Dummy endpoints of a world\<close>

definition queue_at :: "('cb, 'hr, 'hw) object_store \<Rightarrow> ref \<Rightarrow> dummy_data_received list option" where
  "queue_at st r = (case reader_at st r of Some (RO_dummy rd) \<Rightarrow> Some (data_to_send rd) | _ \<Rightarrow> None)"

definition callback_at :: "('cb, 'hr, 'hw) object_store \<Rightarrow> ref \<Rightarrow> 'cb option" where
  "callback_at st r = (case reader_at st r of Some (RO_dummy rd) \<Rightarrow> br_on_data_available rd | _ \<Rightarrow> None)"

definition stored_at :: "('cb, 'hr, 'hw) object_store \<Rightarrow> ref \<Rightarrow> dummy_data_stored list option" where
  "stored_at st r = (case writer_at st r of Some (WO_dummy w) \<Rightarrow> Some (data_stored w) | _ \<Rightarrow> None)"

lemmas at_defs = queue_at_def callback_at_def stored_at_def

fun is_dummy :: "participant \<Rightarrow> bool" where
  "is_dummy (P_base b) = (pt_kind b = PK_dummy)"
| "is_dummy p = False"

fun reader_for :: "dds_topic \<Rightarrow> participant \<Rightarrow> ref option" where
  "reader_for topic (P_base b) = smap_find dds_topic_key topic (pt_readers b)"
| "reader_for topic p = None"

fun writer_for :: "dds_topic \<Rightarrow> participant \<Rightarrow> ref option" where
  "writer_for topic (P_base b) = smap_find dds_topic_key topic (pt_writers b)"
| "writer_for topic p = None"

text \<open>The participants are dummies, and the endpoints created so far are empty and registered with them.\<close>

definition endpoints_dummy ::
    "dds_topic \<Rightarrow> (participant_id, ref) smap \<Rightarrow> (participant_id, ref) smap \<Rightarrow> ('hr, 'hw) world \<Rightarrow> bool" where
  "endpoints_dummy topic ws rs w \<longleftrightarrow>
     (\<forall>q p. pdb_get_participant q (w_participants w) = Some p \<longrightarrow> is_dummy p) \<and>
     (\<forall>q r. smap_find id q rs = Some r \<longrightarrow> queue_at (w_store w) r = Some [] \<and>
        (\<exists>p. pdb_get_participant q (w_participants w) = Some p \<and> reader_for topic p = Some r)) \<and>
     (\<forall>q r. smap_find id q ws = Some r \<longrightarrow> stored_at (w_store w) r = Some [] \<and>
        (\<exists>p. pdb_get_participant q (w_participants w) = Some p \<and> writer_for topic p = Some r))"

lemma refs_belowD: "refs_below n m \<Longrightarrow> smap_find id q m = Some r \<Longrightarrow> r < n"
  using smap_find_SomeD [of id q m r] by (fastforce simp: refs_below_def)

lemma create_writer_dummy:
  assumes "create_writer E topic (p, st) = Inr (r, p', st')" and "is_dummy p"
  shows "is_dummy p' \<and> writer_for topic p' = Some r \<and> reader_for topic p' = reader_for topic p \<and>
    r = next_ref st \<and> reader_at st' = reader_at st \<and> (\<forall>j. j \<noteq> r \<longrightarrow> writer_at st' j = writer_at st j) \<and>
    stored_at st' r = Some []"
  using assms
  by (cases p) (auto simp: base_create_writer_def store_new_writer_def Let_def stored_at_def split: option.splits)

lemma create_reader_dummy:
  assumes "create_reader E topic (p, st) = Inr (r, p', st')" and "is_dummy p"
  shows "is_dummy p' \<and> reader_for topic p' = Some r \<and> writer_for topic p' = writer_for topic p \<and>
    r = next_ref st \<and> writer_at st' = writer_at st \<and> (\<forall>j. j \<noteq> r \<longrightarrow> reader_at st' j = reader_at st j) \<and>
    queue_at st' r = Some []"
  using assms
  by (cases p) (auto simp: base_create_reader_def store_new_reader_def Let_def queue_at_def split: option.splits)

lemma world_create_writer_dummy:
  assumes "world_create_writer E pid topic w = Inr (r, w')" and "endpoints_ok ws rs w"
    and "endpoints_dummy topic ws rs w"
  shows "endpoints_dummy topic (smap_set id pid r ws) rs w'"
proof -
  obtain p p' st' where p: "pdb_get_participant pid (w_participants w) = Some p"
    and c: "create_writer E topic (p, w_store w) = Inr (r, p', st')"
    and w': "w' = w\<lparr>w_participants := smap_set id pid p' (w_participants w), w_store := st'\<rparr>"
    using assms(1) by (auto simp: world_create_writer_def rbind_eq_Inr_iff split: option.splits)
  have "is_dummy p" using p assms(3) by (simp add: endpoints_dummy_def)
  note d = create_writer_dummy [OF c this]
  have other: "stored_at st' j = stored_at (w_store w) j" if "smap_find id q ws = Some j" for q j
  proof -
    have "j < next_ref (w_store w)" using assms(2) that refs_belowD by (auto simp: endpoints_ok_def)
    with d show ?thesis by (simp add: stored_at_def)
  qed
  have same: "queue_at st' j = queue_at (w_store w) j" for j using d by (simp add: queue_at_def)
  have own: "smap_find id pid rs = Some j \<Longrightarrow> reader_for topic p = Some j" for j
    using assms(3) p by (fastforce simp: endpoints_dummy_def)
  have get: "pdb_get_participant q (w_participants w') = (if q = pid then Some p' else pdb_get_participant q (w_participants w))" for q
    by (simp add: w' pdb_get_participant_def)
  show ?thesis
    using assms(3) p d other same own unfolding endpoints_dummy_def get by (auto simp: w')
qed

lemma world_create_reader_dummy:
  assumes "world_create_reader E pid topic w = Inr (r, w')" and "endpoints_ok ws rs w"
    and "endpoints_dummy topic ws rs w"
  shows "endpoints_dummy topic ws (smap_set id pid r rs) w'"
proof -
  obtain p p' st' where p: "pdb_get_participant pid (w_participants w) = Some p"
    and c: "create_reader E topic (p, w_store w) = Inr (r, p', st')"
    and w': "w' = w\<lparr>w_participants := smap_set id pid p' (w_participants w), w_store := st'\<rparr>"
    using assms(1) by (auto simp: world_create_reader_def rbind_eq_Inr_iff split: option.splits)
  have "is_dummy p" using p assms(3) by (simp add: endpoints_dummy_def)
  note d = create_reader_dummy [OF c this]
  have other: "queue_at st' j = queue_at (w_store w) j" if "smap_find id q rs = Some j" for q j
  proof -
    have "j < next_ref (w_store w)" using assms(2) that refs_belowD by (auto simp: endpoints_ok_def)
    with d show ?thesis by (simp add: queue_at_def)
  qed
  have same: "stored_at st' j = stored_at (w_store w) j" for j using d by (simp add: stored_at_def)
  have own: "smap_find id pid ws = Some j \<Longrightarrow> writer_for topic p = Some j" for j
    using assms(3) p by (fastforce simp: endpoints_dummy_def)
  have get: "pdb_get_participant q (w_participants w') = (if q = pid then Some p' else pdb_get_participant q (w_participants w))" for q
    by (simp add: w' pdb_get_participant_def)
  show ?thesis
    using assms(3) p d other same own unfolding endpoints_dummy_def get by (auto simp: w')
qed

lemma create_endpoints_dummy:
  assumes "create_endpoints E topic ids ws rs w = (Inr (ws', rs'), w')" and "distinct ids"
    and "endpoints_ok ws rs w" and "endpoints_dummy topic ws rs w"
    and "\<forall>pid\<in>set ids. smap_find id pid ws = None \<and> smap_find id pid rs = None"
  shows "endpoints_dummy topic ws' rs' w'"
  using assms
proof (induction ids arbitrary: ws rs w)
  case (Cons pid ids)
  obtain wr w1 rd w2 where c: "world_create_writer E pid topic w = Inr (wr, w1)"
    "world_create_reader E pid topic w1 = Inr (rd, w2)"
    and rest: "create_endpoints E topic ids (smap_set id pid wr ws) (smap_set id pid rd rs) w2 = (Inr (ws', rs'), w')"
    using Cons.prems(1) by (auto split: sum.splits)
  have n: "smap_find id pid ws = None" "smap_find id pid rs = None" using Cons.prems(5) by auto
  note a = world_create_writer_ok [OF c(1) Cons.prems(3) n(1)]
  note b = world_create_reader_ok [OF c(2) conjunct1 [OF a] n(2)]
  have d1: "endpoints_dummy topic (smap_set id pid wr ws) rs w1"
    by (rule world_create_writer_dummy [OF c(1) Cons.prems(3,4)])
  have "endpoints_dummy topic (smap_set id pid wr ws) (smap_set id pid rd rs) w2"
    by (rule world_create_reader_dummy [OF c(2) conjunct1 [OF a] d1])
  moreover have "\<forall>j\<in>set ids. smap_find id j (smap_set id pid wr ws) = None \<and> smap_find id j (smap_set id pid rd rs) = None"
    using Cons.prems(2,5) by auto
  ultimately show ?case using Cons.IH [OF rest _ conjunct1 [OF b]] Cons.prems(2) by simp
qed simp

text \<open>Installing a callback and switching endpoints leave their data alone.\<close>

lemma set_callback_at:
  "queue_at (store_update_reader (ireader_set_callback cb) j st) r = queue_at st r"
  "stored_at (store_update_reader (ireader_set_callback cb) j st) r = stored_at st r"
  "callback_at (store_update_reader (ireader_set_callback cb) j st) r =
     (if r = j \<and> queue_at st r \<noteq> None then Some cb else callback_at st r)"
  by (auto simp: at_defs store_update_reader_def set_on_data_available_callback_def
      split: option.splits reader_object.splits)

lemma enable_writer_at [simp]:
  "queue_at (store_update_writer iwriter_enable j st) r = queue_at st r"
  "callback_at (store_update_writer iwriter_enable j st) r = callback_at st r"
  "stored_at (store_update_writer iwriter_enable j st) r = stored_at st r"
  by (auto simp: at_defs store_update_writer_def base_writer_enable_def split: option.splits writer_object.splits)

lemma enable_writers_at [simp]:
  "queue_at (fold (\<lambda>e. store_update_writer iwriter_enable (snd e)) ws st) r = queue_at st r"
  "callback_at (fold (\<lambda>e. store_update_writer iwriter_enable (snd e)) ws st) r = callback_at st r"
  "stored_at (fold (\<lambda>e. store_update_writer iwriter_enable (snd e)) ws st) r = stored_at st r"
  by (induction ws arbitrary: st) simp_all

lemma enable_reader_at [simp]:
  "queue_at (store_update_reader (\<lambda>r. snd (ireader_enable r)) j st) r = queue_at st r"
  "callback_at (store_update_reader (\<lambda>r. snd (ireader_enable r)) j st) r = callback_at st r"
  "stored_at (store_update_reader (\<lambda>r. snd (ireader_enable r)) j st) r = stored_at st r"
  by (auto simp: at_defs store_update_reader_def base_reader_enable_def Let_def
      split: option.splits reader_object.splits)

text \<open>The tracks: each reader calls its own track back.\<close>

definition tracks_listen ::
    "dds_topic \<Rightarrow> (participant_id, ref) smap \<Rightarrow> (participant_id, callback track) smap \<Rightarrow>
     (callback, 'hr, 'hw) object_store \<Rightarrow> bool" where
  "tracks_listen topic rs ts st \<longleftrightarrow>
     (\<forall>q t. smap_find id q ts = Some t \<longrightarrow>
        smap_find id q rs = Some (track_reader t) \<and>
        callback_at st (track_reader t) = Some (CB_track (dds_topic_key topic) q))"

lemma create_tracks_listen:
  assumes "create_tracks topic ws rs ids ts w = (Inr ts', w')"
    and "\<And>a b r. smap_find id a rs = Some r \<Longrightarrow> smap_find id b rs = Some r \<Longrightarrow> a = b"
    and "endpoints_dummy topic ws rs w" and "tracks_listen topic rs ts (w_store w)"
  shows "endpoints_dummy topic ws rs w' \<and> tracks_listen topic rs ts' (w_store w') \<and>
    w_participants w' = w_participants w"
  using assms(1,3,4)
proof (induction ids arbitrary: ts w)
  case (Cons pid ids)
  obtain p rd where p: "pdb_get_participant pid (w_participants w) = Some p" "smap_find id pid rs = Some rd"
    using Cons.prems(1) by (auto split: option.splits)
  let ?cb = "CB_track (dds_topic_key topic) pid"
  obtain t where new: "track_new topic pid rd (track_targets p pid ws) (w_next_task w) ?cb False (w_store w) =
      ([], t, store_update_reader (ireader_set_callback ?cb) rd (w_store w))" and t: "track_reader t = rd"
    by (simp add: track_new_def)
  let ?w = "w\<lparr>w_store := store_update_reader (ireader_set_callback ?cb) rd (w_store w),
      w_next_task := w_next_task w + 1, w_emitted := w_emitted w @ []\<rparr>"
  have rest: "create_tracks topic ws rs ids (smap_set id pid t ts) ?w = (Inr ts', w')"
    using Cons.prems(1) p new by simp
  have dummy: "endpoints_dummy topic ws rs ?w"
    using Cons.prems(2) by (simp add: endpoints_dummy_def set_callback_at)
  have "queue_at (w_store w) rd \<noteq> None" using Cons.prems(2) p(2) by (auto simp: endpoints_dummy_def)
  then have "tracks_listen topic rs (smap_set id pid t ts) (w_store ?w)"
    using Cons.prems(3) assms(2) p(2) t by (auto simp: tracks_listen_def set_callback_at)
  from Cons.IH [OF rest dummy this] show ?case by simp
qed simp

lemma track_enable_dummy:
  assumes "track_enable (t, st) = (es, t', st')" and "\<not> track_enabled t"
    and "queue_at st (track_reader t) \<noteq> None"
  shows "es = [] \<and> t' = t\<lparr>track_enabled := True\<rparr> \<and>
    (\<forall>r. queue_at st' r = queue_at st r \<and> callback_at st' r = callback_at st r \<and> stored_at st' r = stored_at st r)"
proof -
  obtain rd where rd: "reader_at st (track_reader t) = Some (RO_dummy rd)"
    using assms(3) by (auto simp: queue_at_def split: option.splits reader_object.splits)
  have cbs: "fst (ireader_enable (RO_dummy rd)) = []" by (simp add: base_reader_enable_def Let_def)
  show ?thesis
    using assms(1,2) rd by (auto simp: track_enable_def Let_def enable_writers_fold cbs simp del: ireader_enable.simps)
qed

lemma tracks_enable_dummy:
  assumes "tracks_enable ts w = (ts', w')" and "\<forall>e\<in>set ts. \<not> track_enabled (snd e)"
    and "\<forall>e\<in>set ts. queue_at (w_store w) (track_reader (snd e)) \<noteq> None"
  shows "ts' = map (\<lambda>e. (fst e, (snd e)\<lparr>track_enabled := True\<rparr>)) ts \<and>
    w_participants w' = w_participants w \<and> w_emitted w' = w_emitted w \<and>
    (\<forall>r. queue_at (w_store w') r = queue_at (w_store w) r \<and> callback_at (w_store w') r = callback_at (w_store w) r \<and>
       stored_at (w_store w') r = stored_at (w_store w) r)"
  using assms
proof (induction ts arbitrary: w ts')
  case (Cons e ts)
  obtain pid t where e: "e = (pid, t)" by fastforce
  obtain es t1 st1 where en: "track_enable (t, w_store w) = (es, t1, st1)" by (metis prod_cases3)
  have eff: "es = []" "t1 = t\<lparr>track_enabled := True\<rparr>"
    "\<forall>r. queue_at st1 r = queue_at (w_store w) r \<and> callback_at st1 r = callback_at (w_store w) r \<and>
       stored_at st1 r = stored_at (w_store w) r"
    using track_enable_dummy [OF en] Cons.prems(2,3) e by auto
  let ?w = "w\<lparr>w_store := st1, w_emitted := w_emitted w @ es\<rparr>"
  obtain ts2 where rest: "tracks_enable ts ?w = (ts2, w')" and ts': "ts' = (pid, t1) # ts2"
    using Cons.prems(1) en unfolding e by (auto split: prod.splits)
  from Cons.IH [OF rest] Cons.prems(2,3) eff ts' show ?case unfolding e by auto
qed simp

section \<open>A bridge between dummy participants\<close>

definition dummy_bridge :: "dds_topic \<Rightarrow> dds_bridge \<Rightarrow> ('hr, 'hw) world \<Rightarrow> bool" where
  "dummy_bridge topic b w \<longleftrightarrow>
     brg_topic b = topic \<and> endpoints_dummy topic (brg_writers b) (brg_readers b) w \<and>
     tracks_listen topic (brg_readers b) (brg_tracks b) (w_store w) \<and>
     smap_ok id (brg_writers b) \<and> distinct (map snd (brg_writers b)) \<and>
     (\<forall>q. smap_find id q (brg_tracks b) \<noteq> None \<longleftrightarrow> pdb_get_participant q (w_participants w) \<noteq> None) \<and>
     (\<forall>q. smap_find id q (brg_writers b) \<noteq> None \<longleftrightarrow> pdb_get_participant q (w_participants w) \<noteq> None) \<and>
     (\<forall>q t. smap_find id q (brg_tracks b) = Some t \<longrightarrow>
        should_transmit t \<and> data_available_status t = 0 \<and> reader_on (w_store w) (track_reader t) \<and>
        (\<forall>x\<in>set (track_writers t). writer_on (w_store w) (snd x)) \<and>
        (\<forall>p. pdb_get_participant q (w_participants w) = Some p \<longrightarrow>
           track_writers t = (if participant_is_repeater p then brg_writers b else smap_erase id q (brg_writers b))))"

lemma smap_find_map_snd:
  "smap_find id k (map (\<lambda>e. (fst e, f (snd e))) m) = map_option f (smap_find id k m)"
  by (induction m) auto

lemma distinct_refs:
  assumes "distinct (map snd m)" and "smap_find id a m = Some r" and "smap_find id b m = Some r"
  shows "a = b"
proof -
  have "(a, r) \<in> set m" "(b, r) \<in> set m" using smap_find_SomeD [OF assms(2)] smap_find_SomeD [OF assms(3)] by auto
  moreover have "inj_on snd (set m)" using assms(1) by (simp add: distinct_map)
  ultimately show ?thesis using inj_onD [of snd "set m" "(a, r)" "(b, r)"] by simp
qed

lemma bridge_created_dummy:
  assumes ok: "smap_ok id (w_participants w)"
    and dummies: "\<And>q p. pdb_get_participant q (w_participants w) = Some p \<Longrightarrow> is_dummy p"
    and new: "dds_bridge_new E topic False w = (Inr b, w')"
  shows "endpoints_dummy topic (brg_writers b) (brg_readers b) w' \<and>
    tracks_listen topic (brg_readers b) (brg_tracks b) (w_store w') \<and>
    smap_ok id (brg_writers b) \<and> distinct (map snd (brg_writers b))"
proof -
  let ?ids = "pdb_get_participants_ids (w_participants w)"
  obtain ws rs w1 ts where c: "create_endpoints E topic ?ids [] [] w = (Inr (ws, rs), w1)"
    and ct: "create_tracks topic ws rs ?ids [] w1 = (Inr ts, w')"
    and b: "b = \<lparr>brg_topic = topic, brg_writers = ws, brg_readers = rs, brg_tracks = ts, brg_enabled = False\<rparr>"
    using new by (auto simp: dds_bridge_new_def Let_def split: prod.splits sum.splits)
  have ids: "distinct ?ids" using pdb_ids_eq [OF ok] smap_ok_distinct [OF ok] by (simp add: comp_def)
  have start: "endpoints_ok [] [] w" "endpoints_dummy topic [] [] w"
    using ok dummies by (auto simp: endpoints_ok_def refs_below_def endpoints_dummy_def)
  have e: "endpoints_ok ws rs w1" "endpoints_dummy topic ws rs w1"
    using create_endpoints_ok [OF c ids start(1)] create_endpoints_dummy [OF c ids start] by auto
  have inj: "smap_find id x rs = Some r \<Longrightarrow> smap_find id y rs = Some r \<Longrightarrow> x = y" for x y r
    using distinct_refs [of rs x r y] e(1) by (simp add: endpoints_ok_def)
  have "endpoints_dummy topic ws rs w'" "tracks_listen topic rs ts (w_store w')"
    using create_tracks_listen [OF ct inj e(2)] by (simp_all add: tracks_listen_def)
  with e(1) show ?thesis by (simp add: b endpoints_ok_def)
qed

text \<open>Enabling a bridge with fresh tracks switches every track on and changes neither data nor callbacks.\<close>

lemma bridge_enable_dummy:
  assumes "bridge_wired b w" and "tracks_fresh b" and "dds_bridge_enable (b, w) = (b', w')"
    and "endpoints_dummy topic (brg_writers b) (brg_readers b) w"
    and "tracks_listen topic (brg_readers b) (brg_tracks b) (w_store w)"
    and "\<not> brg_enabled b"
  shows "b' = b\<lparr>brg_tracks := map (\<lambda>e. (fst e, (snd e)\<lparr>track_enabled := True\<rparr>)) (brg_tracks b), brg_enabled := True\<rparr> \<and>
    w_participants w' = w_participants w \<and>
    (\<forall>r. queue_at (w_store w') r = queue_at (w_store w) r \<and> callback_at (w_store w') r = callback_at (w_store w) r \<and>
       stored_at (w_store w') r = stored_at (w_store w) r)"
proof -
  obtain ts' where en: "tracks_enable (brg_tracks b) w = (ts', w')"
    and b: "b' = b\<lparr>brg_tracks := ts', brg_enabled := True\<rparr>"
    using assms(3,6) by (auto simp: dds_bridge_enable_def split: prod.splits)
  have "queue_at (w_store w) (track_reader (snd e)) \<noteq> None" if "e \<in> set (brg_tracks b)" for e
  proof -
    have "smap_find id (fst e) (brg_tracks b) = Some (snd e)"
      using that assms(1) smap_find_in_ok [of id "brg_tracks b" "fst e" "snd e"] by (simp add: bridge_wired_def)
    then have "smap_find id (fst e) (brg_readers b) = Some (track_reader (snd e))"
      using assms(5) by (simp add: tracks_listen_def)
    then have "queue_at (w_store w) (track_reader (snd e)) = Some []" using assms(4) unfolding endpoints_dummy_def by blast
    then show ?thesis by simp
  qed
  moreover have "\<forall>e\<in>set (brg_tracks b). \<not> track_enabled (snd e)" using assms(2) by (simp add: tracks_fresh_def)
  ultimately show ?thesis using tracks_enable_dummy [OF en] b by auto
qed

lemma dummy_bridge_new:
  assumes ok: "smap_ok id (w_participants w)"
    and dummies: "\<And>q p. pdb_get_participant q (w_participants w) = Some p \<Longrightarrow> is_dummy p"
    and new: "dds_bridge_new E topic True w = (Inr b, w')"
  shows "dummy_bridge topic b w'"
proof -
  obtain b0 w2 where b0: "dds_bridge_new E topic False w = (Inr b0, w2)" "\<not> brg_enabled b0" "brg_topic b0 = topic"
    and en: "dds_bridge_enable (b0, w2) = (b, w')"
    using new by (auto simp: dds_bridge_new_def Let_def split: prod.splits sum.splits)
  have wired: "bridge_wired b0 w2" and fresh: "tracks_fresh b0" using dds_bridge_new_wired [OF ok b0(1)] by auto
  note on = dds_bridge_enable_on [OF wired fresh en]
  have e: "endpoints_dummy topic (brg_writers b0) (brg_readers b0) w2"
    "tracks_listen topic (brg_readers b0) (brg_tracks b0) (w_store w2)"
    "smap_ok id (brg_writers b0)" "distinct (map snd (brg_writers b0))"
    using bridge_created_dummy [OF ok _ b0(1)] dummies by blast+
  have b: "b = b0\<lparr>brg_tracks := map (\<lambda>e. (fst e, (snd e)\<lparr>track_enabled := True\<rparr>)) (brg_tracks b0), brg_enabled := True\<rparr>"
    and parts: "w_participants w' = w_participants w2"
    and same: "\<And>r. queue_at (w_store w') r = queue_at (w_store w2) r" "\<And>r. callback_at (w_store w') r = callback_at (w_store w2) r"
      "\<And>r. stored_at (w_store w') r = stored_at (w_store w2) r"
    using bridge_enable_dummy [OF wired fresh en e(1,2) b0(2)] by blast+
  have find: "smap_find id x (brg_tracks b) = map_option (\<lambda>t. t\<lparr>track_enabled := True\<rparr>) (smap_find id x (brg_tracks b0))" for x
    unfolding b by (simp add: smap_find_map_snd)
  have track: "should_transmit t \<and> data_available_status t = 0 \<and> reader_on (w_store w') (track_reader t) \<and>
        (\<forall>x\<in>set (track_writers t). writer_on (w_store w') (snd x)) \<and>
        (\<forall>p. pdb_get_participant x (w_participants w') = Some p \<longrightarrow>
           track_writers t = (if participant_is_repeater p then brg_writers b0 else smap_erase id x (brg_writers b0)))"
    if t: "smap_find id x (brg_tracks b) = Some t" for x t
  proof -
    obtain t0 where t0: "smap_find id x (brg_tracks b0) = Some t0" "t = t0\<lparr>track_enabled := True\<rparr>"
      using t find by auto
    then have "(x, t0) \<in> set (brg_tracks b0)" 
      using wired smap_find_id_in [of "brg_tracks b0" x t0] by (simp add: bridge_wired_def)
    moreover have "track_wired topic (brg_writers b0) (brg_readers b0) (repeaters (w_participants w2)) x t0"
      using wired t0(1) b0(3) by (simp add: bridge_wired_def)
    ultimately show ?thesis
      using fresh on t0 parts b by (auto simp: tracks_fresh_def should_transmit_def track_wired_def repeaters_def)
  qed
  have "endpoints_dummy topic (brg_writers b0) (brg_readers b0) w'"
    using e same parts by (simp add: endpoints_dummy_def)
  moreover have "tracks_listen topic (brg_readers b0) (brg_tracks b) (w_store w')"
    using e same(2) find by (auto simp: tracks_listen_def)
  moreover have "smap_find id x (brg_tracks b) \<noteq> None \<longleftrightarrow> pdb_get_participant x (w_participants w') \<noteq> None"
    "smap_find id x (brg_writers b0) \<noteq> None \<longleftrightarrow> pdb_get_participant x (w_participants w') \<noteq> None" for x
    using wired find parts by (auto simp: bridge_wired_def repeaters_def)
  ultimately show ?thesis using track e b0(3) unfolding dummy_bridge_def b by simp
qed

section \<open>Reception\<close>

text \<open>A track whose reader holds the samples \<open>qs\<close> and calls it back.\<close>

definition waiting ::
    "participant_id \<Rightarrow> callback track \<Rightarrow> dummy_data_received list \<Rightarrow> dds_bridge \<Rightarrow> ('hr, 'hw) world \<Rightarrow> bool" where
  "waiting pid t qs b w \<longleftrightarrow>
     smap_find id pid (brg_tracks b) = Some t \<and> track_enabled t \<and>
     (\<exists>p rd. pdb_get_participant pid (w_participants w) = Some (P_base p) \<and>
        smap_find dds_topic_key (brg_topic b) (pt_readers p) = Some (track_reader t) \<and>
        reader_at (w_store w) (track_reader t) = Some (RO_dummy rd) \<and> br_enabled rd \<and>
        br_on_data_available rd = Some (CB_track (dds_topic_key (brg_topic b)) pid) \<and> data_to_send rd = qs)"

lemma receive_one:
  assumes "waiting pid t qs b w"
  shows "\<exists>b' w'. receive_data pid d (b, w) = Inr (b', w') \<and>
    waiting pid (t\<lparr>data_available_status := data_available_status t + 2\<rparr>) (qs @ [d]) b' w' \<and>
    w_participants w' = w_participants w \<and> writer_at (w_store w') = writer_at (w_store w) \<and>
    w_emitted w' = w_emitted w @ (if data_available_status t = 0 then [transmit_task_id t] else [])"
proof -
  obtain p rd where t: "smap_find id pid (brg_tracks b) = Some t" "track_enabled t"
    and p: "pdb_get_participant pid (w_participants w) = Some (P_base p)"
      "smap_find dds_topic_key (brg_topic b) (pt_readers p) = Some (track_reader t)"
    and rd: "reader_at (w_store w) (track_reader t) = Some (RO_dummy rd)" "br_enabled rd"
      "br_on_data_available rd = Some (CB_track (dds_topic_key (brg_topic b)) pid)" "data_to_send rd = qs"
    using assms by (auto simp: waiting_def)
  let ?rd = "rd\<lparr>data_to_send := qs @ [d]\<rparr>"
  let ?t = "t\<lparr>data_available_status := data_available_status t + 2\<rparr>"
  let ?st = "(w_store w)\<lparr>reader_at := (reader_at (w_store w))(track_reader t \<mapsto> RO_dummy ?rd)\<rparr>"
  let ?es = "if data_available_status t = 0 then [transmit_task_id t] else []"
  have "simulate_data_reception p (brg_topic b) d (w_store w) =
      Inr ([CB_track (dds_topic_key (brg_topic b)) pid], ?st)"
    using p rd by (simp add: simulate_data_reception_def dummy_simulate_data_reception_def on_data_available_def)
  moreover have "data_available t = (?es, ?t)"
    using t(2) by (simp add: data_available_def no_more_data_def new_data_arrived_def)
  ultimately have "receive_data pid d (b, w) =
      Inr (b\<lparr>brg_tracks := smap_set id pid ?t (brg_tracks b)\<rparr>, w\<lparr>w_store := ?st, w_emitted := w_emitted w @ ?es\<rparr>)"
    using p(1) t(1) by (simp add: receive_data_def notify_track_def Let_def)
  then show ?thesis using t p rd by (auto simp: waiting_def)
qed

lemma receive_many:
  assumes "waiting pid t qs b w" and "unat (data_available_status t) + 2 * length ds < 2 ^ 32"
  shows "\<exists>b' w' t'. rfold (receive_data pid) ds (b, w) = Inr (b', w') \<and>
    t' = t\<lparr>data_available_status := data_available_status t'\<rparr> \<and> waiting pid t' (qs @ ds) b' w' \<and>
    w_participants w' = w_participants w \<and> writer_at (w_store w') = writer_at (w_store w) \<and>
    w_emitted w' = w_emitted w @ (if ds \<noteq> [] \<and> data_available_status t = 0 then [transmit_task_id t] else [])"
  using assms
proof (induction ds arbitrary: t qs b w)
  case Nil
  then show ?case by (intro exI [of _ b] exI [of _ w] exI [of _ t]) simp
next
  case (Cons d ds)
  let ?t = "t\<lparr>data_available_status := data_available_status t + 2\<rparr>"
  obtain b1 w1 where 1: "receive_data pid d (b, w) = Inr (b1, w1)" "waiting pid ?t (qs @ [d]) b1 w1"
    "w_participants w1 = w_participants w" "writer_at (w_store w1) = writer_at (w_store w)"
    "w_emitted w1 = w_emitted w @ (if data_available_status t = 0 then [transmit_task_id t] else [])"
    using receive_one [OF Cons.prems(1)] by blast
  have u: "unat (data_available_status t + 2) = unat (data_available_status t) + 2"
    using Cons.prems(2) by (simp add: unat_word_ariths)
  then have nz: "data_available_status t + 2 \<noteq> 0" by (metis add_2_eq_Suc' nat.distinct(1) unat_0)
  have "unat (data_available_status ?t) + 2 * length ds < 2 ^ 32" using u Cons.prems(2) by simp
  from Cons.IH [OF 1(2) this] obtain b' w' t' where
    "rfold (receive_data pid) ds (b1, w1) = Inr (b', w')" "t' = ?t\<lparr>data_available_status := data_available_status t'\<rparr>"
    "waiting pid t' ((qs @ [d]) @ ds) b' w'" "w_participants w' = w_participants w1"
    "writer_at (w_store w') = writer_at (w_store w1)" "w_emitted w' = w_emitted w1"
    using nz by auto
  with 1 show ?case by (intro exI [of _ b'] exI [of _ w'] exI [of _ t']) simp
qed

section \<open>Transmission\<close>

lemma forward_all_frame:
  "forward_all E ws data st p = Inr (data', st', p') \<Longrightarrow> r \<notin> snd ` set ws \<Longrightarrow> writer_at st' r = writer_at st r"
  by (induction E ws data st p rule: forward_all.induct)
    (auto simp: rbind_eq_Inr_iff split: option.splits)

text \<open>A transmission touches no writer but those of its track.\<close>

lemma transmit_frame:
  assumes "transmit fuel E t st p = Some (Inr (t', st', p'))" and "r \<notin> snd ` set (track_writers t)"
  shows "writer_at st' r = writer_at st r"
  using assms
proof (induction fuel arbitrary: t st p)
  case 0
  then show ?case by (simp add: transmit.simps split: if_splits)
next
  case (Suc n)
  show ?case
  proof (cases "should_transmit t")
    case True
    let ?t1 = "t\<lparr>data_available_status := transmitting_data\<rparr>"
    obtain rd where rd: "reader_at st (track_reader t) = Some rd"
      using Suc.prems(1) True by (cases "reader_at st (track_reader t)") (auto simp: transmit.simps)
    obtain ret data rd' p1 where take: "ireader_take E data_received_default (rd, p) = (ret, data, rd', p1)"
      by (metis surj_pair)
    let ?st1 = "st\<lparr>reader_at := (reader_at st)(track_reader t \<mapsto> rd')\<rparr>"
    note run = Suc.prems(1) [unfolded transmit.simps [of "Suc n"]]
    show ?thesis
    proof (cases "ret = RETCODE_NO_DATA")
      case True
      with run \<open>should_transmit t\<close> rd take Suc.IH [of "?t1\<lparr>data_available_status := 0\<rparr>" ?st1 p1] Suc.prems(2)
      show ?thesis by (auto simp: Let_def transmitting_data_def)
    next
      case data: False
      show ?thesis
      proof (cases "ret_ok ret")
        case False
        with data run \<open>should_transmit t\<close> rd take Suc.IH [of ?t1 ?st1 p1] Suc.prems(2)
        show ?thesis by (auto simp: Let_def)
      next
        case True
        then obtain data' st2 p2 where f: "forward_all E (track_writers t) data ?st1 p1 = Inr (data', st2, p2)"
          using data run \<open>should_transmit t\<close> rd take by (auto simp: Let_def split: sum.splits)
        have same: "writer_at st2 r = writer_at st r" using forward_all_frame [OF f Suc.prems(2)] by simp
        obtain p3 where "transmit n E ?t1 st2 p3 = Some (Inr (t', st', p'))"
          using True data run \<open>should_transmit t\<close> rd take f by (auto simp: Let_def split: sum.splits if_splits)
        with Suc.IH [of ?t1 st2 p3] Suc.prems(2) same show ?thesis by simp
      qed
    qed
  qed (use Suc.prems in \<open>simp add: transmit.simps\<close>)
qed

lemma dummy_bridge_waiting:
  assumes "dummy_bridge topic b w" and "pdb_get_participant pid (w_participants w) = Some p"
  shows "\<exists>t. waiting pid t [] b w \<and> should_transmit t \<and> data_available_status t = 0 \<and>
    track_writers t = (if participant_is_repeater p then brg_writers b else smap_erase id pid (brg_writers b)) \<and>
    (\<forall>x\<in>set (track_writers t). dummy_view (w_store w) (snd x) = Some [])"
proof -
  note d = assms(1) [unfolded dummy_bridge_def]
  obtain t where t: "smap_find id pid (brg_tracks b) = Some t" using d assms(2) by blast
  have own: "should_transmit t" "data_available_status t = 0" "reader_on (w_store w) (track_reader t)"
    "\<forall>x\<in>set (track_writers t). writer_on (w_store w) (snd x)"
    "track_writers t = (if participant_is_repeater p then brg_writers b else smap_erase id pid (brg_writers b))"
    using d t assms(2) by blast+
  have rd: "smap_find id pid (brg_readers b) = Some (track_reader t)"
    and cb: "callback_at (w_store w) (track_reader t) = Some (CB_track (dds_topic_key topic) pid)"
    using d t unfolding tracks_listen_def by blast+
  have q: "queue_at (w_store w) (track_reader t) = Some []" and rf: "reader_for topic p = Some (track_reader t)"
    using d rd assms(2) unfolding endpoints_dummy_def by fastforce+
  have "is_dummy p" using d assms(2) unfolding endpoints_dummy_def by blast
  then obtain bp where p: "p = P_base bp" by (cases p) auto
  obtain r where r: "reader_at (w_store w) (track_reader t) = Some (RO_dummy r)" "data_to_send r = []"
    using q by (auto simp: queue_at_def split: option.splits reader_object.splits)
  have "waiting pid t [] b w"
    using t own(1,3) rf cb r assms(2) d p
    by (simp add: waiting_def should_transmit_def reader_on_def callback_at_def)
  moreover have "dummy_view (w_store w) (snd x) = Some []" if "x \<in> set (track_writers t)" for x
  proof -
    have "x \<in> set (brg_writers b)"
      using that own(5) set_smap_erase [of id pid "brg_writers b"] by (auto split: if_splits)
    then have "smap_find id (fst x) (brg_writers b) = Some (snd x)"
      using d smap_find_in_ok [of id "brg_writers b" "fst x" "snd x"] by simp
    then have "stored_at (w_store w) (snd x) = Some []" using d unfolding endpoints_dummy_def by blast
    moreover have "writer_on (w_store w) (snd x)" using own(4) that by blast
    ultimately show ?thesis
      by (auto simp: stored_at_def writer_on_def dummy_view_def split: option.splits writer_object.splits)
  qed
  ultimately show ?thesis using own by blast
qed

text \<open>Which writers a track of the bridge writes to.\<close>

lemma track_target_iff:
  assumes "smap_find id q ws = Some r" and "smap_ok id ws" and "distinct (map snd ws)"
  shows "r \<in> snd ` set (if rep then ws else smap_erase id pid ws) \<longleftrightarrow> \<not> (q = pid \<and> \<not> rep)"
proof -
  have in_ws: "(q, r) \<in> set ws" using smap_find_SomeD [OF assms(1)] by auto
  have uniq: "a = q" if "(a, r) \<in> set ws" for a
    using distinct_refs [OF assms(3), of a r q] that assms(1,2) smap_find_in_ok [of id ws a r] by simp
  show ?thesis
  proof (cases rep)
    case True
    with in_ws show ?thesis by force
  next
    case False
    have "(q, r) \<in> set (smap_erase id pid ws)" if h: "r \<in> snd ` set (smap_erase id pid ws)"
    proof -
      obtain e where "e \<in> set (smap_erase id pid ws)" and "r = snd e" using h by (rule imageE)
      then have a: "(fst e, r) \<in> set (smap_erase id pid ws)" by simp
      then have "(fst e, r) \<in> set ws" using set_smap_erase [of id pid ws] by blast
      with a show ?thesis using uniq [of "fst e"] by simp
    qed
    then have "r \<in> snd ` set (smap_erase id pid ws) \<longleftrightarrow> (q, r) \<in> set (smap_erase id pid ws)"
      using image_eqI [of r snd "(q, r)" "set (smap_erase id pid ws)"] by fastforce
    also have "\<dots> \<longleftrightarrow> q \<noteq> pid" using in_ws by (auto simp: smap_erase_def)
    finally show ?thesis using False by simp
  qed
qed

lemma forwarded_is_reported:
  assumes db: "dummy_bridge topic b w1" and q: "pdb_get_participant q (w_participants w1) = Some (P_base bq)"
    and tw: "track_writers t = (if rep then brg_writers b else smap_erase id pid (brg_writers b))"
    and out: "\<And>x. x \<in> snd ` set (track_writers t) \<Longrightarrow> dummy_view st' x = Some l"
    and keep: "\<And>x. x \<notin> snd ` set (track_writers t) \<Longrightarrow> writer_at st' x = writer_at (w_store w1) x"
  shows "\<exists>ss. get_data_that_should_have_been_sent bq topic st' = Inr ss \<and>
    map sample_view ss = (if q = pid \<and> \<not> rep then [] else l)"
proof -
  obtain x where x: "smap_find id q (brg_writers b) = Some x"
    using db q unfolding dummy_bridge_def by blast
  have st: "stored_at (w_store w1) x = Some []" and wf: "smap_find dds_topic_key topic (pt_writers bq) = Some x"
    using db x q unfolding dummy_bridge_def endpoints_dummy_def by fastforce+
  have ws: "smap_ok id (brg_writers b)" "distinct (map snd (brg_writers b))" using db by (auto simp: dummy_bridge_def)
  have target: "x \<in> snd ` set (track_writers t) \<longleftrightarrow> \<not> (q = pid \<and> \<not> rep)"
    unfolding tw by (rule track_target_iff [OF x ws])
  show ?thesis
  proof (cases "x \<in> snd ` set (track_writers t)")
    case True
    from dummy_viewD [OF out [OF True]] obtain wr where
      "writer_at st' x = Some (WO_dummy wr)" "l = map sample_view (data_stored wr)" by blast
    with True target wf show ?thesis by (auto simp: get_data_that_should_have_been_sent_def)
  next
    case False
    with keep [OF False] st wf target show ?thesis
      by (auto simp: get_data_that_should_have_been_sent_def stored_at_def split: option.splits writer_object.splits)
  qed
qed

section \<open>Properties\<close>

text \<open>
  C5. A sample crosses the router, from end to end. Between dummy participants, for a topic whose bridge was
  created enabled, whatever the reader of one participant receives makes its track emit one transmission;
  that transmission ends, and then every other participant, and the receiving one exactly if it is a
  repeater, reports the received samples as sent on the topic, in order and byte for byte with their sources,
  and nothing else. The payload pool is as clean as before.
\<close>

theorem dummy_data_is_forwarded:
  assumes "smap_ok id (w_participants w)"
    and dummies: "\<forall>q p. pdb_get_participant q (w_participants w) = Some p \<longrightarrow> is_dummy p"
    and new: "dds_bridge_new E topic True w = (Inr b, w1)"
    and pid: "pdb_get_participant pid (w_participants w1) = Some (P_base p)"
    and "2 * length ds < 2 ^ 32" and "\<forall>d\<in>set ds. length (ddr_payload d) < 2 ^ 32"
    and "malloc_fresh (env_malloc E) (fast_heap pool)" and "fast_ok pool"
    and "unat (reserve_count pool) + length ds < 2 ^ 64"
  shows "\<exists>b2 w2 t st' pool'.
    rfold (receive_data pid) ds (b, w1) = Inr (b2, w2) \<and> smap_find id pid (brg_tracks b2) = Some t \<and>
    w_emitted w2 = w_emitted w1 @ (if ds = [] then [] else [transmit_task_id t]) \<and>
    transmit (Suc (length ds)) E t (w_store w2) pool = Some (Inr (t\<lparr>data_available_status := no_more_data\<rparr>, st', pool')) \<and>
    pool_is_clean pool' = pool_is_clean pool \<and>
    (\<forall>q bq. pdb_get_participant q (w_participants w1) = Some (P_base bq) \<longrightarrow>
       (\<exists>l. get_data_that_should_have_been_sent bq topic st' = Inr l \<and>
          map sample_view l = (if q = pid \<and> \<not> pt_is_repeater p then [] else map reader_sample ds)))"
proof -
  have db: "dummy_bridge topic b w1" by (rule dummy_bridge_new [OF assms(1) _ new]) (use dummies in blast)
  obtain t0 where t0: "waiting pid t0 [] b w1" "should_transmit t0" "data_available_status t0 = 0"
    and tw: "track_writers t0 = (if pt_is_repeater p then brg_writers b else smap_erase id pid (brg_writers b))"
    and views: "\<forall>x\<in>set (track_writers t0). dummy_view (w_store w1) (snd x) = Some []"
    using dummy_bridge_waiting [OF db pid] by auto
  obtain b2 w2 t where r: "rfold (receive_data pid) ds (b, w1) = Inr (b2, w2)"
    "t = t0\<lparr>data_available_status := data_available_status t\<rparr>" "waiting pid t ds b2 w2"
    "writer_at (w_store w2) = writer_at (w_store w1)"
    "w_emitted w2 = w_emitted w1 @ (if ds = [] then [] else [transmit_task_id t0])"
    using receive_many [OF t0(1), of ds] t0(3) assms(5) by auto
  have same: "track_writers t = track_writers t0" "transmit_task_id t = transmit_task_id t0" "should_transmit t"
    "track_reader t = track_reader t0"
    by (subst r(2), use t0(2) in \<open>simp add: should_transmit_def\<close>)+
  have rd: "dummy_reader_at (w_store w2) (track_reader t) ds" "smap_find id pid (brg_tracks b2) = Some t"
    using r(3) by (auto simp: waiting_def dummy_reader_at_def)
  have view: "dummy_view (w_store w2) x = dummy_view (w_store w1) x" for x
    using r(4) by (simp add: dummy_view_def)
  have ws: "distinct (map snd (brg_writers b))" "smap_ok id (brg_writers b)"
    using db by (auto simp: dummy_bridge_def)
  have dist: "distinct (map snd (track_writers t))"
    using ws(1) same(1) tw by (auto simp: smap_erase_def distinct_map_filter)
  have "\<forall>x\<in>snd ` set (track_writers t). dummy_view (w_store w2) x \<noteq> None" using views view same(1) by auto
  from transmit_dummy [OF same(3) rd(1) dist this assms(6-9), of "Suc (length ds)"] obtain st' k where
    tr: "transmit (Suc (length ds)) E t (w_store w2) pool = Some (Inr (t\<lparr>data_available_status := 0\<rparr>, st', pool_used k pool))"
    and out: "\<And>x. x \<in> snd ` set (track_writers t) \<Longrightarrow>
      dummy_view st' x = map_option (\<lambda>l. l @ map reader_sample ds) (dummy_view (w_store w2) x)"
    by auto
  have sent: "\<exists>l. get_data_that_should_have_been_sent bq topic st' = Inr l \<and>
      map sample_view l = (if q = pid \<and> \<not> pt_is_repeater p then [] else map reader_sample ds)"
    if q: "pdb_get_participant q (w_participants w1) = Some (P_base bq)" for q bq
  proof (rule forwarded_is_reported [OF db q tw [folded same(1)]])
    show "dummy_view st' x = Some (map reader_sample ds)" if "x \<in> snd ` set (track_writers t)" for x
      using out [OF that] that views view same(1) by auto
    show "writer_at st' x = writer_at (w_store w1) x" if "x \<notin> snd ` set (track_writers t)" for x
      using transmit_frame [OF tr that] r(4) by simp
  qed
  show ?thesis
    using r(1,5) rd(2) same(2) tr sent
    by (intro exI [of _ b2] exI [of _ w2] exI [of _ t] exI [of _ st'] exI [of _ "pool_used k pool"])
      (simp add: no_more_data_def)
qed

lemma sample_bridge_enabled:
  "\<exists>b w' p. dds_bridge_new sample_env sample_bridge_topic True sample_world = (Inr b, w') \<and>
     pdb_get_participant (PId ''a'') (w_participants w') = Some (P_base p) \<and> \<not> pt_is_repeater p"
proof -
  have "case dds_bridge_new sample_env sample_bridge_topic True sample_world of
      (Inr b, w') \<Rightarrow> (case pdb_get_participant (PId ''a'') (w_participants w') of
         Some (P_base p) \<Rightarrow> \<not> pt_is_repeater p | _ \<Rightarrow> False) | _ \<Rightarrow> False"
    by code_simp
  then show ?thesis by (auto split: prod.splits sum.splits option.splits participant.splits)
qed

theorem dummy_data_is_forwarded_witness:
  "\<exists>b w1 p b2 w2 t st' pool'. dds_bridge_new sample_env sample_bridge_topic True sample_world = (Inr b, w1) \<and>
     pdb_get_participant (PId ''a'') (w_participants w1) = Some (P_base p) \<and>
     rfold (receive_data (PId ''a'')) [sample_data] (b, w1) = Inr (b2, w2) \<and>
     transmit 2 sample_env t (w_store w2) fast_pool_new = Some (Inr (t\<lparr>data_available_status := no_more_data\<rparr>, st', pool')) \<and>
     get_data_that_should_have_been_sent p sample_bridge_topic st' = Inr [] \<and> pool_is_clean pool'"
proof -
  obtain b w1 p where b: "dds_bridge_new sample_env sample_bridge_topic True sample_world = (Inr b, w1)"
    and p: "pdb_get_participant (PId ''a'') (w_participants w1) = Some (P_base p)" "\<not> pt_is_repeater p"
    using sample_bridge_enabled by blast
  have d: "\<forall>i q. pdb_get_participant i (w_participants sample_world) = Some q \<longrightarrow> is_dummy q"
    by (auto simp: sample_world_def pdb_get_participant_def sample_participant_def split: if_splits)
  have m: "malloc_fresh (env_malloc sample_env) (fast_heap fast_pool_new)" "fast_ok fast_pool_new"
    "unat (reserve_count fast_pool_new) + length [sample_data] < 2 ^ 64" "pool_is_clean fast_pool_new"
    "\<forall>d\<in>set [sample_data]. length (ddr_payload d) < 2 ^ 32" "2 * length [sample_data] < 2 ^ 32"
    by (simp_all add: malloc_fresh_def sample_env_def fast_pool_new_def fast_ok_def pool_is_clean_def sample_data_def)
  from dummy_data_is_forwarded [OF sample_world_ok d b p(1) m(6,5,1,2,3)] obtain b2 w2 t st' pool' where
    r: "rfold (receive_data (PId ''a'')) [sample_data] (b, w1) = Inr (b2, w2)"
    and tr: "transmit (Suc (length [sample_data])) sample_env t (w_store w2) fast_pool_new =
       Some (Inr (t\<lparr>data_available_status := no_more_data\<rparr>, st', pool'))"
    and clean: "pool_is_clean pool' = pool_is_clean fast_pool_new"
    and sent: "\<forall>q bq. pdb_get_participant q (w_participants w1) = Some (P_base bq) \<longrightarrow>
       (\<exists>l. get_data_that_should_have_been_sent bq sample_bridge_topic st' = Inr l \<and>
          map sample_view l = (if q = PId ''a'' \<and> \<not> pt_is_repeater p then [] else map reader_sample [sample_data]))"
    by blast
  have l: "get_data_that_should_have_been_sent p sample_bridge_topic st' = Inr []"
    using sent [rule_format, OF p(1)] p(2) by auto
  have two: "Suc (length [sample_data]) = 2" by simp
  show ?thesis using b p(1) r tr [unfolded two] l clean m(4) by blast
qed

end
