(* ===== verification/Rtps_Entities.thy ===== *)
theory Rtps_Entities
  imports Participants Transition
begin

text \<open>
  The RTPS entities behind readers, writers and participants
  (\<^verbatim>\<open>CommonWriter\<close>, \<^verbatim>\<open>CommonReader\<close>, \<^verbatim>\<open>MultiWriter\<close>, \<^verbatim>\<open>CommonParticipant\<close>): which calls the objects make to Fast DDS while
  they are created and destroyed, on every path, and whether these calls respect the life times of the
  entities. The objects hold raw pointers; what Fast DDS answers is an argument.
\<close>

section \<open>Calls and their contract\<close>

datatype domain_call =
    New_history nat
  | Delete_history nat
  | Create_participant "nat option"
  | Remove_participant nat
  | Create_endpoint nat "nat option" nat bool
  | Register_endpoint nat nat
  | Use_endpoint nat
  | Remove_endpoint nat

text \<open>
  What is alive: histories, participants, and endpoints with their participant and their history. The
  documentation of Fast DDS has a removal delete the entity, and the removal of a participant all its
  endpoints; an entity can only be used while it lives, an endpoint uses its history until it is removed.
\<close>

type_synonym live_endpoint = "nat \<times> nat \<times> nat"

record live_entities =
  live_histories :: "nat set"
  live_participants :: "nat set"
  live_endpoints :: "live_endpoint set"

definition endpoint_live :: "nat \<Rightarrow> live_entities \<Rightarrow> bool" where
  "endpoint_live e l \<longleftrightarrow> (\<exists>x\<in>live_endpoints l. fst x = e)"

fun call_effect :: "domain_call \<Rightarrow> live_entities \<Rightarrow> live_entities option" where
  "call_effect (New_history h) l =
     (if h \<in> live_histories l then None else Some (l\<lparr>live_histories := insert h (live_histories l)\<rparr>))"
| "call_effect (Delete_history h) l =
     (if h \<in> live_histories l \<and> (\<forall>x\<in>live_endpoints l. snd (snd x) \<noteq> h)
      then Some (l\<lparr>live_histories := live_histories l - {h}\<rparr>) else None)"
| "call_effect (Create_participant None) l = Some l"
| "call_effect (Create_participant (Some p)) l =
     (if p \<in> live_participants l then None
      else Some (l\<lparr>live_participants := insert p (live_participants l)\<rparr>))"
| "call_effect (Remove_participant p) l =
     (if p \<in> live_participants l
      then Some (l\<lparr>live_participants := live_participants l - {p},
                   live_endpoints := {x\<in>live_endpoints l. fst (snd x) \<noteq> p}\<rparr>)
      else None)"
| "call_effect (Create_endpoint p r h own_pool) l =
     (if p \<in> live_participants l \<and> h \<in> live_histories l then
        (case r of
           None \<Rightarrow> Some l
         | Some e \<Rightarrow>
             if endpoint_live e l then None
             else Some (l\<lparr>live_endpoints := insert (e, p, h) (live_endpoints l)\<rparr>))
      else None)"
| "call_effect (Register_endpoint p e) l =
     (if p \<in> live_participants l \<and> endpoint_live e l then Some l else None)"
| "call_effect (Use_endpoint e) l = (if endpoint_live e l then Some l else None)"
| "call_effect (Remove_endpoint e) l =
     (if \<exists>x\<in>live_endpoints l. fst x = e \<and> snd (snd x) \<in> live_histories l
      then Some (l\<lparr>live_endpoints := {x\<in>live_endpoints l. fst x \<noteq> e}\<rparr>) else None)"

text \<open>A sequence of calls; \<open>None\<close> when one of them uses an entity that does not live.\<close>

fun run_calls :: "domain_call list \<Rightarrow> live_entities \<Rightarrow> live_entities option" where
  "run_calls [] l = Some l"
| "run_calls (c # cs) l = (case call_effect c l of None \<Rightarrow> None | Some l' \<Rightarrow> run_calls cs l')"

lemma run_calls_append:
  "run_calls (cs @ ds) l = (case run_calls cs l of None \<Rightarrow> None | Some l' \<Rightarrow> run_calls ds l')"
  by (induction cs arbitrary: l) (auto split: option.split)

section \<open>The objects\<close>

text \<open>A member that no initializer sets has no determined value; reading it is an error.\<close>

datatype pointer = Indeterminate | Null | Ptr nat

definition pointer_set :: "pointer \<Rightarrow> nat option result" where
  "pointer_set p =
     (case p of Indeterminate \<Rightarrow> Inl InvalidMemoryAccess | Null \<Rightarrow> Inr None | Ptr a \<Rightarrow> Inr (Some a))"

definition to_pointer :: "nat option \<Rightarrow> pointer" where
  "to_pointer r = (case r of None \<Rightarrow> Null | Some a \<Rightarrow> Ptr a)"

datatype data_filter = RepeaterDataFilter | SelfDataFilter

record writer_entities =
  rtps_writer :: pointer
  writer_history :: pointer
  data_filter :: "data_filter option"

record reader_entities =
  rtps_reader :: pointer
  reader_history :: pointer

text \<open>The address of the history, the endpoint Fast DDS returns, and whether it registers it.\<close>

record creation_answers =
  history_at :: nat
  created_at :: "nat option"
  registered :: bool

definition common_writer_entities_new :: writer_entities where
  "common_writer_entities_new =
     \<lparr>rtps_writer = Indeterminate, writer_history = Indeterminate, data_filter = None\<rparr>"

definition common_reader_entities_new :: reader_entities where
  "common_reader_entities_new = \<lparr>rtps_reader = Indeterminate, reader_history = Indeterminate\<rparr>"

text \<open>
  \<^verbatim>\<open>internal_entities_creation_\<close>, called by \<^verbatim>\<open>init\<close>: the exception, the calls made until then and the object.
\<close>

definition writer_internal_entities_creation ::
    "nat \<Rightarrow> bool \<Rightarrow> creation_answers \<Rightarrow> writer_entities \<Rightarrow> exn option \<times> domain_call list \<times> writer_entities" where
  "writer_internal_entities_creation part repeater a w =
     (let w1 = w\<lparr>writer_history := Ptr (history_at a)\<rparr>;
          w2 = w1\<lparr>rtps_writer := to_pointer (created_at a)\<rparr>;
          cs = [New_history (history_at a), Create_endpoint part (created_at a) (history_at a) repeater]
      in case created_at a of
           None \<Rightarrow> (Some InitializationException, cs, w2)
         | Some e \<Rightarrow>
             if \<not> registered a then
               (Some InitializationException, cs @ [Register_endpoint part e, Remove_endpoint e], w2)
             else (None, cs @ [Register_endpoint part e, Use_endpoint e],
                   w2\<lparr>data_filter := Some (if repeater then RepeaterDataFilter else SelfDataFilter)\<rparr>))"

definition reader_internal_entities_creation ::
    "nat \<Rightarrow> creation_answers \<Rightarrow> reader_entities \<Rightarrow> exn option \<times> domain_call list \<times> reader_entities" where
  "reader_internal_entities_creation part a r =
     (let r1 = r\<lparr>reader_history := Ptr (history_at a)\<rparr>;
          r2 = r1\<lparr>rtps_reader := to_pointer (created_at a)\<rparr>;
          cs = [New_history (history_at a), Create_endpoint part (created_at a) (history_at a) False]
      in case created_at a of
           None \<Rightarrow> (Some InitializationException, cs, r2)
         | Some e \<Rightarrow>
             if \<not> registered a then
               (Some InitializationException, cs @ [Use_endpoint e, Register_endpoint part e, Remove_endpoint e], r2)
             else (None, cs @ [Use_endpoint e, Register_endpoint part e], r2))"

definition common_writer_init ::
    "nat \<Rightarrow> bool \<Rightarrow> creation_answers \<Rightarrow> writer_entities \<Rightarrow> exn option \<times> domain_call list \<times> writer_entities" where
  "common_writer_init part repeater a w = writer_internal_entities_creation part repeater a w"

definition common_reader_init ::
    "nat \<Rightarrow> creation_answers \<Rightarrow> reader_entities \<Rightarrow> exn option \<times> domain_call list \<times> reader_entities" where
  "common_reader_init part a r = reader_internal_entities_creation part a r"

text \<open>The destructors.\<close>

definition endpoint_destroy :: "pointer \<Rightarrow> pointer \<Rightarrow> domain_call list result" where
  "endpoint_destroy endpoint history =
     rbind (pointer_set endpoint) (\<lambda>e. rbind (pointer_set history) (\<lambda>h.
       Inr ((case e of None \<Rightarrow> [] | Some a \<Rightarrow> [Use_endpoint a, Remove_endpoint a]) @
            (case h of None \<Rightarrow> [] | Some a \<Rightarrow> [Delete_history a]))))"

definition common_writer_destroy :: "writer_entities \<Rightarrow> domain_call list result" where
  "common_writer_destroy w = endpoint_destroy (rtps_writer w) (writer_history w)"

definition common_reader_destroy :: "reader_entities \<Rightarrow> domain_call list result" where
  "common_reader_destroy r = endpoint_destroy (rtps_reader r) (reader_history r)"

definition multi_writer_destroy :: "writer_entities list \<Rightarrow> domain_call list result" where
  "multi_writer_destroy ws =
     rfold (\<lambda>w cs. rbind (common_writer_destroy w) (\<lambda>ds. Inr (cs @ ds))) ws []"

text \<open>
  \<^verbatim>\<open>create_writer_\<close> and \<^verbatim>\<open>create_reader_\<close> of an RTPS participant: the object is held by a shared pointer, so an exception
  of \<^verbatim>\<open>init\<close> destroys it.
\<close>

definition create_simple_writer ::
    "nat \<Rightarrow> bool \<Rightarrow> creation_answers \<Rightarrow> (exn option \<times> domain_call list \<times> writer_entities) result" where
  "create_simple_writer part repeater a =
     (let (err, cs, w) = common_writer_init part repeater a common_writer_entities_new
      in case err of
           None \<Rightarrow> Inr (None, cs, w)
         | Some e \<Rightarrow> rbind (common_writer_destroy w) (\<lambda>ds. Inr (Some e, cs @ ds, w)))"

definition create_common_reader ::
    "nat \<Rightarrow> creation_answers \<Rightarrow> (exn option \<times> domain_call list \<times> reader_entities) result" where
  "create_common_reader part a =
     (let (err, cs, r) = common_reader_init part a common_reader_entities_new
      in case err of
           None \<Rightarrow> Inr (None, cs, r)
         | Some e \<Rightarrow> rbind (common_reader_destroy r) (\<lambda>ds. Inr (Some e, cs @ ds, r)))"

text \<open>The participant: \<^verbatim>\<open>init\<close>, and the destructor before that of the base class.\<close>

definition rtps_create_participant :: "nat option \<Rightarrow> exn option \<times> domain_call list \<times> pointer" where
  "rtps_create_participant r =
     ((if r = None then Some InitializationException else None), [Create_participant r], to_pointer r)"

definition common_participant_init :: "nat option \<Rightarrow> exn option \<times> domain_call list \<times> pointer" where
  "common_participant_init r = rtps_create_participant r"

definition common_participant_destroy :: "pointer \<Rightarrow> domain_call list result" where
  "common_participant_destroy p =
     rbind (pointer_set p) (\<lambda>r. Inr (case r of None \<Rightarrow> [] | Some a \<Rightarrow> [Remove_participant a]))"

lemma participant_init_destroy:
  assumes "\<And>p. r = Some p \<Longrightarrow> p \<notin> live_participants l \<and> (\<forall>x\<in>live_endpoints l. fst (snd x) \<noteq> p)"
  shows "\<exists>ds. common_participant_destroy (snd (snd (common_participant_init r))) = Inr ds \<and>
    run_calls (fst (snd (common_participant_init r)) @ ds) l = Some l"
proof (cases r)
  case (Some p)
  then have "{x \<in> live_endpoints l. fst (snd x) \<noteq> p} = live_endpoints l" using assms by auto
  with Some assms show ?thesis
    by (simp add: common_participant_init_def rtps_create_participant_def common_participant_destroy_def
        pointer_set_def to_pointer_def rbind_def)
qed (simp add: common_participant_init_def rtps_create_participant_def common_participant_destroy_def
    pointer_set_def to_pointer_def rbind_def)

section \<open>The life of a participant\<close>

datatype endpoint_object =
    EO_writer writer_entities
  | EO_reader reader_entities
  | EO_multi bool "writer_entities list"

fun object_destroy :: "endpoint_object \<Rightarrow> domain_call list result" where
  "object_destroy (EO_writer w) = common_writer_destroy w"
| "object_destroy (EO_reader r) = common_reader_destroy r"
| "object_destroy (EO_multi repeater ws) = multi_writer_destroy ws"

text \<open>The endpoints a participant holds are destroyed one after the other when its maps are cleared.\<close>

definition clear_endpoints :: "endpoint_object list \<Rightarrow> domain_call list result" where
  "clear_endpoints held = rfold (\<lambda>x cs. rbind (object_destroy x) (\<lambda>ds. Inr (cs @ ds))) held []"

text \<open>
  What happens to the endpoints of a participant: writers and readers are created, a multi-writer gets an inner
  writer at the first write with a new quality of service, and objects are deleted. The inner writer is created in
  a function that must not throw, so a failure there ends the process.
\<close>

datatype endpoint_event =
    New_writer bool creation_answers
  | New_reader creation_answers
  | New_multi_writer bool
  | First_write nat creation_answers
  | Drop_object nat

fun participant_event ::
    "nat \<Rightarrow> endpoint_event \<Rightarrow> endpoint_object list \<Rightarrow> (domain_call list \<times> endpoint_object list) result" where
  "participant_event part (New_writer repeater a) held =
     rbind (create_simple_writer part repeater a) (\<lambda>(err, cs, w).
       Inr (cs, if err = None then held @ [EO_writer w] else held))"
| "participant_event part (New_reader a) held =
     rbind (create_common_reader part a) (\<lambda>(err, cs, r).
       Inr (cs, if err = None then held @ [EO_reader r] else held))"
| "participant_event part (New_multi_writer repeater) held = Inr ([], held @ [EO_multi repeater []])"
| "participant_event part (First_write k a) held =
     (if k < length held then
        (case held ! k of
           EO_multi repeater ws \<Rightarrow>
             (let (err, cs, w) = common_writer_init part repeater a common_writer_entities_new
              in case err of
                   None \<Rightarrow> Inr (cs, held[k := EO_multi repeater (ws @ [w])])
                 | Some e \<Rightarrow> Inl e)
         | _ \<Rightarrow> Inr ([], held))
      else Inr ([], held))"
| "participant_event part (Drop_object k) held =
     (if k < length held then
        rbind (object_destroy (held ! k)) (\<lambda>cs. Inr (cs, take k held @ drop (Suc k) held))
      else Inr ([], held))"

fun event_answers :: "endpoint_event \<Rightarrow> creation_answers option" where
  "event_answers (New_writer repeater a) = Some a"
| "event_answers (New_reader a) = Some a"
| "event_answers (First_write k a) = Some a"
| "event_answers ev = None"

text \<open>New entities have addresses no living entity has, and what is created is also registered.\<close>

definition answers_fresh :: "creation_answers \<Rightarrow> live_entities \<Rightarrow> bool" where
  "answers_fresh a l \<longleftrightarrow> history_at a \<notin> live_histories l \<and>
     (case created_at a of None \<Rightarrow> True | Some e \<Rightarrow> \<not> endpoint_live e l)"

definition answers_registered :: "creation_answers \<Rightarrow> bool" where
  "answers_registered a \<longleftrightarrow> created_at a = None \<or> registered a"

type_synonym participant_life = "live_entities option \<times> endpoint_object list"

inductive life_step :: "nat \<Rightarrow> participant_life \<Rightarrow> participant_life \<Rightarrow> bool" for part :: nat where
  life_event:
    "participant_event part ev held = Inr (cs, held') \<Longrightarrow>
     (\<And>a. event_answers ev = Some a \<Longrightarrow> answers_fresh a l \<and> answers_registered a) \<Longrightarrow>
     life_step part (Some l, held) (run_calls cs l, held')"

section \<open>What an object owns\<close>

definition with_entities :: "nat \<Rightarrow> (nat \<times> nat) list \<Rightarrow> live_entities \<Rightarrow> live_entities" where
  "with_entities part ehs l =
     l\<lparr>live_histories := live_histories l \<union> snd ` set ehs,
       live_endpoints := live_endpoints l \<union> (\<lambda>eh. (fst eh, part, snd eh)) ` set ehs\<rparr>"

definition entities_apart :: "(nat \<times> nat) list \<Rightarrow> live_entities \<Rightarrow> bool" where
  "entities_apart ehs l \<longleftrightarrow> distinct (map fst ehs) \<and> distinct (map snd ehs) \<and>
     (\<forall>eh\<in>set ehs. \<not> endpoint_live (fst eh) l \<and> snd eh \<notin> live_histories l)"

definition live_ok :: "live_entities \<Rightarrow> bool" where
  "live_ok l \<longleftrightarrow> (\<forall>x\<in>live_endpoints l. snd (snd x) \<in> live_histories l)"

lemma with_entities_Nil [simp]: "with_entities part [] l = l"
  by (simp add: with_entities_def)

lemma endpoint_live_with [simp]:
  "endpoint_live e (with_entities part ehs l) \<longleftrightarrow> endpoint_live e l \<or> e \<in> fst ` set ehs"
  by (force simp: endpoint_live_def with_entities_def)

lemma with_entities_simps [simp]:
  "live_histories (with_entities part ehs l) = live_histories l \<union> snd ` set ehs"
  "live_participants (with_entities part ehs l) = live_participants l"
  "live_endpoints (with_entities part ehs l) = live_endpoints l \<union> (\<lambda>eh. (fst eh, part, snd eh)) ` set ehs"
  by (simp_all add: with_entities_def)

lemma with_entities_eqI:
  "set ehs = set ehs' \<Longrightarrow> with_entities part ehs l = with_entities part ehs' l"
  by (simp add: with_entities_def)

lemma with_entities_insert:
  "l\<lparr>live_histories := insert h (live_histories l), live_endpoints := insert (e, part, h) (live_endpoints l)\<rparr> =
   with_entities part [(e, h)] l"
  by (simp add: with_entities_def)

lemma with_entities_more:
  "with_entities part [(e, h)] (with_entities part (xs @ ys) l) = with_entities part (xs @ (e, h) # ys) l"
  by (simp add: with_entities_def)

text \<open>Creating an endpoint adds it and its history.\<close>

lemma writer_created:
  assumes "answers_fresh a l" and "part \<in> live_participants l" and "created_at a = Some e" and "registered a"
  shows "\<exists>cs w. common_writer_init part repeater a common_writer_entities_new = (None, cs, w) \<and>
    (rtps_writer w, writer_history w) = (Ptr e, Ptr (history_at a)) \<and>
    run_calls cs l = Some (with_entities part [(e, history_at a)] l)"
  using assms
  by (auto simp: common_writer_init_def writer_internal_entities_creation_def common_writer_entities_new_def to_pointer_def answers_fresh_def
      endpoint_live_def with_entities_def Let_def)

lemma reader_created:
  assumes "answers_fresh a l" and "part \<in> live_participants l" and "created_at a = Some e" and "registered a"
  shows "\<exists>cs r. common_reader_init part a common_reader_entities_new = (None, cs, r) \<and>
    (rtps_reader r, reader_history r) = (Ptr e, Ptr (history_at a)) \<and>
    run_calls cs l = Some (with_entities part [(e, history_at a)] l)"
  using assms
  by (auto simp: common_reader_init_def reader_internal_entities_creation_def common_reader_entities_new_def to_pointer_def answers_fresh_def
      endpoint_live_def with_entities_def Let_def)

text \<open>
  A creation that is refused leaves nothing; one that is not registered uses the endpoint after its removal.
\<close>

lemma refused_history_deleted:
  assumes "live_ok l" and "h \<notin> live_histories l" and "part \<in> live_participants l"
  shows "run_calls [New_history h, Create_endpoint part None h pool, Delete_history h] l = Some l"
  using assms by (auto simp: live_ok_def)

lemma removed_endpoint_used:
  "call_effect (Remove_endpoint e) l = Some l' \<Longrightarrow> call_effect (Use_endpoint e) l' = None"
  by (auto simp: endpoint_live_def split: if_splits)

lemma create_writer_refused:
  assumes "created_at a = None"
  shows "create_simple_writer part repeater a =
    Inr (Some InitializationException,
      [New_history (history_at a), Create_endpoint part None (history_at a) repeater, Delete_history (history_at a)],
      common_writer_entities_new\<lparr>writer_history := Ptr (history_at a), rtps_writer := Null\<rparr>)"
  using assms
  by (simp add: create_simple_writer_def common_writer_init_def writer_internal_entities_creation_def common_writer_destroy_def endpoint_destroy_def
      pointer_set_def to_pointer_def Let_def rbind_def)

lemma create_reader_refused:
  assumes "created_at a = None"
  shows "create_common_reader part a =
    Inr (Some InitializationException,
      [New_history (history_at a), Create_endpoint part None (history_at a) False, Delete_history (history_at a)],
      common_reader_entities_new\<lparr>reader_history := Ptr (history_at a), rtps_reader := Null\<rparr>)"
  using assms
  by (simp add: create_common_reader_def common_reader_init_def reader_internal_entities_creation_def common_reader_destroy_def endpoint_destroy_def
      pointer_set_def to_pointer_def Let_def rbind_def)

text \<open>Destroying what an object owns.\<close>

definition destroy_pair :: "nat \<times> nat \<Rightarrow> domain_call list" where
  "destroy_pair eh = [Use_endpoint (fst eh), Remove_endpoint (fst eh), Delete_history (snd eh)]"

fun object_pointers :: "endpoint_object \<Rightarrow> (pointer \<times> pointer) list" where
  "object_pointers (EO_writer w) = [(rtps_writer w, writer_history w)]"
| "object_pointers (EO_reader r) = [(rtps_reader r, reader_history r)]"
| "object_pointers (EO_multi repeater ws) = map (\<lambda>w. (rtps_writer w, writer_history w)) ws"

definition owned_by :: "(pointer \<times> pointer) list \<Rightarrow> (nat \<times> nat) list \<Rightarrow> bool" where
  "owned_by ps ehs \<longleftrightarrow> ps = map (\<lambda>eh. (Ptr (fst eh), Ptr (snd eh))) ehs"

lemma owned_by_simps [simp]:
  "owned_by [] ehs \<longleftrightarrow> ehs = []"
  "owned_by [(Ptr e, Ptr h)] ehs \<longleftrightarrow> ehs = [(e, h)]"
  by (auto simp: owned_by_def)

lemma owned_by_append:
  "owned_by (ps @ qs) ehs \<longleftrightarrow> (\<exists>as bs. ehs = as @ bs \<and> owned_by ps as \<and> owned_by qs bs)"
  by (auto simp: owned_by_def append_eq_map_conv)

lemma owned_by_Cons:
  "owned_by (p # ps) ehs \<longleftrightarrow> (\<exists>e h bs. ehs = (e, h) # bs \<and> p = (Ptr e, Ptr h) \<and> owned_by ps bs)"
  by (auto simp: owned_by_def Cons_eq_map_conv)

text \<open>A loop that collects the calls of what it destroys.\<close>

lemma destroy_each_owned:
  assumes "\<And>x as. x \<in> set xs \<Longrightarrow> owned_by (ptrs x) as \<Longrightarrow> f x = Inr (concat (map destroy_pair as))"
    and "owned_by (concat (map ptrs xs)) ehs"
  shows "rfold (\<lambda>x cs. rbind (f x) (\<lambda>ds. Inr (cs @ ds))) xs cs = Inr (cs @ concat (map destroy_pair ehs))"
  using assms
proof (induction xs arbitrary: ehs cs)
  case (Cons x xs)
  obtain as bs where e: "ehs = as @ bs" "owned_by (ptrs x) as" "owned_by (concat (map ptrs xs)) bs"
    using Cons.prems(2) by (auto simp: owned_by_append)
  have "f x = Inr (concat (map destroy_pair as))" using Cons.prems(1) [of x as] e(2) by simp
  with Cons.IH [OF _ e(3), of "cs @ concat (map destroy_pair as)"] Cons.prems(1) e(1) show ?case
    by (simp add: rbind_def)
qed simp

lemma endpoint_destroy_pair: "endpoint_destroy (Ptr e) (Ptr h) = Inr (destroy_pair (e, h))"
  by (simp add: endpoint_destroy_def pointer_set_def rbind_def destroy_pair_def)

lemma object_destroy_owned:
  "owned_by (object_pointers x) ehs \<Longrightarrow> object_destroy x = Inr (concat (map destroy_pair ehs))"
proof (cases x)
  case (EO_multi rep ws)
  assume "owned_by (object_pointers x) ehs"
  then have o: "owned_by (concat (map (\<lambda>w. [(rtps_writer w, writer_history w)]) ws)) ehs"
    using EO_multi by (simp add: concat_map_singleton)
  have "common_writer_destroy w = Inr (concat (map destroy_pair as))"
    if "owned_by [(rtps_writer w, writer_history w)] as" for w as
    using that by (auto simp: owned_by_Cons common_writer_destroy_def endpoint_destroy_pair)
  from destroy_each_owned [where cs = "[]", OF this o] show ?thesis
    using EO_multi by (simp add: multi_writer_destroy_def)
qed (auto simp: owned_by_Cons common_writer_destroy_def common_reader_destroy_def endpoint_destroy_pair)

lemma clear_endpoints_owned:
  "owned_by (concat (map object_pointers held)) ehs \<Longrightarrow>
   clear_endpoints held = Inr (concat (map destroy_pair ehs))"
  using destroy_each_owned [of held object_pointers object_destroy ehs "[]"] object_destroy_owned
  by (simp add: clear_endpoints_def)

lemma run_destroy_pair:
  assumes "entities_apart (xs @ (e, h) # ys) l" and "live_ok l"
  shows "run_calls (destroy_pair (e, h)) (with_entities part (xs @ (e, h) # ys) l) =
    Some (with_entities part (xs @ ys) l)"
proof -
  let ?l = "with_entities part (xs @ (e, h) # ys) l" and ?rest = "with_entities part (xs @ ys) l"
  have e: "e \<notin> fst ` set (xs @ ys)" "\<not> endpoint_live e l" and h: "h \<notin> snd ` set (xs @ ys)" "h \<notin> live_histories l"
    using assms(1) by (auto simp: entities_apart_def)
  have "(e, part, h) \<in> live_endpoints ?l" "h \<in> live_histories ?l" by auto
  then have r: "call_effect (Remove_endpoint e) ?l = Some (?l\<lparr>live_endpoints := {x \<in> live_endpoints ?l. fst x \<noteq> e}\<rparr>)"
    by force
  have "{x \<in> live_endpoints ?l. fst x \<noteq> e} = live_endpoints ?rest"
    using e by (force simp: endpoint_live_def)
  with r have r: "call_effect (Remove_endpoint e) ?l = Some (?l\<lparr>live_endpoints := live_endpoints ?rest\<rparr>)" by simp
  have "\<forall>x\<in>live_endpoints ?rest. snd (snd x) \<noteq> h" using h assms(2) by (force simp: live_ok_def)
  moreover have "live_histories ?l - {h} = live_histories ?rest" using h by auto
  ultimately have d: "call_effect (Delete_history h) (?l\<lparr>live_endpoints := live_endpoints ?rest\<rparr>) =
      Some (?l\<lparr>live_endpoints := live_endpoints ?rest, live_histories := live_histories ?rest\<rparr>)"
    by simp
  have "?l\<lparr>live_endpoints := live_endpoints ?rest, live_histories := live_histories ?rest\<rparr> = ?rest"
    by (simp add: with_entities_def)
  moreover have "call_effect (Use_endpoint e) ?l = Some ?l" by simp
  ultimately show ?thesis using r d by (simp add: destroy_pair_def del: call_effect.simps)
qed

lemma entities_apart_drop: "entities_apart (xs @ zs @ ys) l \<Longrightarrow> entities_apart (xs @ ys) l"
  by (auto simp: entities_apart_def)

lemma run_destroy_pairs:
  assumes "entities_apart (xs @ zs @ ys) l" and "live_ok l"
  shows "run_calls (concat (map destroy_pair zs)) (with_entities part (xs @ zs @ ys) l) =
    Some (with_entities part (xs @ ys) l)"
  using assms(1)
proof (induction zs)
  case (Cons z zs)
  obtain e h where z: "z = (e, h)" by fastforce
  have a: "entities_apart (xs @ (e, h) # zs @ ys) l" using Cons.prems z by simp
  have "entities_apart (xs @ zs @ ys) l" using entities_apart_drop [of xs "[z]" "zs @ ys" l] Cons.prems by simp
  with Cons.IH run_destroy_pair [OF a assms(2)] show ?case by (simp add: run_calls_append z)
qed simp

section \<open>Ownership is kept\<close>

definition life_inv :: "nat \<Rightarrow> live_entities \<Rightarrow> participant_life \<Rightarrow> bool" where
  "life_inv part l0 s \<longleftrightarrow>
     (\<exists>ehs. owned_by (concat (map object_pointers (snd s))) ehs \<and> entities_apart ehs l0 \<and>
        fst s = Some (with_entities part ehs l0))"

lemma life_invI:
  "owned_by (concat (map object_pointers held)) ehs \<Longrightarrow> entities_apart ehs l0 \<Longrightarrow>
   l = with_entities part ehs l0 \<Longrightarrow> life_inv part l0 (Some l, held)"
  by (auto simp: life_inv_def)

text \<open>Adding an endpoint to the object at some position of the list.\<close>

lemma life_inv_add:
  assumes "owned_by (ps @ qs) ehs" and "entities_apart ehs l0" and "live_ok l0"
    and "answers_fresh a (with_entities part ehs l0)" and "created_at a = Some e"
    and "concat (map object_pointers held') = ps @ (Ptr e, Ptr (history_at a)) # qs"
  shows "life_inv part l0 (Some (with_entities part [(e, history_at a)] (with_entities part ehs l0)), held')"
proof -
  obtain as bs where ab: "ehs = as @ bs" "owned_by ps as" "owned_by qs bs"
    using assms(1) by (auto simp: owned_by_append)
  have "owned_by (concat (map object_pointers held')) (as @ (e, history_at a) # bs)"
    using ab(2,3) unfolding assms(6) by (simp add: owned_by_def)
  moreover have "entities_apart (as @ (e, history_at a) # bs) l0"
    using assms(2,4,5) by (auto simp: entities_apart_def answers_fresh_def ab(1))
  moreover have "with_entities part [(e, history_at a)] (with_entities part ehs l0) =
      with_entities part (as @ (e, history_at a) # bs) l0"
    unfolding ab(1) by (rule with_entities_more)
  ultimately show ?thesis by (auto intro: life_invI)
qed

lemma live_ok_with: "live_ok l \<Longrightarrow> live_ok (with_entities part ehs l)"
  by (force simp: live_ok_def)

text \<open>The events, one by one, from a state that owns \<open>ehs\<close>.\<close>

definition owning :: "nat \<Rightarrow> live_entities \<Rightarrow> (nat \<times> nat) list \<Rightarrow> endpoint_object list \<Rightarrow> live_entities \<Rightarrow> bool" where
  "owning part l0 ehs held l \<longleftrightarrow>
     owned_by (concat (map object_pointers held)) ehs \<and> entities_apart ehs l0 \<and> l = with_entities part ehs l0 \<and>
     live_ok l0 \<and> part \<in> live_participants l0"

lemma owning_inv: "owning part l0 ehs held l \<Longrightarrow> life_inv part l0 (Some l, held)"
  by (auto simp: owning_def intro: life_invI)

lemma owning_live: "owning part l0 ehs held l \<Longrightarrow> live_ok l \<and> part \<in> live_participants l"
  by (auto simp: owning_def intro: live_ok_with)

lemma new_writer_inv:
  assumes o: "owning part l0 ehs held l" and a: "answers_fresh a l" "answers_registered a"
    and c: "create_simple_writer part rep a = Inr (err, cs, w)"
  shows "life_inv part l0 (run_calls cs l, if err = None then held @ [EO_writer w] else held)"
proof (cases "created_at a")
  case None
  have "run_calls cs l = Some l" "err \<noteq> None"
    using c refused_history_deleted [of l "history_at a" part rep] owning_live [OF o] a(1)
    by (auto simp: create_writer_refused [OF None] answers_fresh_def simp del: run_calls.simps)
  with owning_inv [OF o] show ?thesis by auto
next
  case (Some e)
  have "registered a" using a(2) Some by (simp add: answers_registered_def)
  from writer_created [OF a(1) _ Some this, of part rep] owning_live [OF o] obtain cs' w' where
    i: "common_writer_init part rep a common_writer_entities_new = (None, cs', w')"
      "(rtps_writer w', writer_history w') = (Ptr e, Ptr (history_at a))"
      "run_calls cs' l = Some (with_entities part [(e, history_at a)] l)"
    by auto
  have "err = None" "cs = cs'" "w = w'" using c i(1) by (auto simp: create_simple_writer_def)
  with i o a(1) Some life_inv_add [of "concat (map object_pointers held)" "[]" ehs l0 a part e "held @ [EO_writer w']"]
  show ?thesis by (simp add: owning_def)
qed

lemma new_reader_inv:
  assumes o: "owning part l0 ehs held l" and a: "answers_fresh a l" "answers_registered a"
    and c: "create_common_reader part a = Inr (err, cs, r)"
  shows "life_inv part l0 (run_calls cs l, if err = None then held @ [EO_reader r] else held)"
proof (cases "created_at a")
  case None
  have "run_calls cs l = Some l" "err \<noteq> None"
    using c refused_history_deleted [of l "history_at a" part False] owning_live [OF o] a(1)
    by (auto simp: create_reader_refused [OF None] answers_fresh_def simp del: run_calls.simps)
  with owning_inv [OF o] show ?thesis by auto
next
  case (Some e)
  have "registered a" using a(2) Some by (simp add: answers_registered_def)
  from reader_created [OF a(1) _ Some this, of part] owning_live [OF o] obtain cs' r' where
    i: "common_reader_init part a common_reader_entities_new = (None, cs', r')"
      "(rtps_reader r', reader_history r') = (Ptr e, Ptr (history_at a))"
      "run_calls cs' l = Some (with_entities part [(e, history_at a)] l)"
    by auto
  have "err = None" "cs = cs'" "r = r'" using c i(1) by (auto simp: create_common_reader_def)
  with i o a(1) Some life_inv_add [of "concat (map object_pointers held)" "[]" ehs l0 a part e "held @ [EO_reader r']"]
  show ?thesis by (simp add: owning_def)
qed

lemma first_write_inv:
  assumes o: "owning part l0 ehs held l" and a: "answers_fresh a l" "answers_registered a"
    and ev: "participant_event part (First_write k a) held = Inr (cs, held')"
  shows "life_inv part l0 (run_calls cs l, held')"
proof (cases "\<exists>rep ws. k < length held \<and> held ! k = EO_multi rep ws")
  case False
  then have "cs = []" "held' = held" using ev by (auto split: if_splits endpoint_object.splits)
  with owning_inv [OF o] show ?thesis by simp
next
  case True
  then obtain rep ws where k: "k < length held" "held ! k = EO_multi rep ws" by blast
  let ?x = "map (\<lambda>w. (rtps_writer w, writer_history w))"
  let ?b = "concat (map object_pointers (take k held)) @ ?x ws" and ?c = "concat (map object_pointers (drop (Suc k) held))"
  have h: "held = take k held @ EO_multi rep ws # drop (Suc k) held" using k id_take_nth_drop by metis
  have ps: "concat (map object_pointers held) = ?b @ ?c" by (subst h) simp
  show ?thesis
  proof (cases "created_at a")
    case None
    then show ?thesis using ev k by (simp add: common_writer_init_def writer_internal_entities_creation_def Let_def)
  next
    case (Some e)
    have "registered a" using a(2) Some by (simp add: answers_registered_def)
    from writer_created [OF a(1) _ Some this, of part rep] owning_live [OF o] obtain cs' w' where
      i: "common_writer_init part rep a common_writer_entities_new = (None, cs', w')"
        "(rtps_writer w', writer_history w') = (Ptr e, Ptr (history_at a))"
        "run_calls cs' l = Some (with_entities part [(e, history_at a)] l)"
      by auto
    have r: "cs = cs'" "held' = held[k := EO_multi rep (ws @ [w'])]" using ev k i(1) by auto
    have "concat (map object_pointers held') = ?b @ (Ptr e, Ptr (history_at a)) # ?c"
      using k(1) i(2) by (simp add: r(2) upd_conv_take_nth_drop)
    with life_inv_add [of ?b ?c ehs l0 a part e held'] o a(1) Some ps i(3) r(1) show ?thesis
      by (simp add: owning_def)
  qed
qed

lemma drop_object_inv:
  assumes o: "owning part l0 ehs held l" and ev: "participant_event part (Drop_object k) held = Inr (cs, held')"
  shows "life_inv part l0 (run_calls cs l, held')"
proof (cases "k < length held")
  case True
  have h: "held = take k held @ held ! k # drop (Suc k) held" using True id_take_nth_drop by metis
  have "concat (map object_pointers held) = concat (map object_pointers (take k held)) @
      object_pointers (held ! k) @ concat (map object_pointers (drop (Suc k) held))"
    by (subst h) simp
  with o obtain as zs bs where e: "ehs = as @ zs @ bs" "owned_by (concat (map object_pointers (take k held))) as"
    "owned_by (object_pointers (held ! k)) zs" "owned_by (concat (map object_pointers (drop (Suc k) held))) bs"
    by (auto simp: owning_def owned_by_append)
  have apart: "entities_apart (as @ zs @ bs) l0" "live_ok l0" and l: "l = with_entities part (as @ zs @ bs) l0"
    using o by (simp_all add: owning_def e(1))
  have "cs = concat (map destroy_pair zs)" "held' = take k held @ drop (Suc k) held"
    using ev True object_destroy_owned [OF e(3)] by (auto simp: rbind_def)
  moreover have "owned_by (concat (map object_pointers (take k held @ drop (Suc k) held))) (as @ bs)"
    using e(2,4) by (auto simp: owned_by_append)
  ultimately show ?thesis
    using run_destroy_pairs [OF apart, of part] entities_apart_drop [OF apart(1)] l by (auto intro: life_invI)
qed (use ev owning_inv [OF o] in auto)

lemma life_inv_step:
  assumes "life_inv part l0 (lo, held)" and "life_step part (lo, held) s'"
    and ok: "live_ok l0" "part \<in> live_participants l0"
  shows "life_inv part l0 s'"
  using assms(2)
proof (cases rule: life_step.cases)
  case (life_event ev cs held' l)
  obtain ehs where o: "owning part l0 ehs held l"
    using assms(1) ok life_event(1) by (auto simp: life_inv_def owning_def)
  have f: "answers_fresh a l \<and> answers_registered a" if "event_answers ev = Some a" for a
    using life_event(4) that .
  show ?thesis
  proof (cases ev)
    case (New_writer rep a)
    with life_event(2,3) f o show ?thesis by (auto simp: rbind_eq_Inr_iff intro: new_writer_inv)
  next
    case (New_reader a)
    with life_event(2,3) f o show ?thesis by (auto simp: rbind_eq_Inr_iff intro: new_reader_inv)
  next
    case (New_multi_writer rep)
    with life_event(2,3) o show ?thesis by (auto simp: owning_def intro: life_invI)
  next
    case (First_write k a)
    with life_event(2,3) f o show ?thesis by (auto intro: first_write_inv simp del: participant_event.simps)
  next
    case (Drop_object k)
    with life_event(2,3) o show ?thesis by (auto intro: drop_object_inv simp del: participant_event.simps)
  qed
qed

definition life_start :: "nat \<Rightarrow> live_entities \<Rightarrow> participant_life \<Rightarrow> bool" where
  "life_start part l0 s \<longleftrightarrow> s = (Some l0, []) \<and> live_ok l0 \<and> part \<in> live_participants l0"

interpretation participant_lives: invariant_system "life_start part l0" "life_step part"
    "\<lambda>s. life_inv part l0 s \<and> live_ok l0 \<and> part \<in> live_participants l0"
  for part :: nat and l0 :: live_entities
proof
  show "life_inv part l0 s' \<and> live_ok l0 \<and> part \<in> live_participants l0"
    if "life_inv part l0 s \<and> live_ok l0 \<and> part \<in> live_participants l0" "life_step part s s'" for s s'
    using that life_inv_step [of part l0 "fst s" "snd s" s'] by simp
qed (auto simp: life_start_def life_inv_def entities_apart_def)

text \<open>
  The participant goes first when it is destroyed: \<^verbatim>\<open>~CommonParticipant\<close> removes the RTPS participant, then
  \<^verbatim>\<open>~BaseParticipant\<close> clears the endpoints that are still held.
\<close>

definition participant_destructors :: "nat \<Rightarrow> endpoint_object list \<Rightarrow> domain_call list result" where
  "participant_destructors part held =
     rbind (common_participant_destroy (Ptr part)) (\<lambda>cs. rbind (clear_endpoints held) (\<lambda>ds. Inr (cs @ ds)))"

lemma participant_destructors_owned:
  "owned_by (concat (map object_pointers held)) ehs \<Longrightarrow>
   participant_destructors part held = Inr (Remove_participant part # concat (map destroy_pair ehs))"
  by (simp add: participant_destructors_def common_participant_destroy_def pointer_set_def rbind_def
      clear_endpoints_owned)

lemma run_endpoint_after_participant:
  assumes "\<not> endpoint_live e l"
  shows "run_calls (Remove_participant part # destroy_pair (e, h) @ cs) (with_entities part ehs l) = None"
  using assms by (auto simp: destroy_pair_def endpoint_live_def)

lemma remove_participant_with:
  assumes "part \<in> live_participants l0" and "\<forall>x\<in>live_endpoints l0. fst (snd x) \<noteq> part"
  shows "call_effect (Remove_participant part) l0 = Some (l0\<lparr>live_participants := live_participants l0 - {part}\<rparr>)"
proof -
  have "{x \<in> live_endpoints l0. fst (snd x) \<noteq> part} = live_endpoints l0" using assms(2) by auto
  with assms(1) show ?thesis by simp
qed

text \<open>What should be alive after an attempt to create an endpoint, and what the attempt throws.\<close>

definition entities_after :: "nat \<Rightarrow> creation_answers \<Rightarrow> live_entities \<Rightarrow> live_entities option" where
  "entities_after part a l =
     (case created_at a of
        None \<Rightarrow> Some l
      | Some e \<Rightarrow> if registered a then Some (with_entities part [(e, history_at a)] l) else None)"

definition creation_error :: "creation_answers \<Rightarrow> exn option" where
  "creation_error a = (if created_at a \<noteq> None \<and> registered a then None else Some InitializationException)"

lemma removed_then_used: "run_calls (cs @ Remove_endpoint e # Use_endpoint e # ds) l = None"
  by (auto simp: run_calls_append removed_endpoint_used split: option.splits simp del: call_effect.simps)

lemma create_writer_outcome:
  assumes "live_ok l" and "part \<in> live_participants l" and "answers_fresh a l"
  shows "\<exists>cs w. create_simple_writer part repeater a = Inr (creation_error a, cs, w) \<and>
    run_calls cs l = entities_after part a l"
proof (cases "created_at a")
  case None
  with refused_history_deleted [of l "history_at a" part repeater] assms show ?thesis
    by (simp add: create_writer_refused entities_after_def creation_error_def answers_fresh_def del: run_calls.simps)
next
  case (Some e)
  show ?thesis
  proof (cases "registered a")
    case True
    from writer_created [OF assms(3,2) Some True, of repeater] Some True show ?thesis
      by (auto simp: create_simple_writer_def entities_after_def creation_error_def)
  next
    case False
    let ?h = "history_at a"
    from False removed_then_used
        [of "[New_history ?h, Create_endpoint part (Some e) ?h repeater, Register_endpoint part e]" e
          "[Remove_endpoint e, Delete_history ?h]" l] Some
    show ?thesis
      by (simp add: create_simple_writer_def common_writer_init_def writer_internal_entities_creation_def common_writer_destroy_def to_pointer_def
          endpoint_destroy_pair destroy_pair_def rbind_def Let_def entities_after_def creation_error_def
          answers_fresh_def del: run_calls.simps)
  qed
qed

lemma create_reader_outcome:
  assumes "live_ok l" and "part \<in> live_participants l" and "answers_fresh a l"
  shows "\<exists>cs r. create_common_reader part a = Inr (creation_error a, cs, r) \<and>
    run_calls cs l = entities_after part a l"
proof (cases "created_at a")
  case None
  with refused_history_deleted [of l "history_at a" part False] assms show ?thesis
    by (simp add: create_reader_refused entities_after_def creation_error_def answers_fresh_def del: run_calls.simps)
next
  case (Some e)
  show ?thesis
  proof (cases "registered a")
    case True
    from reader_created [OF assms(3,2) Some True] Some True show ?thesis
      by (auto simp: create_common_reader_def entities_after_def creation_error_def)
  next
    case False
    let ?h = "history_at a"
    from False removed_then_used
        [of "[New_history ?h, Create_endpoint part (Some e) ?h False, Use_endpoint e, Register_endpoint part e]" e
          "[Remove_endpoint e, Delete_history ?h]" l] Some
    show ?thesis
      by (simp add: create_common_reader_def common_reader_init_def reader_internal_entities_creation_def common_reader_destroy_def to_pointer_def
          endpoint_destroy_pair destroy_pair_def rbind_def Let_def entities_after_def creation_error_def
          answers_fresh_def del: run_calls.simps)
  qed
qed

text \<open>The exceptions are those of the creation as the participants see it.\<close>

lemma creation_error_agrees:
  assumes "created_at a = None \<longleftrightarrow> env_new_rtps_writer E pid topic qos = None"
    and "registered a \<longleftrightarrow> env_register_writer E pid topic qos"
  shows "creation_error a = (case writer_entities_creation E pid topic qos of Inl e \<Rightarrow> Some e | Inr _ \<Rightarrow> None)"
  using assms by (auto simp: creation_error_def writer_entities_creation_def split: option.splits)

section \<open>Properties\<close>

text \<open>
  C21. When the RTPS entities of a writer or of a reader are created, the calls to Fast DDS keep to the life times
  of the entities in all cases but one. If the endpoint is created and registered, exactly the endpoint and its
  history are added; if its creation is refused, the exception leaves nothing behind. If the endpoint is
  created but cannot be registered, it is removed and then used again by the destructor.
\<close>

theorem endpoint_creation_keeps_lifetimes:
  assumes "live_ok l" and "part \<in> live_participants l" and "answers_fresh a l"
  shows "(\<exists>cs w. create_simple_writer part repeater a = Inr (creation_error a, cs, w) \<and>
      run_calls cs l = entities_after part a l) \<and>
    (\<exists>cs r. create_common_reader part a = Inr (creation_error a, cs, r) \<and>
      run_calls cs l = entities_after part a l)"
  using create_writer_outcome [OF assms] create_reader_outcome [OF assms] by blast

definition sample_live :: live_entities where
  "sample_live = \<lparr>live_histories = {}, live_participants = {7}, live_endpoints = {}\<rparr>"

theorem endpoint_creation_keeps_lifetimes_witness:
  "\<exists>cs w. create_simple_writer 7 False \<lparr>history_at = 1, created_at = Some 2, registered = False\<rparr> =
     Inr (Some InitializationException, cs, w) \<and> run_calls cs sample_live = None"
  using endpoint_creation_keeps_lifetimes
    [of sample_live 7 "\<lparr>history_at = 1, created_at = Some 2, registered = False\<rparr>" False]
  by (auto simp: sample_live_def live_ok_def answers_fresh_def endpoint_live_def creation_error_def entities_after_def)



end
