(* ===== verification/Cache_Change_Pool.thy ===== *)
theory Cache_Change_Pool
  imports Rtps_Entities
begin

text \<open>
  The pool of cache changes of repeater writers (\<^verbatim>\<open>efficiency/cache_change/CacheChangePool\<close>). The unbounded pool it
  derives from belongs to the utility package and is an argument; the class only decides which objects the pool makes. A
  writer that is a repeater casts the changes it is given down to \<^verbatim>\<open>RouterCacheChange\<close> without a check.
\<close>

section \<open>Operations\<close>

datatype change_class = CacheChange_t | RouterCacheChange

type_synonym cache_change = "nat \<times> change_class"

text \<open>The pool makes its objects with the virtual \<^verbatim>\<open>new_element_\<close>, the first argument of its operations.\<close>

record 'p unbounded_pool_ops =
  up_initialize :: "change_class \<Rightarrow> pool_configuration \<Rightarrow> 'p"
  up_loan :: "change_class \<Rightarrow> 'p \<Rightarrow> cache_change option \<times> 'p"
  up_return_loan :: "cache_change \<Rightarrow> 'p \<Rightarrow> bool \<times> 'p"

definition new_element :: change_class where
  "new_element = RouterCacheChange"

definition cache_change_pool_new :: "'p unbounded_pool_ops \<Rightarrow> pool_configuration \<Rightarrow> 'p" where
  "cache_change_pool_new U configuration = up_initialize U new_element configuration"

definition reserve_cache :: "'p unbounded_pool_ops \<Rightarrow> 'p \<Rightarrow> cache_change option \<times> 'p" where
  "reserve_cache U pool = up_loan U new_element pool"

definition release_cache :: "'p unbounded_pool_ops \<Rightarrow> cache_change \<Rightarrow> 'p \<Rightarrow> bool \<times> 'p" where
  "release_cache U change pool = up_return_loan U change pool"

text \<open>The cast in \<^verbatim>\<open>fill_to_send_data_\<close> and in the data filter of a repeater.\<close>

definition cast_to_router_change :: "bool \<Rightarrow> cache_change \<Rightarrow> unit result" where
  "cast_to_router_change repeater c =
     (if repeater \<and> snd c \<noteq> RouterCacheChange then Inl InvalidMemoryAccess else Inr ())"

section \<open>What the pool hands out\<close>

text \<open>What is relied on: the pool holds only objects it made or was given back, and lends only such objects.\<close>

definition unbounded_pool_laws :: "'p unbounded_pool_ops \<Rightarrow> ('p \<Rightarrow> cache_change set) \<Rightarrow> bool" where
  "unbounded_pool_laws U contents \<longleftrightarrow>
     (\<forall>c cfg. \<forall>x\<in>contents (up_initialize U c cfg). snd x = c) \<and>
     (\<forall>c p r p'. up_loan U c p = (r, p') \<longrightarrow>
        (\<forall>x\<in>contents p' \<union> set_option r. x \<in> contents p \<or> snd x = c)) \<and>
     (\<forall>x p ok p'. up_return_loan U x p = (ok, p') \<longrightarrow> contents p' \<subseteq> insert x (contents p))"

lemma unbounded_pool_lawsD:
  assumes "unbounded_pool_laws U contents"
  shows "x \<in> contents (up_initialize U c cfg) \<Longrightarrow> snd x = c"
    and "up_loan U c p = (r, p') \<Longrightarrow> x \<in> contents p' \<union> set_option r \<Longrightarrow> x \<in> contents p \<or> snd x = c"
    and "up_return_loan U x p = (ok, p') \<Longrightarrow> contents p' \<subseteq> insert x (contents p)"
  using assms unfolding unbounded_pool_laws_def by blast+

text \<open>The pool together with the changes that are out on loan.\<close>

inductive pool_step ::
    "'p unbounded_pool_ops \<Rightarrow> 'p \<times> cache_change list \<Rightarrow> 'p \<times> cache_change list \<Rightarrow> bool"
  for U :: "'p unbounded_pool_ops" where
  pool_reserve: "reserve_cache U p = (Some c, p') \<Longrightarrow> pool_step U (p, out) (p', c # out)"
| pool_reserve_fails: "reserve_cache U p = (None, p') \<Longrightarrow> pool_step U (p, out) (p', out)"
| pool_release: "c \<in> set out \<Longrightarrow> release_cache U c p = (ok, p') \<Longrightarrow> pool_step U (p, out) (p', remove1 c out)"

definition pool_inv ::
    "'p unbounded_pool_ops \<Rightarrow> ('p \<Rightarrow> cache_change set) \<Rightarrow> 'p \<times> cache_change list \<Rightarrow> bool" where
  "pool_inv U contents s \<longleftrightarrow>
     (unbounded_pool_laws U contents \<longrightarrow> (\<forall>x\<in>contents (fst s) \<union> set (snd s). snd x = RouterCacheChange))"

definition pool_start :: "'p unbounded_pool_ops \<Rightarrow> 'p \<times> cache_change list \<Rightarrow> bool" where
  "pool_start U s \<longleftrightarrow> (\<exists>cfg. s = (cache_change_pool_new U cfg, []))"

lemma pool_inv_step:
  assumes "pool_inv U contents s" and "pool_step U s s'"
  shows "pool_inv U contents s'"
  unfolding pool_inv_def
proof
  assume laws: "unbounded_pool_laws U contents"
  with assms(1) have inv: "\<forall>x\<in>contents (fst s) \<union> set (snd s). snd x = RouterCacheChange" by (simp add: pool_inv_def)
  show "\<forall>x\<in>contents (fst s') \<union> set (snd s'). snd x = RouterCacheChange"
    using assms(2)
  proof (cases rule: pool_step.cases)
    case (pool_reserve p c p' out)
    then have "x \<in> contents p \<or> snd x = new_element" if "x \<in> contents p' \<union> {c}" for x
      using unbounded_pool_lawsD(2) [OF laws, of new_element p "Some c" p' x] that by (simp add: reserve_cache_def)
    with inv pool_reserve(1,2) show ?thesis by (simp add: new_element_def) blast
  next
    case (pool_reserve_fails p p' out)
    then have "x \<in> contents p \<or> snd x = new_element" if "x \<in> contents p'" for x
      using unbounded_pool_lawsD(2) [OF laws, of new_element p None p' x] that by (simp add: reserve_cache_def)
    with inv pool_reserve_fails(1,2) show ?thesis by (simp add: new_element_def) blast
  next
    case (pool_release c out p ok p')
    then have "contents p' \<subseteq> insert c (contents p)"
      using unbounded_pool_lawsD(3) [OF laws, of c p ok p'] by (simp add: release_cache_def)
    moreover have "set (remove1 c out) \<subseteq> set out" by (rule set_remove1_subset)
    ultimately have "contents p' \<union> set (remove1 c out) \<subseteq> contents (fst s) \<union> set (snd s)"
      using pool_release(1,3) by auto
    with inv show ?thesis unfolding pool_release(2) snd_conv fst_conv by blast
  qed
qed

interpretation cache_change_pools: invariant_system "pool_start U" "pool_step U" "pool_inv U contents"
  for U :: "'p unbounded_pool_ops" and contents :: "'p \<Rightarrow> cache_change set"
proof
  show "pool_inv U contents s" if "pool_start U s" for s
    using that unbounded_pool_lawsD(1) [of U contents _ new_element]
    by (auto simp: pool_start_def pool_inv_def cache_change_pool_new_def new_element_def)
qed (rule pool_inv_step)

text \<open>
  A writer casts its changes exactly when it was created with this pool, so the cast is valid: a repeater is created
  with it, and every change that it ever lends is a \<^verbatim>\<open>RouterCacheChange\<close>.
\<close>

lemma repeater_casts_valid:
  assumes "unbounded_pool_laws U contents" and "reachable (pool_start U) (pool_step U) (pool, out)"
    and "Create_endpoint part r h own_pool \<in> set (fst (snd (common_writer_init part' repeater a w)))"
    and "c \<in> (if own_pool then set out else UNIV)"
  shows "cast_to_router_change repeater c = Inr ()"
proof -
  have "own_pool = repeater"
    using assms(3) by (auto simp: common_writer_init_def writer_internal_entities_creation_def Let_def split: option.splits if_splits)
  moreover have "\<forall>x\<in>set out. snd x = RouterCacheChange"
    using cache_change_pools.reachable_inv [OF assms(2), of contents] assms(1) by (auto simp: pool_inv_def)
  ultimately show ?thesis using assms(4) by (auto simp: cast_to_router_change_def)
qed

text \<open>The laws can be met: a pool that keeps what it gets back in a list.\<close>

definition list_pool :: "(nat \<times> cache_change list) unbounded_pool_ops" where
  "list_pool =
     \<lparr>up_initialize = (\<lambda>c cfg. (pc_initial_size cfg, map (\<lambda>i. (i, c)) [0..<pc_initial_size cfg])),
      up_loan = (\<lambda>c p. case snd p of [] \<Rightarrow> (Some (fst p, c), (fst p + 1, [])) | x # xs \<Rightarrow> (Some x, (fst p, xs))),
      up_return_loan = (\<lambda>x p. (True, (fst p, x # snd p)))\<rparr>"

lemma list_pool_laws: "unbounded_pool_laws list_pool (\<lambda>p. set (snd p))"
  by (auto simp: unbounded_pool_laws_def list_pool_def split: list.splits)

end
