(* ===== verification/Printing.thy ===== *)
theory Printing
  imports RPC_Bridge Allowed_Topics Addresses
begin

text \<open>
  The output operators: the text an echo participant shows its user and the texts in log messages. How Fast DDS
  prints its own types, and the utility package its fuzzy values, containers and enumerations, are
  arguments. The number format of the stream is decimal before and after every operator.
\<close>

section \<open>Numbers and bytes\<close>

fun decimal :: "nat \<Rightarrow> string" where
  "decimal n = (if n < 10 then [char_of (48 + n)] else decimal (n div 10) @ [char_of (48 + n mod 10)])"

declare decimal.simps [simp del]

definition hex_digit :: "nat \<Rightarrow> char" where
  "hex_digit n = (if n < 10 then char_of (48 + n) else char_of (87 + n))"

definition octet_print :: "octet \<Rightarrow> string" where
  "octet_print b = [hex_digit (unat b div 16), hex_digit (unat b mod 16)]"

text \<open>A loop prints all bytes but the last with a blank after them, then the last.\<close>

definition payload_print :: "octet list \<Rightarrow> string" where
  "payload_print bs =
     ''Payload{'' @ concat (map (\<lambda>b. octet_print b @ '' '') (butlast bs)) @
     (if bs \<noteq> [] then octet_print (last bs) else []) @ ''}''"

section \<open>Qualities of service\<close>

fun durability_print :: "durability_kind \<Rightarrow> string" where
  "durability_print VOLATILE = ''VOLATILE''"
| "durability_print TRANSIENT_LOCAL = ''TRANSIENT_LOCAL''"
| "durability_print TRANSIENT = ''TRANSIENT''"
| "durability_print PERSISTENT = ''PERSISTENT''"

fun reliability_print :: "reliability_kind \<Rightarrow> string" where
  "reliability_print RELIABLE = ''RELIABLE''"
| "reliability_print BEST_EFFORT = ''BEST_EFFORT''"

fun ownership_print :: "ownership_kind \<Rightarrow> string" where
  "ownership_print SHARED_OWNERSHIP_QOS = ''SHARED''"
| "ownership_print EXCLUSIVE_OWNERSHIP_QOS = ''EXCLUSIVE''"

definition topic_qos_print :: "topic_qos \<Rightarrow> string" where
  "topic_qos_print q =
     ''TopicQoS{'' @ durability_print (durability_qos q) @
     '';'' @ reliability_print (reliability_qos q) @
     '';'' @ ownership_print (ownership_qos q) @
     (if topic_qos_has_partitions q then '';partitions'' else '''') @
     '';depth('' @ decimal (unat (history_depth q)) @ '')'' @
     ''}''"

definition partitions_print :: "string list \<Rightarrow> string" where
  "partitions_print ps = ''Partitions{'' @ concat (map (\<lambda>p. p @ '';'') ps) @ ''}''"

definition ownership_strength_print :: "32 word \<Rightarrow> string" where
  "ownership_strength_print v = ''OwnershipStrength{'' @ decimal (unat v) @ ''}''"

definition specific_qos_print :: "specific_endpoint_qos \<Rightarrow> string" where
  "specific_qos_print q =
     ''SpecificEndpointQoS{'' @ partitions_print (partitions q) @
     '';'' @ ownership_strength_print (ownership_strength q) @
     ''}''"

section \<open>Topics, endpoints and addresses\<close>

record print_env =
  print_guid :: "guid \<Rightarrow> string"
  print_guid_prefix :: "guid_prefix \<Rightarrow> string"
  print_instance_handle :: "instance_handle \<Rightarrow> string"
  print_endpoint_kind :: "endpoint_kind \<Rightarrow> string"
  print_fuzzy :: "string \<Rightarrow> string"
  print_container :: "string list \<Rightarrow> string"
  print_fuzzy_type :: "string \<Rightarrow> string"

definition topic_print :: "string \<Rightarrow> string" where
  "topic_print name = ''Topic{'' @ name @ ''}''"

definition dds_topic_print :: "print_env \<Rightarrow> dds_topic \<Rightarrow> string" where
  "dds_topic_print P t =
     (let keyed_str = (if keyed t then '';keyed;'' else '';'')
      in ''DdsTopic{'' @ topic_name t @ '';'' @ type_name t @ keyed_str @
         print_fuzzy P (topic_qos_print (topic_qos_of t)) @ ''}'')"

definition data_properties_print :: "print_env \<Rightarrow> data_properties \<Rightarrow> string" where
  "data_properties_print P d =
     ''DataProperties{'' @ specific_qos_print (writer_qos d) @
     '';'' @ print_instance_handle P (instanceHandle d) @
     ''}''"

definition endpoint_print :: "print_env \<Rightarrow> endpoint \<Rightarrow> string" where
  "endpoint_print P e =
     (let active_str = (if ep_active e then ''Active'' else ''Inactive'')
      in ''Endpoint{'' @ print_guid P (ep_guid e) @
         '';'' @ print_endpoint_kind P (ep_kind e) @
         '';'' @ dds_topic_print P (ep_topic e) @
         '';'' @ specific_qos_print (ep_specific_qos e) @
         '';'' @ active_str @
         '';'' @ participant_id_print (discoverer_participant_id e) @
         ''}'')"

definition domain_id_print :: "domain_id \<Rightarrow> string" where
  "domain_id_print d = ''DomainId{'' @ decimal (unat (domain_id_value d)) @ ''}''"

definition address_print :: "address \<Rightarrow> string" where
  "address_print a =
     ''{'' @
     (if addr_has_domain a then addr_domain a @ ''('' @ addr_ip a @ '');'' else addr_ip a @ '';'') @
     decimal (unat (addr_port a)) @ '';'' @
     (if address_is_udp a then ''udp}'' else ''tcp}'')"

definition ds_connection_address_print :: "print_env \<Rightarrow> ds_connection_address \<Rightarrow> string" where
  "ds_connection_address_print P a =
     ''{{'' @ print_guid_prefix P (ds_guid_prefix a) @ ''}['' @
     concat (map (\<lambda>x. address_print x @ '','') (ds_addresses a)) @ '']}''"

definition allowed_topic_list_print :: "print_env \<Rightarrow> allowed_topic_list \<Rightarrow> string" where
  "allowed_topic_list_print P l =
     ''AllowedTopicList{'' @
     ''allowed'' @ print_container P (map (wildcard_serialize (print_fuzzy_type P)) (allowlist l)) @
     ''blocked'' @ print_container P (map (wildcard_serialize (print_fuzzy_type P)) (blocklist l)) @
     ''}''"

section \<open>Objects of the router\<close>

definition base_participant_print :: "base_participant \<Rightarrow> string" where
  "base_participant_print p =
     ''{'' @ participant_id_print (pt_id p) @ '';'' @ participant_kind_print (pt_kind p) @ ''}''"

definition base_reader_print :: "print_env \<Rightarrow> ('cb, 'x) base_reader_scheme \<Rightarrow> string" where
  "base_reader_print P r =
     ''Reader{'' @ participant_id_print (br_participant_id r) @ '';'' @ dds_topic_print P (br_topic r) @ ''}''"

definition base_writer_print :: "print_env \<Rightarrow> 'x base_writer_scheme \<Rightarrow> string" where
  "base_writer_print P w =
     ''Writer{'' @ participant_id_print (bw_participant_id w) @ '';'' @ dds_topic_print P (bw_topic w) @ ''}''"

definition track_print :: "print_env \<Rightarrow> 'cb track \<Rightarrow> string" where
  "track_print P t =
     ''Track{'' @ dds_topic_print P (track_topic t) @ '';'' @ participant_id_print (reader_participant_id t) @ ''}''"

definition dds_bridge_print :: "print_env \<Rightarrow> dds_bridge \<Rightarrow> string" where
  "dds_bridge_print P b = ''DDSBridge{'' @ dds_topic_print P (brg_topic b) @ ''}''"

definition rpc_bridge_print :: "rpc_bridge \<Rightarrow> string" where
  "rpc_bridge_print b = ''RPCBridge{'' @ rpc_topic_print (rpc_topic b) @ ''}''"

text \<open>What the echo participant shows for a sample and for a discovered endpoint.\<close>

fun echo_message :: "print_env \<Rightarrow> fast_pool \<Rightarrow> echo_entry \<Rightarrow> string" where
  "echo_message P pool (EchoShort receiver topic) =
     ''Received data in Participant: '' @ participant_id_print receiver @
     '' in topic: '' @ dds_topic_print P topic @
     ''.''"
| "echo_message P pool (EchoVerbose source receiver topic payload qos) =
     ''In Endpoint: '' @ print_guid P source @
     '' from Participant: '' @ participant_id_print receiver @
     '' in topic: '' @ dds_topic_print P topic @
     '' payload received: '' @ payload_print (payload_bytes pool payload) @
     '' with specific qos: '' @ specific_qos_print qos @
     ''.''"

definition echo_discovery_message :: "print_env \<Rightarrow> endpoint \<Rightarrow> string" where
  "echo_discovery_message P e = ''New endpoint discovered: '' @ endpoint_print P e @ ''.''"

text \<open>An echo participant that shows discoveries registers a callback that writes to the log of the user.\<close>

definition echo_participant_new ::
    "print_env \<Rightarrow> (string \<Rightarrow> 's \<Rightarrow> 's) \<Rightarrow> echo_configuration \<Rightarrow> ('q, 's) discovery_database \<Rightarrow> ('q, 's) discovery_database" where
  "echo_participant_new P log_user c db =
     (if echo_discovery c
      then add_endpoint_discovered_callback (\<lambda>e. log_user (echo_discovery_message P e)) db else db)"

section \<open>Reading back\<close>

definition hex_value :: "char \<Rightarrow> nat option" where
  "hex_value c =
     (let n = of_char c in
      if 48 \<le> n \<and> n < 58 then Some (n - 48) else if 97 \<le> n \<and> n < 103 then Some (n - 87) else None)"

definition octet_read :: "char \<Rightarrow> char \<Rightarrow> octet option" where
  "octet_read c d =
     (case (hex_value c, hex_value d) of
        (Some h, Some l) \<Rightarrow> Some (of_nat (16 * h + l))
      | _ \<Rightarrow> None)"

fun octets_read :: "string \<Rightarrow> octet list option" where
  "octets_read (c # d # s) =
     (case octet_read c d of
        None \<Rightarrow> None
      | Some b \<Rightarrow>
         (case s of
            [] \<Rightarrow> None
          | x # s' \<Rightarrow>
              if x = CHR ''}'' then (if s' = [] then Some [b] else None)
              else if x = CHR '' '' then map_option ((#) b) (octets_read s')
              else None))"
| "octets_read _ = None"

definition payload_read :: "string \<Rightarrow> octet list option" where
  "payload_read s =
     (if take 8 s \<noteq> ''Payload{'' then None
      else if drop 8 s = ''}'' then Some [] else octets_read (drop 8 s))"

lemma hex_value_digit: "n < 16 \<Longrightarrow> hex_value (hex_digit n) = Some n"
  by (simp add: hex_value_def hex_digit_def Let_def)

lemma octet_read_print: "octet_read (hex_digit (unat b div 16)) (hex_digit (unat b mod 16)) = Some (b :: octet)"
proof -
  have "unat b < 256" using unsigned_less [of b] by simp
  then have "unat b div 16 < 16" by simp
  then show ?thesis by (simp add: octet_read_def hex_value_digit)
qed

lemma octets_read_print:
  "bs \<noteq> [] \<Longrightarrow>
   octets_read (concat (map (\<lambda>b. octet_print b @ '' '') (butlast bs)) @ octet_print (last bs) @ ''}'') = Some bs"
proof (induction bs)
  case (Cons b bs)
  then show ?case by (cases bs) (simp_all add: octet_print_def octet_read_print)
qed simp

lemma octet_print_not_brace: "octet_print b @ s \<noteq> ''}''"
  by (simp add: octet_print_def)

section \<open>Printed qualities of service\<close>

lemma append_separated:
  "xs @ c # xr = ys @ c # yr \<Longrightarrow> c \<notin> set xs \<Longrightarrow> c \<notin> set ys \<Longrightarrow> xs = ys \<and> xr = yr"
proof (induction xs arbitrary: ys)
  case (Cons x xs)
  then show ?case by (cases ys) auto
qed (auto simp: Cons_eq_append_conv)

definition decimal_value :: "string \<Rightarrow> nat" where
  "decimal_value s = foldl (\<lambda>n c. 10 * n + (of_char c - 48)) 0 s"

lemma decimal_value_print: "decimal_value (decimal n) = n"
proof (induction n rule: decimal.induct)
  case (1 n)
  then show ?case by (subst decimal.simps) (auto simp: decimal_value_def)
qed

lemma decimal_no_paren: "CHR '')'' \<notin> set (decimal n)"
proof (induction n rule: decimal.induct)
  case (1 n)
  have digit: "CHR '')'' \<noteq> char_of (48 + m)" if "m < 10" for m :: nat
  proof
    assume "CHR '')'' = char_of (48 + m)"
    then have "of_char (CHR '')'') = (of_char (char_of (48 + m) :: char) :: nat)" by simp
    with that show False by simp
  qed
  show ?case by (subst decimal.simps) (use 1 digit [of n] digit [of "n mod 10"] in auto)
qed

lemma kind_print_inj:
  "durability_print a = durability_print b \<longleftrightarrow> a = b"
  "reliability_print c = reliability_print d \<longleftrightarrow> c = d"
  "ownership_print e = ownership_print f \<longleftrightarrow> e = f"
  by ((cases a; cases b; simp), (cases c; cases d; simp), (cases e; cases f; simp))

lemma kind_print_no_semicolon:
  "CHR '';'' \<notin> set (durability_print a)" "CHR '';'' \<notin> set (reliability_print c)" "CHR '';'' \<notin> set (ownership_print e)"
  by ((cases a; simp), (cases c; simp), (cases e; simp))

definition qos_print_tail :: "topic_qos \<Rightarrow> string" where
  "qos_print_tail q =
     (if use_partitions q then ''partitions;'' else []) @ ''depth('' @ decimal (unat (history_depth q)) @ '')}''"

lemma topic_qos_print_split:
  "topic_qos_print q = ''TopicQoS{'' @ durability_print (durability_qos q) @ CHR '';'' #
     reliability_print (reliability_qos q) @ CHR '';'' # ownership_print (ownership_qos q) @ CHR '';'' # qos_print_tail q"
  by (simp add: topic_qos_print_def topic_qos_has_partitions_def qos_print_tail_def)

lemma qos_print_tail_inj:
  assumes "qos_print_tail q = qos_print_tail r"
  shows "use_partitions q = use_partitions r \<and> history_depth q = history_depth r"
proof -
  have p: "use_partitions q = use_partitions r" using assms by (auto simp: qos_print_tail_def split: if_splits)
  with assms have "decimal (unat (history_depth q)) @ CHR '')'' # ''}'' = decimal (unat (history_depth r)) @ CHR '')'' # ''}''"
    by (simp add: qos_print_tail_def split: if_splits)
  from append_separated [OF this decimal_no_paren decimal_no_paren]
  have "unat (history_depth q) = unat (history_depth r)" by (metis decimal_value_print)
  with p show ?thesis by (simp add: word_unat_eq_iff)
qed

lemma topic_qos_print_inj:
  assumes "topic_qos_print q = topic_qos_print r"
  shows "q = r"
proof -
  have 1: "durability_print (durability_qos q) @ CHR '';'' #
      reliability_print (reliability_qos q) @ CHR '';'' # ownership_print (ownership_qos q) @ CHR '';'' # qos_print_tail q =
      durability_print (durability_qos r) @ CHR '';'' #
      reliability_print (reliability_qos r) @ CHR '';'' # ownership_print (ownership_qos r) @ CHR '';'' # qos_print_tail r"
    using assms unfolding topic_qos_print_split by simp
  note 2 = append_separated [OF 1 kind_print_no_semicolon(1) kind_print_no_semicolon(1)]
  note 3 = append_separated [OF conjunct2 [OF 2] kind_print_no_semicolon(2) kind_print_no_semicolon(2)]
  note 4 = append_separated [OF conjunct2 [OF 3] kind_print_no_semicolon(3) kind_print_no_semicolon(3)]
  from 2 3 4 qos_print_tail_inj [OF conjunct2 [OF 4]] show ?thesis by (simp add: kind_print_inj)
qed

section \<open>Properties\<close>

text \<open>
  C40. What an echo participant shows of a sample identifies it: from the printed payload every byte can be read back, in
  order, for payloads of every length, the empty one included, and two topic qualities of service that are printed
  alike are the same.
\<close>

theorem echoed_payload_reads_back:
  "payload_read (payload_print bs) = Some bs \<and> inj topic_qos_print"
proof
  show "payload_read (payload_print bs) = Some bs"
  proof (cases "bs = []")
    case False
    have "drop 8 (payload_print bs) =
        concat (map (\<lambda>b. octet_print b @ '' '') (butlast bs)) @ octet_print (last bs) @ ''}''"
      using False by (simp add: payload_print_def)
    moreover have "\<dots> \<noteq> ''}''"
      by (cases "butlast bs") (simp_all add: octet_print_def)
    moreover have "take 8 (payload_print bs) = ''Payload{''" by (simp add: payload_print_def)
    ultimately show ?thesis using octets_read_print [OF False] by (simp only: payload_read_def simp_thms if_False)
  qed (simp add: payload_print_def payload_read_def)
qed (auto intro: injI topic_qos_print_inj)

end
