(* ===== verification/Spec2Isabelle.thy ===== *)
theory Spec2Isabelle
  imports Track_Refinement Router_Ownership Tool System_Safety RPC_Trace Dummy_Forwarding Bridge_Lifecycle Cache_Change_Pool Printing
begin

text \<open>
  A verification development for the eProsima DDS Router (\<^verbatim>\<open>src/ddsrouter_core\<close>, \<^verbatim>\<open>src/ddsrouter_yaml\<close> and \<^verbatim>\<open>src/tools\<close>): a program that
  joins several DDS participants and forwards what one of them receives to the others, topic by topic,
  and requests and replies of services through a proxy per participant.

  \<^bold>\<open>How the program works, and where it is modelled.\<close> Paths are relative to
  \<^verbatim>\<open>src/ddsrouter_core/src/cpp\<close>.

  \<^item> \<^verbatim>\<open>Prelude\<close>, \<^verbatim>\<open>Std_Map\<close>, \<^verbatim>\<open>Std_String\<close>, \<^verbatim>\<open>Transition\<close>: exceptions and return codes as values with the
    sequencing \<open>rbind\<close> and the throwing loop \<open>rfold\<close>; \<^verbatim>\<open>std::map\<close> and \<^verbatim>\<open>std::set\<close> as sorted lists
    under a key (locale \<open>kv_store\<close>); \<^verbatim>\<open>std::string\<close> searches with 64-bit positions; transition systems
    with the invariant rule as the locale \<open>invariant_system\<close>.
  \<^item> \<^verbatim>\<open>Dds_Types\<close>, \<^verbatim>\<open>Topics\<close>, \<^verbatim>\<open>Endpoints\<close>, \<^verbatim>\<open>Addresses\<close> (\<^verbatim>\<open>types/\<close>): identifiers, qualities of service, samples,
    topics with their wildcard filters, the mangled topics of services, endpoints, addresses and TLS.
  \<^item> \<^verbatim>\<open>Configuration\<close> (\<^verbatim>\<open>configuration/\<close>) with its validity checks; \<^verbatim>\<open>Rtps_Attributes\<close> and
    \<^verbatim>\<open>Participant_Factory\<close> turn a participant configuration into a participant
    (\<^verbatim>\<open>core/ParticipantFactory\<close>, \<^verbatim>\<open>participant/implementations/rtps\<close>), and the discovery notifications of a
    participant into queued operations.
  \<^item> \<^verbatim>\<open>Allowed_Topics\<close> and \<^verbatim>\<open>Discovery_Database\<close> (\<^verbatim>\<open>dynamic/\<close>): the allow and block lists, and the
    database of discovered endpoints with its queue and processing thread, as functions and as an
    interleaving of atomic steps.
  \<^item> \<^verbatim>\<open>Payload_Pool\<close> (\<^verbatim>\<open>efficiency/payload\<close>): reference-counted payloads on an explicit heap; the contract of
    a pool is the locale \<open>payload_pool\<close>, interpreted on the fast and on the map pool.
  \<^item> \<^verbatim>\<open>Readers\<close>, \<^verbatim>\<open>Writers\<close>, \<^verbatim>\<open>Participants\<close>, \<^verbatim>\<open>Participants_Database\<close> (\<^verbatim>\<open>reader/\<close>, \<^verbatim>\<open>writer/\<close>,
    \<^verbatim>\<open>participant/\<close>, \<^verbatim>\<open>core/ParticipantsDatabase\<close>): the endpoint classes, one constructor per dynamic
    class, in a store of shared objects, and the participants that create them; \<^verbatim>\<open>Rtps_Entities\<close> the
    RTPS entities behind them, as the calls their constructors and destructors make to Fast DDS;
    \<^verbatim>\<open>Cache_Change_Pool\<close> (\<^verbatim>\<open>efficiency/cache_change\<close>) the pool of repeater writers.
  \<^item> \<^verbatim>\<open>Track\<close> and \<^verbatim>\<open>Track_Run\<close> (\<^verbatim>\<open>communication/Track\<close>): the transmission from one reader to the writers of
    the other participants, as a loop with fuel and as interleaved steps of the listener, the worker
    and the control thread, with \<^verbatim>\<open>Track_Refinement\<close> that the loop is a run of those steps; \<^verbatim>\<open>DDS_Bridge\<close> for one topic and \<^verbatim>\<open>Bridge_Lifecycle\<close>
    its destruction; \<^verbatim>\<open>Dummy_Forwarding\<close> the way of a sample
    through a bridge between dummy participants, from reception to what they report as sent;
    \<^verbatim>\<open>Service_Registry\<close> and \<^verbatim>\<open>RPC_Bridge\<close> for one service, \<^verbatim>\<open>RPC_Trace\<close> its requests and replies over time.
    A bridge is switched through the locale \<open>switchable\<close>.
  \<^item> \<^verbatim>\<open>Router\<close>, \<^verbatim>\<open>Router_Invariant\<close>, \<^verbatim>\<open>System\<close>, \<^verbatim>\<open>Router_Safety\<close>, \<^verbatim>\<open>System_Safety\<close>
    (\<^verbatim>\<open>core/DDSRouterImpl\<close>): the router, its invariant, the router together with the discovery database that
    drives it, and the proof that no operation of a router fails (locale \<open>total_operation\<close>, interpreted on
    its loops), alone and under the callbacks of the database.
  \<^item> \<^verbatim>\<open>Endpoint_Ownership\<close>, \<^verbatim>\<open>Bridge_System\<close>, \<^verbatim>\<open>Router_Ownership\<close>: who owns the endpoints registered with the
    participants; the bridges of both kinds as owners, any number of them as a transition system, and the router as a
    run of that system (locale \<open>simulated_operation\<close>, interpreted on the loops of the router).
  \<^item> \<^verbatim>\<open>Yaml_Reader\<close>, \<^verbatim>\<open>Yaml_Configuration\<close> (\<^verbatim>\<open>src/ddsrouter_yaml\<close>): the reader of the configuration files. The
    templates take the reader of an element as an argument; what they need of it, to fail with a
    configuration error only, is the locale \<open>config_reader\<close>, interpreted on every reader. A record stands
    for the YAML library.
  \<^item> \<^verbatim>\<open>Tool\<close> (\<^verbatim>\<open>src/tools/ddsrouter_tool\<close>): the command line and \<^verbatim>\<open>main\<close>, from the arguments to the exit code, with
    what happens during a run as a list of events.
  \<^item> \<^verbatim>\<open>Printing\<close>: the output operators and the messages of echo participants.

  State and operations keep the names of the source where they can; a method \<^verbatim>\<open>C::m\<close> is a function on
  the record of \<^verbatim>\<open>C\<close>, virtual methods are functions on a datatype of the classes, exceptions are the left
  values of a sum, a call of a \<^verbatim>\<open>noexcept\<close> function that throws ends the process and is an error value.
  Machine integers are words of their width.

  \<^bold>\<open>What is a parameter.\<close> The YAML library (\<open>yaml_env\<close>), the option parser and the event handlers (\<open>tool_env\<close>), Fast DDS (entities, histories, \<^verbatim>\<open>IPLocator\<close>, \<^verbatim>\<open>DBQueue\<close>, payload memory), the
  \<^verbatim>\<open>cpp_utils\<close> package (pattern matching, comparison of pointer sets, lower-casing) and the memory
  allocator are arguments, with the laws a theorem needs as named hypotheses
  (\<open>db_queue_laws\<close>, \<open>unbounded_pool_laws\<close>, \<open>payload_memory_laws\<close>, \<open>dns_laws\<close>); the witnesses instantiate them.

  \<^bold>\<open>What the theorems show.\<close> Forwarding: a transmission delivers every waiting sample to every writer,
  in order and unchanged, is a run of the worker of the interleaved protocol, and no interleaving of listener and worker loses a wake-up, except after a
  disable, where the track can stay silent; between dummy participants a sample is followed from its
  reception to every participant that has to send it. Discovery: operations are applied in order and refine an
  abstract map, and what is discovered reaches the router. Payloads: freed exactly at the last release
  when releases do not race, and twice when they do. Routing of services: requests are recorded where
  they are sent, replies go back once, over any history no more replies are handed back than requests were made, the registries stay bounded. Endpoints: every registered endpoint
  has one owner, a router gives back what its bridges own, and a bridge whose constructor failed blocks its topic. The router: its topics, bridges and
  services agree with the filters in every reachable state; start, stop and reload report what they did; no
  operation ends the process, unless the compiler evaluates the left side of an assignment first.
  Configuration: the checks accept exactly the well-formed configurations, for which the creation of the
  participants never ends in a configuration error; it may not return at all, for two listening
  addresses. A document is read into a configuration whose objects fit their kinds, or refused with a
  configuration error. The executable: failures of the start end with their exit code, a number too
  large on the command line does not, and whatever files are loaded during a run the router stays consistent
  and the run ends with success.

  Life times: a bridge gives the participants back as it found them, and the RTPS entities of a participant are
  used only while they live and are all released, except when the registration of an endpoint fails or
  endpoints outlive their participant; there the destructors use removed entities. The theorems
  on the router see such a failure as the exception it raises, not as the invalid access.

  \<^bold>\<open>Fuel.\<close> \<open>transmit\<close>, \<open>rpc_transmit\<close> and \<open>process_queue\<close> run a loop over what other threads may
  extend; their fuel bounds the iterations and running out is a value of its own. The theorems give
  enough fuel: one more than the number of waiting samples, the number of queued operations. The search
  loop of the participant attributes is a partial function whose result is \<open>None\<close> when the code
  does not return. The counter of the track is 32 bits wide; its theorems cover runs of fewer than two
  to the thirty listener calls, far from its wrap-around.

  \<^bold>\<open>Not modelled.\<close> Logging beyond the text of the messages; mutexes, where a lock makes an operation
  atomic (it is a function then, and the interleaved models show the accesses made outside a lock);
  the thread pool beyond the tasks it is given; times. The option parser, the file watcher, the timer and the signal handlers
  are code of other packages or vendored.
\<close>

section \<open>Properties across components\<close>

lemma sample_system_served:
  "\<exists>r r'. router_new sample_router_env sample_router_configuration = Some (Inr r) \<and>
     discovered_endpoint sample_router_env sample_reader r = Inr r'"
proof -
  have "case router_new sample_router_env sample_router_configuration of
      Some (Inr r) \<Rightarrow> (case discovered_endpoint sample_router_env sample_reader r of Inr r' \<Rightarrow> True | _ \<Rightarrow> False)
    | _ \<Rightarrow> False"
    by code_simp
  then show ?thesis by (auto split: option.splits sum.splits)
qed



text \<open>The return codes of each operation of a consistent router.\<close>

lemma start_return_code:
  assumes "router_ok E r"
  shows "case router_start E r of Inl x \<Rightarrow> \<not> rt_enabled r
     | Inr (ret, r') \<Rightarrow> rt_enabled r' \<and>
         (if rt_enabled r then ret = RETCODE_PRECONDITION_NOT_MET \<and> r' = r else ret = RETCODE_OK)"
proof (cases "router_start E r")
  case (Inl x)
  then show ?thesis by (auto simp: router_start_def split: if_splits)
next
  case (Inr q)
  with router_start_ok [of E r "fst q" "snd q"] assms show ?thesis
    by (auto simp: router_start_def rbind_eq_Inr_iff split: if_splits)
qed

lemma stop_return_code:
  assumes "router_ok E r"
  shows "case router_stop r of Inl x \<Rightarrow> rt_enabled r
     | Inr (ret, r') \<Rightarrow> \<not> rt_enabled r' \<and> rpc_bridges r' = rpc_bridges r \<and>
         (if rt_enabled r then ret = RETCODE_OK else ret = RETCODE_PRECONDITION_NOT_MET \<and> r' = r)"
proof (cases "router_stop r")
  case (Inl x)
  then show ?thesis by (auto simp: router_stop_def split: if_splits)
next
  case (Inr q)
  with router_stop_ok [of r "fst q" "snd q" E] assms show ?thesis
    by (auto simp: router_stop_def rbind_eq_Inr_iff split: if_splits)
qed

lemma reload_return_code:
  assumes "router_ok E r"
    and filters: "filters = allowed_topic_list_of (pointees (cfg_allowlist new)) (pointees (cfg_blocklist new))"
  shows "if \<not> reload_configuration_valid new then reload_configuration E new r = Inl ConfigurationException
     else if \<not> rt_enabled r then reload_configuration E new r = Inr (RETCODE_NOT_ENABLED, r)
     else if allowed_topic_list_eq (re_set_of_ptr_equal E) filters (allowed_topics r) \<and> new_builtin_topics new r = []
       then reload_configuration E new r = Inr (RETCODE_NO_DATA, r)
     else case reload_configuration E new r of
         Inl x \<Rightarrow> True
       | Inr (ret, r') \<Rightarrow> ret = RETCODE_OK \<and> rt_enabled r' \<and> allowed_topics r' = filters \<and>
           rt_configuration r' = configuration_reload new (rt_configuration r)"
proof (cases "reload_configuration E new r")
  case (Inl x)
  then show ?thesis by (auto simp: reload_configuration_def filters Let_def split: if_splits)
next
  case (Inr q)
  obtain ret r' where q: "q = (ret, r')" by fastforce
  have "ret = RETCODE_OK" if "rt_enabled r"
    "\<not> (allowed_topic_list_eq (re_set_of_ptr_equal E) filters (allowed_topics r) \<and> new_builtin_topics new r = [])"
    using Inr that unfolding q filters
    by (auto simp: reload_configuration_def Let_def rbind_eq_Inr_iff split: if_splits)
  with reload_configuration_ok [OF Inr [unfolded q] assms(1)] Inr show ?thesis
    unfolding q filters by (auto simp: reload_configuration_def Let_def split: if_splits)
qed



end
